(* ===== verification/Prelude.thy ===== *)
theory Prelude
  imports Complex_Main "HOL-Library.Word" "HOL-Library.List_Lexorder"
    "HOL-Library.Code_Target_Nat"
begin

text \<open>
  Shared vocabulary of the development: bytes and C strings, results of operations that may
  throw, the narrowing of 64-bit integers to \<open>int\<close>, and the list lemmas the components share.

  A C++ \<open>std::string\<close> or \<open>char\<close> buffer is a HOL \<^typ>\<open>string\<close>: a list of bytes. \<open>char\<close> is signed
  on the platforms the server is built for, so comparisons of \<open>char\<close> values in the source are
  comparisons of \<open>schar\<close>.
\<close>

unbundle bit_operations_syntax

named_theorems unfold_model \<open>definitions the proofs of a component unfold\<close>
named_theorems step_inv \<open>invariant preservation, one fact per operation\<close>

subsection \<open>Bytes\<close>

definition byte :: "char \<Rightarrow> nat" where
  "byte c = of_char c"

definition schar :: "char \<Rightarrow> int" where
  "schar c = (if byte c < 128 then int (byte c) else int (byte c) - 256)"

definition chr :: "nat \<Rightarrow> char" where
  "chr n = char_of n"

abbreviation nul :: char where
  "nul \<equiv> CHR 0x00"

text \<open>The text a C string of these bytes has: what comes before the first zero byte.\<close>

definition c_text :: "string \<Rightarrow> string" where
  "c_text s = takeWhile (\<lambda>c. c \<noteq> nul) s"

lemma c_text_simps [simp]:
  "c_text [] = []" "c_text (c # s) = (if c = nul then [] else c # c_text s)" "c_text (c_text s) = c_text s"
  by (simp_all add: c_text_def)

lemma c_text_no_nul [simp]: "nul \<notin> set (c_text s)"
  by (induction s) auto

lemma c_text_id [simp]: "nul \<notin> set s \<Longrightarrow> c_text s = s"
  by (induction s) auto

lemma byte_less [simp]: "byte c < 256"
  by (simp add: byte_def)

lemma chr_byte [simp]: "chr (byte c) = c"
  by (simp add: chr_def byte_def)

lemma byte_chr [simp]: "n < 256 \<Longrightarrow> byte (chr n) = n"
  by (simp add: chr_def byte_def)

lemma byte_eq_iff: "byte c = byte d \<longleftrightarrow> c = d"
  by (simp add: byte_def)

lemma schar_eq_iff [simp]: "schar c = schar d \<longleftrightarrow> c = d"
proof
  assume "schar c = schar d"
  moreover have "int (byte c) < 256" "int (byte d) < 256" using byte_less[of c] byte_less[of d] by linarith+
  ultimately have "int (byte c) = int (byte d)"
    unfolding schar_def by (smt (verit) of_nat_0_le_iff)
  then have "byte c = byte d" by simp
  then show "c = d" by (simp add: byte_eq_iff)
qed simp

definition is_digit :: "char \<Rightarrow> bool" where
  "is_digit c \<longleftrightarrow> 48 \<le> byte c \<and> byte c \<le> 57"

definition digit_val :: "char \<Rightarrow> nat" where
  "digit_val c = byte c - 48"

text \<open>The \<open>isspace\<close> of the C locale.\<close>

definition is_space :: "char \<Rightarrow> bool" where
  "is_space c \<longleftrightarrow> byte c = 32 \<or> (9 \<le> byte c \<and> byte c \<le> 13)"

text \<open>The \<open>toupper\<close> of the C locale.\<close>

definition to_upper :: "char \<Rightarrow> char" where
  "to_upper c = (if 97 \<le> byte c \<and> byte c \<le> 122 then chr (byte c - 32) else c)"

definition to_lower :: "char \<Rightarrow> char" where
  "to_lower c = (if 65 \<le> byte c \<and> byte c \<le> 90 then chr (byte c + 32) else c)"

subsection \<open>Results\<close>

text \<open>
  An operation that may throw \<open>std::exception\<close> returns \<open>Inl what\<close> with the text of
  \<open>what()\<close>, or \<open>Inr v\<close>.
\<close>

type_synonym 'a res = "string + 'a"

definition bind_res :: "'a res \<Rightarrow> ('a \<Rightarrow> 'b res) \<Rightarrow> 'b res" where
  "bind_res m f = (case m of Inl e \<Rightarrow> Inl e | Inr x \<Rightarrow> f x)"

lemma bind_res_Inl [simp]: "bind_res (Inl e) f = Inl e"
  by (simp add: bind_res_def)

lemma bind_res_Inr [simp]: "bind_res (Inr x) f = f x"
  by (simp add: bind_res_def)

lemma bind_res_eq_Inr [simp]: "bind_res m f = Inr y \<longleftrightarrow> (\<exists>x. m = Inr x \<and> f x = Inr y)"
  by (cases m) auto

lemma bind_res_cong [fundef_cong]:
  "m = n \<Longrightarrow> (\<And>x. n = Inr x \<Longrightarrow> f x = g x) \<Longrightarrow> bind_res m f = bind_res n g"
  by (cases n) auto

subsection \<open>Decimal text\<close>

fun dec_digits :: "nat \<Rightarrow> string" where
  "dec_digits n = (if n < 10 then [chr (48 + n)] else dec_digits (n div 10) @ [chr (48 + n mod 10)])"

declare dec_digits.simps [simp del]

text \<open>\<open>std::to_string\<close> of a signed integer.\<close>

definition show_int :: "int \<Rightarrow> string" where
  "show_int i = (if i < 0 then CHR ''-'' # dec_digits (nat (- i)) else dec_digits (nat i))"

text \<open>The value of a run of decimal digits, most significant first.\<close>

definition dec_val :: "string \<Rightarrow> nat" where
  "dec_val s = fold (\<lambda>c a. 10 * a + digit_val c) s 0"

lemma dec_val_Nil [simp]: "dec_val [] = 0"
  by (simp add: dec_val_def)

lemma dec_val_snoc [simp]: "dec_val (s @ [c]) = 10 * dec_val s + digit_val c"
  by (simp add: dec_val_def)

lemma is_digit_chr [simp]: "n < 10 \<Longrightarrow> is_digit (chr (48 + n))"
  by (simp add: is_digit_def)

lemma digit_val_chr [simp]: "n < 10 \<Longrightarrow> digit_val (chr (48 + n)) = n"
  by (simp add: digit_val_def)

lemma dec_digits_digits: "\<forall>c \<in> set (dec_digits n). is_digit c"
proof (induction n rule: dec_digits.induct)
  case (1 n)
  then show ?case by (subst dec_digits.simps) auto
qed

lemma dec_digits_nonempty [simp]: "dec_digits n \<noteq> []"
  by (subst dec_digits.simps) simp

lemma dec_val_digits [simp]: "dec_val (dec_digits n) = n"
proof (induction n rule: dec_digits.induct)
  case (1 n)
  show ?case
  proof (cases "n < 10")
    case True
    then show ?thesis by (subst dec_digits.simps) (simp add: dec_val_def)
  next
    case False
    with 1 show ?thesis by (subst dec_digits.simps) simp
  qed
qed

subsection \<open>Narrowing conversions\<close>

text \<open>\<open>static_cast<int>\<close> of an \<open>int64_t\<close>: the low 32 bits read as two's complement.\<close>

definition to_int32 :: "int \<Rightarrow> int" where
  "to_int32 i = (i + 2 ^ 31) mod 2 ^ 32 - 2 ^ 31"

lemma to_int32_id: "- (2 ^ 31) \<le> i \<Longrightarrow> i < 2 ^ 31 \<Longrightarrow> to_int32 i = i"
  by (simp add: to_int32_def)

lemma to_int32_range: "- (2 ^ 31) \<le> to_int32 i \<and> to_int32 i < 2 ^ 31"
proof -
  have "0 \<le> (i + 2 ^ 31) mod 2 ^ 32" "(i + 2 ^ 31) mod 2 ^ 32 < (2 ^ 32 :: int)" by simp_all
  then show ?thesis unfolding to_int32_def by simp
qed

subsection \<open>Masks and shifts of naturals\<close>

lemma or_low: assumes "y < 2 ^ k" shows "push_bit k x OR y = x * 2 ^ k + (y::nat)"
proof -
  have "push_bit k x AND take_bit k y = 0" by (auto simp: bit_eq_iff bit_simps)
  moreover have "take_bit k y = y" using assms by (rule take_bit_nat_eq_self)
  ultimately have "push_bit k x + y = push_bit k x OR y" by (simp add: disjunctive_add_eq_or)
  then show ?thesis by (simp add: push_bit_eq_mult)
qed

lemma and_mask_mod: "x AND mask k = x mod 2 ^ k" for x :: nat
  by (simp add: take_bit_eq_mod flip: take_bit_eq_mask)

lemma mask_numerals:
  "x AND 1 = x mod 2" "x AND 3 = x mod 4" "x AND 7 = x mod 8" "x AND 15 = x mod 16" "x AND 63 = x mod 64"
  "x AND 127 = x mod 128" "x AND 255 = x mod 256" for x :: nat
  using and_mask_mod [of x 1] and_mask_mod [of x 2] and_mask_mod [of x 3] and_mask_mod [of x 4] and_mask_mod [of x 6]
    and_mask_mod [of x 7] and_mask_mod [of x 8]
  by (simp_all add: mask_eq_exp_minus_1)

end
