(* ===== verification/Floats.thy ===== *)
theory Floats
  imports Prelude
begin

text \<open>
  The C++ \<open>double\<close>: IEEE binary64 as a sign, a mantissa and an exponent (the value is
  \<open>\<plusminus> m * 2 ^ e\<close>), the conversion from an exact fraction with rounding to nearest, ties to
  even, and the comparisons the handlers make. The facts that matter to the auction are that
  conversion is monotone and that it separates any two amounts of cents below \<open>10 ^ 10\<close>.
\<close>

datatype double = Fin bool nat int | Inf bool | NaN

subsection \<open>Rounding an exact fraction\<close>

fun nbits :: "nat \<Rightarrow> nat" where
  "nbits n = (if n = 0 then 0 else Suc (nbits (n div 2)))"

declare nbits.simps [simp del]

definition rne :: "nat \<Rightarrow> nat \<Rightarrow> nat" where
  "rne a b = (let q = a div b; r = a mod b
              in if b < 2 * r \<or> (2 * r = b \<and> odd q) then q + 1 else q)"

definition scale_num :: "nat \<Rightarrow> int \<Rightarrow> nat" where
  "scale_num n e = n * 2 ^ nat (- e)"

definition scale_den :: "nat \<Rightarrow> int \<Rightarrow> nat" where
  "scale_den d e = d * 2 ^ nat e"

definition exp_of :: "nat \<Rightarrow> nat \<Rightarrow> int" where
  "exp_of n d = (let e = int (nbits n) - int (nbits d) - 53
                 in max (- 1074) (if scale_num n e < scale_den d e * 2 ^ 53 then e else e + 1))"

definition round_pos :: "nat \<Rightarrow> nat \<Rightarrow> nat \<times> int" where
  "round_pos n d = (let e = exp_of n d; m = rne (scale_num n e) (scale_den d e)
                    in if m = 2 ^ 53 then (2 ^ 52, e + 1) else (m, e))"

definition double_of_frac :: "bool \<Rightarrow> nat \<Rightarrow> nat \<Rightarrow> double" where
  "double_of_frac s n d =
     (if n = 0 then Fin s 0 (- 1074)
      else case round_pos n d of (m, e) \<Rightarrow> if 971 < e then Inf s else Fin s m e)"

definition double_max :: "bool \<Rightarrow> double" where
  "double_max s = Fin s (2 ^ 53 - 1) 971"

subsection \<open>Comparison\<close>

definition signed :: "bool \<Rightarrow> nat \<Rightarrow> int" where
  "signed s m = (if s then - int m else int m)"

fun double_le :: "double \<Rightarrow> double \<Rightarrow> bool" where
  "double_le (Fin s m e) (Fin t n f) =
     (signed s m * 2 ^ nat (e - min e f) \<le> signed t n * 2 ^ nat (f - min e f))"
| "double_le NaN y = False"
| "double_le x NaN = False"
| "double_le (Inf True) y = True"
| "double_le x (Inf False) = True"
| "double_le (Inf False) y = False"
| "double_le x (Inf True) = False"

definition double_zero :: double where
  "double_zero = Fin False 0 (- 1074)"

text \<open>A comparison with zero computes no power.\<close>

lemma double_le_code [code]:
  "double_le (Fin s m e) (Fin t n f) =
     (if n = 0 then s \<or> m = 0 else if m = 0 then \<not> t
      else signed s m * 2 ^ nat (e - min e f) \<le> signed t n * 2 ^ nat (f - min e f))"
  "double_le NaN y = False"
  "double_le (Inf a) NaN = False"
  "double_le (Fin s m e) NaN = False"
  "double_le (Inf True) (Fin s m e) = True"
  "double_le (Inf True) (Inf b) = True"
  "double_le (Inf False) (Inf b) = (\<not> b)"
  "double_le (Inf False) (Fin s m e) = False"
  "double_le (Fin s m e) (Inf b) = (\<not> b)"
  by (cases b; auto simp: signed_def mult_le_0_iff zero_le_mult_iff)+

text \<open>The value of a finite double, for stating what the operations compute.\<close>

fun dval :: "double \<Rightarrow> real" where
  "dval (Fin s m e) = real_of_int (signed s m) * 2 powi e"
| "dval (Inf s) = 0"
| "dval NaN = 0"

fun finite_double :: "double \<Rightarrow> bool" where
  "finite_double (Fin s m e) = True"
| "finite_double (Inf s) = False"
| "finite_double NaN = False"

subsection \<open>Powers of two\<close>

lemma powi_pos [simp]: "0 < (2::real) powi e"
  by (simp add: zero_less_power_int)

lemma powi_split: "(2::real) powi e = 2 ^ nat e / 2 ^ nat (- e)"
  by (cases "0 \<le> e") (simp_all add: power_int_def power_one_over)

lemma powi_nat: "0 \<le> e \<Longrightarrow> (2::real) powi e = 2 ^ nat e"
  by (simp add: power_int_def)

lemma powi_add2: "(2::real) powi (e + f) = 2 powi e * 2 powi f"
  by (simp add: power_int_add)

lemma powi_le: "e \<le> f \<Longrightarrow> (2::real) powi e \<le> 2 powi f"
  by (rule power_int_increasing) simp_all

lemma double_le_fin:
  "double_le (Fin s m e) (Fin t n f) \<longleftrightarrow> dval (Fin s m e) \<le> dval (Fin t n f)"
proof -
  let ?k = "min e f"
  have e: "(2::real) powi e = 2 ^ nat (e - ?k) * 2 powi ?k"
    by (subst powi_nat [symmetric]) (simp_all flip: powi_add2)
  have f: "(2::real) powi f = 2 ^ nat (f - ?k) * 2 powi ?k"
    by (subst powi_nat [symmetric]) (simp_all flip: powi_add2)
  have "dval (Fin s m e) \<le> dval (Fin t n f) \<longleftrightarrow>
      real_of_int (signed s m * 2 ^ nat (e - ?k)) * 2 powi ?k
        \<le> real_of_int (signed t n * 2 ^ nat (f - ?k)) * 2 powi ?k"
    unfolding dval.simps e f by (simp add: mult.assoc)
  also have "\<dots> \<longleftrightarrow> real_of_int (signed s m * 2 ^ nat (e - ?k))
        \<le> real_of_int (signed t n * 2 ^ nat (f - ?k))"
    by (rule mult_le_cancel_right_pos) simp
  finally show ?thesis by (simp only: double_le.simps of_int_le_iff)
qed

lemma double_le_dval:
  "finite_double x \<Longrightarrow> finite_double y \<Longrightarrow> double_le x y \<longleftrightarrow> dval x \<le> dval y"
  by (cases x; cases y) (simp_all only: finite_double.simps double_le_fin)

subsection \<open>Rounding to nearest even on the reals\<close>

definition rhe :: "real \<Rightarrow> int" where
  "rhe x = (let q = \<lfloor>x\<rfloor>; r = x - of_int q
            in if 1 / 2 < r \<or> (r = 1 / 2 \<and> odd q) then q + 1 else q)"

lemma rhe_int [simp]: "rhe (of_int k) = k"
  by (simp add: rhe_def)

lemma rhe_err: "\<bar>of_int (rhe x) - x\<bar> \<le> 1 / 2"
  unfolding rhe_def Let_def using floor_correct[of x] by (auto simp: abs_le_iff)

lemma rhe_mono: assumes "x \<le> y" shows "rhe x \<le> rhe y"
proof (cases "\<lfloor>x\<rfloor> = \<lfloor>y\<rfloor>")
  case True
  with assms show ?thesis by (auto simp: rhe_def Let_def)
next
  case False
  with assms have "\<lfloor>x\<rfloor> + 1 \<le> \<lfloor>y\<rfloor>" by (meson floor_mono not_le order_le_less zless_imp_add1_zle)
  then show ?thesis by (auto simp: rhe_def Let_def)
qed

lemma rne_rhe: assumes "0 < b" shows "int (rne a b) = rhe (real a / real b)"
proof -
  have q: "\<lfloor>real a / real b\<rfloor> = int (a div b)"
    by (metis floor_divide_of_nat_eq of_int_of_nat_eq zdiv_int)
  have "real a = real (a div b) * real b + real (a mod b)"
    by (metis div_mult_mod_eq of_nat_add of_nat_mult)
  then have r: "real a / real b - real (a div b) = real (a mod b) / real b"
    using assms by (simp add: field_simps)
  have gt: "1 / 2 < real (a mod b) / real b \<longleftrightarrow> b < 2 * (a mod b)"
  proof -
    have "1 / 2 < real (a mod b) / real b \<longleftrightarrow> real b < real (2 * (a mod b))"
      using assms by (simp add: field_simps)
    then show ?thesis by (simp only: of_nat_less_iff)
  qed
  have eq: "real (a mod b) / real b = 1 / 2 \<longleftrightarrow> 2 * (a mod b) = b"
  proof -
    have "real (a mod b) / real b = 1 / 2 \<longleftrightarrow> real (2 * (a mod b)) = real b"
      using assms by (auto simp: field_simps)
    then show ?thesis by (simp only: of_nat_eq_iff)
  qed
  show ?thesis
    unfolding rne_def rhe_def Let_def q of_int_of_nat_eq r gt eq by simp
qed


subsection \<open>The exponent and the rounded value\<close>

lemma nbits_bounds: "0 < n \<Longrightarrow> 2 ^ (nbits n - 1) \<le> n \<and> n < 2 ^ nbits n \<and> 0 < nbits n"
proof (induction n rule: nbits.induct)
  case (1 n)
  show ?case
  proof (cases "n div 2 = 0")
    case True
    with "1.prems" have "n = 1" by auto
    then show ?thesis by (simp add: nbits.simps)
  next
    case False
    with 1 have IH: "2 ^ (nbits (n div 2) - 1) \<le> n div 2" "n div 2 < 2 ^ nbits (n div 2)"
      "0 < nbits (n div 2)" by auto
    have eq: "nbits n = Suc (nbits (n div 2))"
      using "1.prems" by (subst nbits.simps) simp
    have "2 ^ nbits (n div 2) = 2 * (2::nat) ^ (nbits (n div 2) - 1)"
      using IH(3) by (cases "nbits (n div 2)") simp_all
    moreover have "2 * t \<le> n" if "t \<le> n div 2" for t using that by presburger
    moreover have "n < 2 * 2 ^ nbits (n div 2)" using IH(2) by presburger
    ultimately show ?thesis using IH unfolding eq by simp
  qed
qed

lemma scale_quotient:
  "real (scale_num n e) / real (scale_den d e) = real n / real d / 2 powi e"
  unfolding scale_num_def scale_den_def by (subst powi_split) (simp add: field_simps)

lemma scale_den_pos [simp]: "0 < d \<Longrightarrow> 0 < scale_den d e"
  by (simp add: scale_den_def)

lemma scale_less_iff:
  assumes "0 < d"
  shows "scale_num n e < scale_den d e * 2 ^ 53 \<longleftrightarrow> real n / real d < 2 powi (e + 53)"
proof -
  have "scale_num n e < scale_den d e * 2 ^ 53 \<longleftrightarrow>
      real (scale_num n e) < real (scale_den d e * 2 ^ 53)"
    by (simp only: of_nat_less_iff)
  also have "\<dots> \<longleftrightarrow> real (scale_num n e) / real (scale_den d e) < 2 ^ 53"
    using assms by (simp add: divide_less_eq mult.commute)
  also have "\<dots> \<longleftrightarrow> real n / real d / 2 powi e < 2 powi 53"
    by (simp add: scale_quotient)
  also have "\<dots> \<longleftrightarrow> real n / real d < 2 powi 53 * 2 powi e"
    by (rule pos_divide_less_eq) simp
  finally show ?thesis by (simp add: powi_add2 mult.commute)
qed

lemma quotient_bounds:
  assumes "0 < n" "0 < d"
  shows "2 powi (int (nbits n) - int (nbits d) - 1) \<le> real n / real d"
    and "real n / real d < 2 powi (int (nbits n) - int (nbits d) + 1)"
proof -
  note N = nbits_bounds [OF assms(1)] and D = nbits_bounds [OF assms(2)]
  have nl: "2 powi (int (nbits n) - 1) \<le> real n"
    using N by (metis of_nat_le_iff of_nat_numeral of_nat_power powi_nat nat_int of_nat_0_le_iff
        of_nat_1 of_nat_diff Suc_leI One_nat_def)
  have nu: "real n < 2 powi int (nbits n)"
    using N by (metis of_nat_less_iff of_nat_numeral of_nat_power power_int_of_nat)
  have dl: "2 powi (int (nbits d) - 1) \<le> real d"
    using D by (metis of_nat_le_iff of_nat_numeral of_nat_power powi_nat nat_int of_nat_0_le_iff
        of_nat_1 of_nat_diff Suc_leI One_nat_def)
  have du: "real d < 2 powi int (nbits d)"
    using D by (metis of_nat_less_iff of_nat_numeral of_nat_power power_int_of_nat)
  have "2 powi (int (nbits n) - int (nbits d) - 1) * real d
      \<le> 2 powi (int (nbits n) - int (nbits d) - 1) * 2 powi int (nbits d)"
    using du by (intro mult_left_mono) (simp_all add: less_imp_le)
  also have "\<dots> = 2 powi (int (nbits n) - 1)" unfolding powi_add2 [symmetric] by simp
  also note nl
  finally show "2 powi (int (nbits n) - int (nbits d) - 1) \<le> real n / real d"
    using assms by (simp add: le_divide_eq)
  note nu
  also have "(2::real) powi int (nbits n)
      = 2 powi (int (nbits n) - int (nbits d) + 1) * 2 powi (int (nbits d) - 1)"
    unfolding powi_add2 [symmetric] by simp
  also have "\<dots> \<le> 2 powi (int (nbits n) - int (nbits d) + 1) * real d"
    using dl by (intro mult_left_mono) (simp_all add: less_imp_le)
  finally show "real n / real d < 2 powi (int (nbits n) - int (nbits d) + 1)"
    using assms by (simp add: divide_less_eq)
qed

lemma exp_of_spec:
  assumes "0 < n" "0 < d"
  shows "real n / real d < 2 powi (exp_of n d + 53)"
    and "exp_of n d = - 1074 \<or> 2 powi (exp_of n d + 52) \<le> real n / real d"
    and "- 1074 \<le> exp_of n d"
proof -
  define e where "e = int (nbits n) - int (nbits d) - 53"
  have eo: "exp_of n d = max (- 1074) (if real n / real d < 2 powi (e + 53) then e else e + 1)"
    by (simp only: exp_of_def e_def scale_less_iff [OF assms(2)] Let_def)
  note B = quotient_bounds [OF assms]
  have lo: "2 powi (e + 52) \<le> real n / real d" and hi: "real n / real d < 2 powi (e + 1 + 53)"
    using B by (simp_all add: e_def add.commute algebra_simps)
  show "- 1074 \<le> exp_of n d" by (simp add: eo)
  let ?e = "if real n / real d < 2 powi (e + 53) then e else e + 1"
  have "real n / real d < 2 powi (?e + 53)" using hi by simp
  also have "\<dots> \<le> 2 powi (exp_of n d + 53)" unfolding eo by (rule powi_le) simp
  finally show "real n / real d < 2 powi (exp_of n d + 53)" .
  have "2 powi (?e + 52) \<le> real n / real d"
  proof (cases "real n / real d < 2 powi (e + 53)")
    case False
    then show ?thesis by (simp add: add.commute add.left_commute)
  qed (simp add: lo)
  then show "exp_of n d = - 1074 \<or> 2 powi (exp_of n d + 52) \<le> real n / real d"
    unfolding eo by (cases "- 1074 \<le> ?e") (simp_all add: max_def)
qed

lemma round_pos_val:
  assumes "0 < d" "round_pos n d = (m, e)"
  shows "real m * 2 powi e
    = of_int (rhe (real n / real d / 2 powi exp_of n d)) * 2 powi exp_of n d"
proof -
  let ?E = "exp_of n d"
  have r: "int (rne (scale_num n ?E) (scale_den d ?E)) = rhe (real n / real d / 2 powi ?E)"
    using assms by (simp add: rne_rhe scale_quotient)
  show ?thesis
  proof (cases "rne (scale_num n ?E) (scale_den d ?E) = 2 ^ 53")
    case True
    then have "m = 2 ^ 52" "e = ?E + 1" using assms(2) by (auto simp: round_pos_def Let_def)
    then show ?thesis unfolding r [symmetric] True by (simp add: powi_add2)
  next
    case False
    then have "m = rne (scale_num n ?E) (scale_den d ?E)" "e = ?E"
      using assms(2) by (auto simp: round_pos_def Let_def)
    then show ?thesis unfolding r [symmetric] by (simp only: of_int_of_nat_eq)
  qed
qed

lemma dval_of_frac:
  assumes "0 < n" "0 < d" "finite_double (double_of_frac False n d)"
  shows "dval (double_of_frac False n d)
    = of_int (rhe (real n / real d / 2 powi exp_of n d)) * 2 powi exp_of n d"
proof -
  obtain m e where me: "round_pos n d = (m, e)" by force
  with assms have "double_of_frac False n d = Fin False m e"
    by (auto simp: double_of_frac_def split: if_splits)
  with round_pos_val [OF assms(2) me] show ?thesis by (simp add: signed_def)
qed

lemma dval_of_frac_zero [simp]: "dval (double_of_frac False 0 d) = 0"
  by (simp add: double_of_frac_def signed_def)

text \<open>Conversion is monotone: a larger fraction never becomes a smaller double.\<close>

lemma round_mono_real:
  assumes n: "0 < n" "0 < d" and n': "0 < n'" "0 < d'"
    and le: "real n / real d \<le> real n' / real d'"
  shows "of_int (rhe (real n / real d / 2 powi exp_of n d)) * 2 powi exp_of n d
    \<le> (of_int (rhe (real n' / real d' / 2 powi exp_of n' d')) * 2 powi exp_of n' d' :: real)"
proof -
  let ?x = "real n / real d" and ?y = "real n' / real d'"
  let ?e = "exp_of n d" and ?f = "exp_of n' d'"
  note X = exp_of_spec [OF n] and Y = exp_of_spec [OF n']
  consider "?e = ?f" | "?e < ?f" | "?f < ?e" by linarith
  then show ?thesis
  proof cases
    case 1
    have "rhe (?x / 2 powi ?e) \<le> rhe (?y / 2 powi ?e)"
      using le by (intro rhe_mono divide_right_mono) simp_all
    with 1 show ?thesis by (simp add: mult_right_mono)
  next
    case 2
    have "?x \<le> of_int (2 ^ 53) * 2 powi ?e"
      using X(1) by (simp add: powi_add2 mult.commute)
    then have "?x / 2 powi ?e \<le> of_int (2 ^ 53)"
      by (simp only: pos_divide_le_eq [OF powi_pos])
    then have "rhe (?x / 2 powi ?e) \<le> 2 ^ 53"
      using rhe_mono rhe_int by metis
    then have "(of_int (rhe (?x / 2 powi ?e)) :: real) \<le> of_int (2 ^ 53)" by (simp only: of_int_le_iff)
    then have "of_int (rhe (?x / 2 powi ?e)) * 2 powi ?e \<le> (of_int (2 ^ 53) * 2 powi ?e :: real)"
      by (intro mult_right_mono) simp_all
    also have "\<dots> = 2 powi (?e + 53)" by (simp add: powi_add2 mult.commute)
    also have "\<dots> \<le> 2 powi (?f + 52)" using 2 by (intro powi_le) simp
    also have "\<dots> = of_int (2 ^ 52) * 2 powi ?f" by (simp add: powi_add2 mult.commute)
    also have "\<dots> \<le> of_int (rhe (?y / 2 powi ?f)) * 2 powi ?f"
    proof -
      have "2 powi (?f + 52) \<le> ?y" using Y(2) X(3) 2 by linarith
      then have "of_int (2 ^ 52) * 2 powi ?f \<le> ?y" by (simp add: powi_add2 mult.commute)
      then have "of_int (2 ^ 52) \<le> ?y / 2 powi ?f"
        by (simp only: pos_le_divide_eq [OF powi_pos])
      then have "2 ^ 52 \<le> rhe (?y / 2 powi ?f)" using rhe_mono rhe_int by metis
      then have "(of_int (2 ^ 52) :: real) \<le> of_int (rhe (?y / 2 powi ?f))" by (simp only: of_int_le_iff)
      then show ?thesis by (intro mult_right_mono) simp_all
    qed
    finally show ?thesis .
  next
    case 3
    then have "2 powi (?e + 52) \<le> ?x" using X(2) Y(3) by linarith
    moreover have "(2::real) powi (?f + 53) \<le> 2 powi (?e + 52)" using 3 by (intro powi_le) simp
    ultimately show ?thesis using Y(1) le by linarith
  qed
qed

lemma double_of_frac_mono:
  assumes "0 < d" "0 < d'" "n * d' \<le> n' * d"
    and "finite_double (double_of_frac False n d)" "finite_double (double_of_frac False n' d')"
  shows "dval (double_of_frac False n d) \<le> dval (double_of_frac False n' d')"
proof -
  have le: "real n / real d \<le> real n' / real d'"
  proof -
    have "real n * real d' \<le> real n' * real d" using assms(3) by (metis of_nat_le_iff of_nat_mult)
    then show ?thesis using assms(1,2) by (simp add: field_simps)
  qed
  consider "n = 0" | "0 < n" by blast
  then show ?thesis
  proof cases
    case 1
    have "0 \<le> dval (double_of_frac False n' d')"
      by (auto simp: double_of_frac_def signed_def split: prod.splits)
    with 1 show ?thesis by simp
  next
    case 2
    with assms have "0 < n'" by (metis mult_is_0 not_gr_zero le_zero_eq)
    with 2 assms le show ?thesis
      unfolding dval_of_frac [OF 2 assms(1,4)] dval_of_frac [OF \<open>0 < n'\<close> assms(2,5)]
      by (intro round_mono_real) simp_all
  qed
qed

lemma round_pos_finite:
  assumes "0 < n" "0 < d" "real n / real d < 2 powi 1023"
  shows "finite_double (double_of_frac s n d)"
proof -
  obtain m e where me: "round_pos n d = (m, e)" by force
  have "exp_of n d \<le> 970"
  proof (rule ccontr)
    assume "\<not> exp_of n d \<le> 970"
    then have "(2::real) powi 1023 \<le> 2 powi (exp_of n d + 52)" "exp_of n d \<noteq> - 1074"
      by (intro powi_le, simp_all)
    with exp_of_spec(2) [OF assms(1,2)] assms(3) show False by (metis order_trans linorder_not_le)
  qed
  with me have "e \<le> 971" by (auto simp: round_pos_def Let_def split: if_splits)
  with me show ?thesis by (simp add: double_of_frac_def)
qed


subsection \<open>Rounding error, and amounts of cents stay apart\<close>

lemma double_of_frac_err:
  assumes "0 < n" "0 < d" "finite_double (double_of_frac False n d)"
  shows "\<bar>dval (double_of_frac False n d) - real n / real d\<bar> \<le> 2 powi exp_of n d / 2"
proof -
  let ?p = "(2::real) powi exp_of n d" and ?x = "real n / real d"
  have "of_int (rhe (?x / ?p)) * ?p - ?x = (of_int (rhe (?x / ?p)) - ?x / ?p) * ?p"
    by (simp add: left_diff_distrib)
  then have "\<bar>of_int (rhe (?x / ?p)) * ?p - ?x\<bar> = \<bar>of_int (rhe (?x / ?p)) - ?x / ?p\<bar> * ?p"
    by (simp add: abs_mult)
  also have "\<dots> \<le> 1 / 2 * ?p" by (intro mult_right_mono rhe_err) simp
  finally show ?thesis by (simp add: dval_of_frac [OF assms])
qed

lemma exp_of_small:
  assumes "0 < n" "0 < d" "real n / real d < 2 ^ 27"
  shows "exp_of n d \<le> - 26"
proof (rule ccontr)
  assume "\<not> exp_of n d \<le> - 26"
  then have "(2::real) powi 27 \<le> 2 powi (exp_of n d + 52)" "exp_of n d \<noteq> - 1074"
    by (intro powi_le, simp_all)
  with exp_of_spec(2) [OF assms(1,2)] assms(3) show False
    by (metis order_trans linorder_not_le power_int_numeral)
qed

lemma small_finite:
  assumes "0 < n" "0 < d" "real n / real d < 2 ^ 27"
  shows "finite_double (double_of_frac s n d)"
proof (rule round_pos_finite [OF assms(1,2)])
  have "(2::real) powi 27 \<le> 2 powi 1023" by (rule powi_le) simp
  with assms(3) show "real n / real d < 2 powi 1023" by (metis order_less_le_trans power_int_numeral)
qed

lemma double_of_frac_err_small:
  assumes "0 < d" "real n / real d < 2 ^ 27"
  shows "\<bar>dval (double_of_frac False n d) - real n / real d\<bar> \<le> 1 / 2 ^ 27"
proof (cases "n = 0")
  case False
  then have n: "0 < n" by simp
  have "(2::real) powi exp_of n d \<le> 2 powi (- 26)"
    by (rule powi_le [OF exp_of_small [OF n assms]])
  moreover have "(2::real) powi (- 26) = 1 / 2 ^ 26" by (simp add: power_int_def power_one_over)
  ultimately have "(2::real) powi exp_of n d / 2 \<le> 1 / 2 ^ 27" by simp
  with double_of_frac_err [OF n assms(1) small_finite [OF n assms]] show ?thesis by linarith
qed (simp add: dval_of_frac_zero)

lemma double_of_frac_separated:
  assumes "0 < d" "0 < d'" "real n / real d + 1 / 100 \<le> real n' / real d'"
    and "real n' / real d' < 2 ^ 27"
  shows "dval (double_of_frac False n d) < dval (double_of_frac False n' d')"
proof -
  have "real n / real d < 2 ^ 27" using assms(3,4) by linarith
  note E = double_of_frac_err_small [OF assms(1) this] double_of_frac_err_small [OF assms(2,4)]
  have "(1::real) / 2 ^ 27 < 1 / 200" by simp
  with E assms(3) show ?thesis by linarith
qed

lemma finite_of_frac_small [simp]:
  assumes "0 < d" "real n / real d < 2 ^ 27"
  shows "finite_double (double_of_frac s n d)"
  using assms small_finite [of n d s] by (cases "n = 0") (simp_all add: double_of_frac_def)

end
