(* ===== verification/Numtext.thy ===== *)
theory Numtext
  imports Floats
begin

text \<open>
  Text to number and number to text, the way the standard library does it for the source:
  \<open>utility::lexical_cast\<close> (extraction from a \<open>std::stringstream\<close> in the C locale) at the types
  \<open>int64_t\<close>, \<open>uint64_t\<close> and \<open>double\<close>, \<open>std::to_string\<close> (the formats \<open>%d\<close> and \<open>%f\<close>) and the
  format \<open>%.*g\<close> of the JSON writer.

  An extraction that finds no character at all (the stream holds white space only) leaves its
  variable as it was. In \<open>lexical_cast\<close> that variable is uninitialised, so the model
  takes the indeterminate value as the argument \<open>junk\<close>.
\<close>

subsection \<open>Integers\<close>

definition i64_min :: int where "i64_min = - (2 ^ 63)"
definition i64_max :: int where "i64_max = 2 ^ 63 - 1"
definition u64_max :: int where "u64_max = 2 ^ 64 - 1"

fun scan_sign :: "string \<Rightarrow> bool \<times> string" where
  "scan_sign [] = (False, [])"
| "scan_sign (c # cs) =
     (if c = CHR ''-'' then (True, cs) else if c = CHR ''+'' then (False, cs) else (False, c # cs))"

definition lexical_cast_i64 :: "int \<Rightarrow> string \<Rightarrow> int" where
  "lexical_cast_i64 junk s =
     (let t = dropWhile is_space s in
      if t = [] then junk
      else case scan_sign t of (neg, u) \<Rightarrow>
        let v = int (dec_val (takeWhile is_digit u))
        in max i64_min (min i64_max (if neg then - v else v)))"

text \<open>A negative field is read as its magnitude and negated modulo \<open>2 ^ 64\<close>.\<close>

definition lexical_cast_u64 :: "int \<Rightarrow> string \<Rightarrow> int" where
  "lexical_cast_u64 junk s =
     (let t = dropWhile is_space s in
      if t = [] then junk
      else case scan_sign t of (neg, u) \<Rightarrow>
        let v = int (dec_val (takeWhile is_digit u))
        in if u64_max < v then u64_max else if neg then (- v) mod 2 ^ 64 else v)"

subsection \<open>Doubles\<close>

definition decimal_double :: "bool \<Rightarrow> nat \<Rightarrow> int \<Rightarrow> double" where
  "decimal_double neg n k =
     (let r = (if 0 \<le> k then double_of_frac neg (n * 10 ^ nat k) 1
               else double_of_frac neg n (10 ^ nat (- k)))
      in if r = Inf neg then double_max neg else r)"

definition scan_exp :: "string \<Rightarrow> int option" where
  "scan_exp s =
     (case s of
        [] \<Rightarrow> Some 0
      | c # cs \<Rightarrow>
          if c = CHR ''e'' \<or> c = CHR ''E'' then
            (case scan_sign cs of (neg, u) \<Rightarrow>
               let ds = takeWhile is_digit u
               in if ds = [] then None else Some (if neg then - int (dec_val ds) else int (dec_val ds)))
          else Some 0)"

definition lexical_cast_double :: "double \<Rightarrow> string \<Rightarrow> double" where
  "lexical_cast_double junk s =
     (let t = dropWhile is_space s in
      if t = [] then junk
      else case scan_sign t of (neg, u) \<Rightarrow>
        let ip = takeWhile is_digit u;
            r = dropWhile is_digit u;
            dot = (r \<noteq> [] \<and> hd r = CHR ''.'');
            fp = (if dot then takeWhile is_digit (tl r) else []);
            r' = (if dot then dropWhile is_digit (tl r) else r)
        in if ip = [] \<and> fp = [] then double_zero
           else (case scan_exp r' of
                   None \<Rightarrow> double_zero
                 | Some ex \<Rightarrow> decimal_double neg (dec_val (ip @ fp)) (ex - int (length fp))))"

subsection \<open>Formatting\<close>

text \<open>Decimal digits padded with zeros to a width.\<close>

definition pad_digits :: "nat \<Rightarrow> nat \<Rightarrow> string" where
  "pad_digits w n = replicate (w - length (dec_digits n)) (CHR ''0'') @ dec_digits n"

text \<open>\<open>std::to_string(double)\<close>: the format \<open>%f\<close>, six decimals of the exact value.\<close>

definition frac_num :: "nat \<Rightarrow> int \<Rightarrow> nat" where
  "frac_num m e = m * 2 ^ nat e"

definition frac_den :: "int \<Rightarrow> nat" where
  "frac_den e = 2 ^ nat (- e)"

definition fixed6 :: "nat \<Rightarrow> nat \<Rightarrow> string" where
  "fixed6 n d = (let v = rne (n * 10 ^ 6) d
                 in dec_digits (v div 10 ^ 6) @ ''.'' @ pad_digits 6 (v mod 10 ^ 6))"

fun show_double :: "double \<Rightarrow> string" where
  "show_double (Fin s m e) = (if s then ''-'' else []) @ fixed6 (frac_num m e) (frac_den e)"
| "show_double (Inf s) = (if s then ''-inf'' else ''inf'')"
| "show_double NaN = ''nan''"

text \<open>
  The format \<open>%.*g\<close>: \<open>p\<close> significant digits, in the style \<open>%e\<close> when the decimal exponent is
  below \<open>-4\<close> or at least \<open>p\<close>, trailing zeros of the fraction removed.
\<close>

function log10_up :: "nat \<Rightarrow> nat \<Rightarrow> nat" where
  "log10_up n d = (if d = 0 \<or> n < 10 * d then 0 else Suc (log10_up n (10 * d)))"
  by pat_completeness auto
termination
  by (relation "measure (\<lambda>(n, d). n - d)") auto

function log10_down :: "nat \<Rightarrow> nat \<Rightarrow> nat" where
  "log10_down n d = (if n = 0 \<or> d \<le> n then 0 else Suc (log10_down (10 * n) d))"
  by pat_completeness auto
termination
  by (relation "measure (\<lambda>(n, d). d - n)") auto

declare log10_up.simps [simp del] log10_down.simps [simp del]

definition log10_floor :: "nat \<Rightarrow> nat \<Rightarrow> int" where
  "log10_floor n d = (if d \<le> n then int (log10_up n d) else - int (log10_down n d))"

definition strip_zeros :: "string \<Rightarrow> string" where
  "strip_zeros s = rev (dropWhile (\<lambda>c. c = CHR ''0'') (rev s))"

definition sig_digits :: "nat \<Rightarrow> nat \<Rightarrow> nat \<Rightarrow> nat \<times> int" where
  "sig_digits p n d =
     (let x = log10_floor n d; k = int p - 1 - x;
          v = rne (n * 10 ^ nat k) (d * 10 ^ nat (- k))
      in if v = 10 ^ p then (10 ^ (p - 1), x + 1) else (v, x))"

definition with_frac :: "string \<Rightarrow> string \<Rightarrow> string" where
  "with_frac ip fp = (if strip_zeros fp = [] then ip else ip @ ''.'' @ strip_zeros fp)"

definition show_exp :: "int \<Rightarrow> string" where
  "show_exp x = ''e'' @ (if x < 0 then ''-'' else ''+'') @ pad_digits 2 (nat \<bar>x\<bar>)"

fun format_g :: "nat \<Rightarrow> double \<Rightarrow> string" where
  "format_g p (Fin s m e) =
     (if s then ''-'' else []) @
     (if m = 0 then ''0''
      else case sig_digits p (frac_num m e) (frac_den e) of (v, x) \<Rightarrow>
        let ds = pad_digits p v in
        if x < - 4 \<or> int p \<le> x then with_frac (take 1 ds) (drop 1 ds) @ show_exp x
        else if x < 0 then with_frac ''0'' (replicate (nat (- x - 1)) (CHR ''0'') @ ds)
        else with_frac (take (nat x + 1) ds) (drop (nat x + 1) ds))"
| "format_g p (Inf s) = (if s then ''-inf'' else ''inf'')"
| "format_g p NaN = ''nan''"

subsection \<open>Facts\<close>

lemma takeWhile_digits [simp]: "takeWhile is_digit (dec_digits n) = dec_digits n"
  using dec_digits_digits by (simp add: takeWhile_eq_all_conv)

lemma takeWhile_digits_append:
  "(r = [] \<or> \<not> is_digit (hd r)) \<Longrightarrow> takeWhile is_digit (dec_digits n @ r) = dec_digits n"
  using dec_digits_digits by (cases r) (auto simp: takeWhile_append)

lemma dropWhile_digits_append:
  "(r = [] \<or> \<not> is_digit (hd r)) \<Longrightarrow> dropWhile is_digit (dec_digits n @ r) = r"
  using dec_digits_digits by (cases r) (auto simp: dropWhile_append)

lemma hd_dec_digits: "is_digit (hd (dec_digits n))"
  using dec_digits_digits dec_digits_nonempty hd_in_set by blast

lemma is_digit_not_space: "is_digit c \<Longrightarrow> \<not> is_space c"
  by (auto simp: is_digit_def is_space_def)

lemma is_digit_not_sign: "is_digit c \<Longrightarrow> c \<noteq> CHR ''-'' \<and> c \<noteq> CHR ''+''"
  by (auto simp: is_digit_def byte_def)

lemma scan_sign_digits: "s \<noteq> [] \<Longrightarrow> is_digit (hd s) \<Longrightarrow> scan_sign s = (False, s)"
  by (cases s) (auto dest: is_digit_not_sign)

lemma dropWhile_space_digits: "s \<noteq> [] \<Longrightarrow> is_digit (hd s) \<Longrightarrow> dropWhile is_space s = s"
  by (cases s) (auto dest: is_digit_not_space)

lemma lexical_cast_show_int:
  assumes "i64_min \<le> i" "i \<le> i64_max"
  shows "lexical_cast_i64 junk (show_int i) = i"
proof (cases "i < 0")
  case True
  have "\<not> is_space (CHR ''-'')" by (simp add: is_space_def byte_def)
  with True assms show ?thesis by (simp add: lexical_cast_i64_def show_int_def Let_def)
next
  case False
  let ?d = "dec_digits (nat i)"
  have d: "dropWhile is_space ?d = ?d" "scan_sign ?d = (False, ?d)"
    by (simp_all add: dropWhile_space_digits scan_sign_digits hd_dec_digits)
  from False assms show ?thesis by (simp add: lexical_cast_i64_def show_int_def Let_def d)
qed

lemma lexical_cast_u64_show:
  assumes "int n \<le> u64_max"
  shows "lexical_cast_u64 junk (dec_digits n) = int n"
proof -
  have d: "dropWhile is_space (dec_digits n) = dec_digits n" "scan_sign (dec_digits n) = (False, dec_digits n)"
    by (simp_all add: dropWhile_space_digits scan_sign_digits hd_dec_digits)
  from assms show ?thesis by (simp add: lexical_cast_u64_def Let_def d)
qed

lemma lexical_cast_i64_range:
  assumes "i64_min \<le> junk" "junk \<le> i64_max"
  shows "i64_min \<le> lexical_cast_i64 junk s \<and> lexical_cast_i64 junk s \<le> i64_max"
  using assms by (auto simp: lexical_cast_i64_def Let_def i64_min_def i64_max_def split: prod.split)

end
