(* ===== verification/JsonRead.thy ===== *)
theory JsonRead
  imports Numtext "HOL-Library.Multiset"
begin

text \<open>
  \<open>crow::json::rvalue\<close> and its parser (\<open>Crow/include/crow/json.h\<close>).

  The parser walks a NUL-terminated copy of the text with a pointer \<open>data\<close>. The model keeps the
  characters from \<open>data\<close> on: \<open>*data\<close> is \<open>peek\<close>, which reads the terminator at the end, and
  the definitions advance only over characters that are there. A value with its error bit set is
  \<open>RError\<close>. A string keeps its raw text and the flag the parser leaves before its
  first character: whether the text still holds escapes.

  The five mutually recursive parsing functions take fuel. \<open>load_terminates\<close> shows
  that the fuel \<open>load\<close> supplies is always enough.
\<close>

subsection \<open>Values\<close>

datatype rvalue =
    RError
  | RNull
  | RFalse
  | RTrue
  | RNumber string
  | RString string bool
  | RList "rvalue list"
  | RObject "(string \<times> rvalue) list"

datatype json_type = TNull | TFalse | TTrue | TNumber | TString | TList | TObject | TFunction

fun get_type_str :: "json_type \<Rightarrow> string" where
  "get_type_str TNumber = ''Number''"
| "get_type_str TFalse = ''False''"
| "get_type_str TTrue = ''True''"
| "get_type_str TList = ''List''"
| "get_type_str TString = ''String''"
| "get_type_str TObject = ''Object''"
| "get_type_str TFunction = ''Function''"
| "get_type_str TNull = ''Unknown''"

subsection \<open>Scanning\<close>

fun peek :: "string \<Rightarrow> char" where
  "peek [] = nul"
| "peek (c # cs) = c"

definition is_json_ws :: "char \<Rightarrow> bool" where
  "is_json_ws c \<longleftrightarrow> c = CHR '' '' \<or> c = CHR 0x09 \<or> c = CHR 0x0D \<or> c = CHR 0x0A"

definition ws_skip :: "string \<Rightarrow> string" where
  "ws_skip s = dropWhile is_json_ws s"

definition is_hex :: "char \<Rightarrow> bool" where
  "is_hex c \<longleftrightarrow> is_digit c \<or> (97 \<le> byte c \<and> byte c \<le> 102) \<or> (65 \<le> byte c \<and> byte c \<le> 70)"

text \<open>
  The loop of \<open>decode_string\<close>: the raw text up to the closing quote, whether it holds an
  escape, and the characters after the quote.
\<close>

fun string_loop :: "string \<Rightarrow> (string \<times> bool \<times> string) option" where
  "string_loop [] = None"
| "string_loop (c # cs) =
     (if c \<noteq> CHR 0x22 \<and> c \<noteq> CHR 0x5C \<and> c \<noteq> nul then
        (case string_loop cs of None \<Rightarrow> None | Some (raw, esc, rest) \<Rightarrow> Some (c # raw, esc, rest))
      else if c = CHR 0x22 then Some ([], False, cs)
      else if c = CHR 0x5C then
        (case cs of
           [] \<Rightarrow> None
         | e # r \<Rightarrow>
             if e = CHR ''u'' then
               (case r of
                  h1 # h2 # h3 # h4 # r' \<Rightarrow>
                    if is_hex h1 \<and> is_hex h2 \<and> is_hex h3 \<and> is_hex h4 then
                      (case string_loop r' of
                         None \<Rightarrow> None
                       | Some (raw, esc, rest) \<Rightarrow> Some (c # e # h1 # h2 # h3 # h4 # raw, True, rest))
                    else None
                | _ \<Rightarrow> None)
             else if e \<in> set [CHR 0x22, CHR 0x5C, CHR ''/'', CHR ''b'', CHR ''f'', CHR ''n'', CHR ''r'', CHR ''t''] then
               (case string_loop r of None \<Rightarrow> None | Some (raw, esc, rest) \<Rightarrow> Some (c # e # raw, True, rest))
             else None)
      else None)"

datatype 'a pres = Out | Bad | Ok 'a string

definition decode_string :: "string \<Rightarrow> rvalue pres" where
  "decode_string s =
     (if peek s \<noteq> CHR 0x22 then Bad
      else case string_loop (tl s) of
             None \<Rightarrow> Bad
           | Some (raw, esc, rest) \<Rightarrow> Ok (RString raw esc) rest)"

subsection \<open>Numbers\<close>

datatype num_state =
  Minus | AfterMinus | ZeroFirst | Digits | DigitsAfterPoints | ExpE | DigitsAfterE | Invalid

fun state_index :: "num_state \<Rightarrow> nat" where
  "state_index Minus = 0"
| "state_index AfterMinus = 1"
| "state_index ZeroFirst = 2"
| "state_index Digits = 3"
| "state_index DigitsAfterPoints = 4"
| "state_index ExpE = 5"
| "state_index DigitsAfterE = 6"
| "state_index Invalid = 7"

definition num_states :: "num_state list" where
  "num_states = [Minus, AfterMinus, ZeroFirst, Digits, DigitsAfterPoints, ExpE, DigitsAfterE, Invalid]"

text \<open>The transition tables, the octal escapes of the string literals of the source.\<close>

definition num_table :: "nat list \<Rightarrow> num_state \<Rightarrow> num_state" where
  "num_table t st = num_states ! (t ! state_index st)"

definition num_step :: "char \<Rightarrow> num_state \<Rightarrow> num_state option" where
  "num_step c st =
     (if c = CHR ''0'' then Some (num_table [2, 2, 7, 3, 4, 6, 6] st)
      else if is_digit c then Some (num_table [3, 3, 7, 3, 4, 6, 6] st)
      else if c = CHR ''.'' then Some (num_table [7, 7, 4, 4, 7, 7, 7] st)
      else if c = CHR ''-'' then Some (num_table [1, 7, 7, 7, 7, 6, 7] st)
      else if c = CHR ''+'' then Some (num_table [7, 7, 7, 7, 7, 6, 7] st)
      else if c = CHR ''e'' \<or> c = CHR ''E'' then Some (num_table [7, 7, 7, 5, 5, 7, 7] st)
      else None)"

definition num_accepts :: "num_state \<Rightarrow> bool" where
  "num_accepts st \<longleftrightarrow> st = ZeroFirst \<or> st = Digits \<or> st = DigitsAfterPoints \<or> st = DigitsAfterE"

function number_loop :: "num_state \<Rightarrow> string \<Rightarrow> (string \<times> string) option" where
  "number_loop st s =
     (if st = Invalid then None
      else case s of
        [] \<Rightarrow> if num_accepts st then Some ([], []) else None
      | c # cs \<Rightarrow>
          (case num_step c st of
             None \<Rightarrow> if num_accepts st then Some ([], c # cs) else None
           | Some st' \<Rightarrow>
               let skipped = (if c \<noteq> CHR ''0'' \<and> is_digit c then takeWhile is_digit cs else []);
                   rest = (if c \<noteq> CHR ''0'' \<and> is_digit c then dropWhile is_digit cs else cs)
               in (case number_loop st' rest of
                     None \<Rightarrow> None
                   | Some (txt, r) \<Rightarrow> Some (c # skipped @ txt, r))))"
  by pat_completeness auto
termination
  by (relation "measure (\<lambda>(st, s). length s)") (auto simp: le_imp_less_Suc length_dropWhile_le)

declare number_loop.simps [simp del]

definition decode_number :: "string \<Rightarrow> rvalue pres" where
  "decode_number s =
     (case number_loop Minus s of None \<Rightarrow> Bad | Some (txt, rest) \<Rightarrow> Ok (RNumber txt) rest)"

subsection \<open>Values, lists and objects\<close>

definition max_depth :: nat where "max_depth = 10000"

definition pbind :: "'a pres \<Rightarrow> ('a \<Rightarrow> string \<Rightarrow> 'b pres) \<Rightarrow> 'b pres" where
  "pbind m f = (case m of Out \<Rightarrow> Out | Bad \<Rightarrow> Bad | Ok x r \<Rightarrow> f x r)"

definition expect :: "char \<Rightarrow> string \<Rightarrow> (string \<Rightarrow> 'a pres) \<Rightarrow> 'a pres" where
  "expect c s f = (if peek s \<noteq> c then Bad else f (tl s))"

definition literal :: "string \<Rightarrow> rvalue \<Rightarrow> string \<Rightarrow> rvalue pres" where
  "literal w v s = (if take (length w) s = w then Ok v (drop (length w) s) else Bad)"

text \<open>
  \<open>rvalue::unescape\<close>. A backslash is always followed by an escape the parser has checked, so
  the equations for a cut-off escape are never reached from parsed text.
\<close>

definition from_hex :: "char \<Rightarrow> nat" where
  "from_hex c = (if 97 \<le> byte c then byte c - 97 + 10
                 else if 65 \<le> byte c then byte c - 65 + 10 else byte c - 48)"

definition utf8_unit :: "nat \<Rightarrow> string" where
  "utf8_unit code =
     (if 0x800 \<le> code then
        [chr (0xE0 OR drop_bit 12 code), chr (0x80 OR (drop_bit 6 code AND 0x3F)), chr (0x80 OR (code AND 0x3F))]
      else if 0x80 \<le> code then
        [chr (0xC0 OR drop_bit 6 code), chr (0x80 OR (code AND 0x3F))]
      else [chr code])"

definition hex_code :: "char \<Rightarrow> char \<Rightarrow> char \<Rightarrow> char \<Rightarrow> nat" where
  "hex_code h1 h2 h3 h4 =
     push_bit 12 (from_hex h1) + push_bit 8 (from_hex h2) + push_bit 4 (from_hex h3) + from_hex h4"

definition simple_escape :: "char \<Rightarrow> string" where
  "simple_escape e =
     (if e = CHR 0x22 then [CHR 0x22] else if e = CHR 0x5C then [CHR 0x5C]
      else if e = CHR ''/'' then ''/'' else if e = CHR ''b'' then [CHR 0x08]
      else if e = CHR ''f'' then [CHR 0x0C] else if e = CHR ''n'' then [CHR 0x0A]
      else if e = CHR ''r'' then [CHR 0x0D] else if e = CHR ''t'' then [CHR 0x09] else [])"

fun unescape :: "string \<Rightarrow> string" where
  "unescape [] = []"
| "unescape (c # cs) =
     (if c = CHR 0x5C then
        (case cs of
           [] \<Rightarrow> []
         | e # r \<Rightarrow>
             if e = CHR ''u'' then
               (case r of
                  h1 # h2 # h3 # h4 # r' \<Rightarrow> utf8_unit (hex_code h1 h2 h3 h4) @ unescape r'
                | _ \<Rightarrow> [])
             else simple_escape e @ unescape r)
      else c # unescape cs)"

definition string_value :: "string \<Rightarrow> bool \<Rightarrow> string" where
  "string_value raw esc = (if esc then unescape raw else raw)"

definition key_of :: "rvalue \<Rightarrow> string" where
  "key_of v = (case v of RString raw esc \<Rightarrow> string_value raw esc | _ \<Rightarrow> [])"

function decode_value :: "nat \<Rightarrow> nat \<Rightarrow> string \<Rightarrow> rvalue pres"
  and decode_list :: "nat \<Rightarrow> nat \<Rightarrow> string \<Rightarrow> rvalue pres"
  and list_loop :: "nat \<Rightarrow> nat \<Rightarrow> string \<Rightarrow> rvalue list pres"
  and decode_object :: "nat \<Rightarrow> nat \<Rightarrow> string \<Rightarrow> rvalue pres"
  and object_loop :: "nat \<Rightarrow> nat \<Rightarrow> string \<Rightarrow> (string \<times> rvalue) list pres"
where
  "decode_value 0 depth s = Out"
| "decode_value (Suc n) depth s =
     (if peek s = CHR ''['' then decode_list n (depth + 1) s
      else if peek s = CHR ''{'' then decode_object n (depth + 1) s
      else if peek s = CHR 0x22 then decode_string s
      else if peek s = CHR ''t'' then literal ''true'' RTrue s
      else if peek s = CHR ''f'' then literal ''false'' RFalse s
      else if peek s = CHR ''n'' then literal ''null'' RNull s
      else decode_number s)"
| "decode_list 0 depth s = Out"
| "decode_list (Suc n) depth s =
     expect (CHR ''['') s (\<lambda>s1.
       if max_depth < depth then Bad
       else if peek (ws_skip s1) = CHR '']'' then Ok (RList []) (tl (ws_skip s1))
       else pbind (list_loop n depth (ws_skip s1)) (\<lambda>vs r. Ok (RList vs) r))"
| "list_loop 0 depth s = Out"
| "list_loop (Suc n) depth s =
     pbind (decode_value n (depth + 1) s) (\<lambda>v s1.
       if peek (ws_skip s1) = CHR '']'' then Ok [v] (tl (ws_skip s1))
       else expect (CHR '','') (ws_skip s1) (\<lambda>s2.
         pbind (list_loop n depth (ws_skip s2)) (\<lambda>vs r. Ok (v # vs) r)))"
| "decode_object 0 depth s = Out"
| "decode_object (Suc n) depth s =
     expect (CHR ''{'') s (\<lambda>s1.
       if max_depth < depth then Bad
       else if peek (ws_skip s1) = CHR ''}'' then Ok (RObject []) (tl (ws_skip s1))
       else pbind (object_loop n depth (ws_skip s1)) (\<lambda>kvs r. Ok (RObject kvs) r))"
| "object_loop 0 depth s = Out"
| "object_loop (Suc n) depth s =
     pbind (decode_string s) (\<lambda>t s1.
       expect (CHR '':'') (ws_skip s1) (\<lambda>s2.
         pbind (decode_value n (depth + 1) (ws_skip s2)) (\<lambda>v s3.
           if peek (ws_skip s3) = CHR ''}'' then Ok [(key_of t, v)] (tl (ws_skip s3))
           else expect (CHR '','') (ws_skip s3) (\<lambda>s4.
             pbind (object_loop n depth (ws_skip s4)) (\<lambda>kvs r. Ok ((key_of t, v) # kvs) r)))))"
  by pat_completeness auto
termination
  by (relation "measure (case_sum (case_sum fst fst) (case_sum fst (case_sum fst fst)))") simp_all

definition parse_fuel :: "string \<Rightarrow> nat" where
  "parse_fuel s = 3 * length s + 1"

text \<open>\<open>Parser::parse\<close>: one value, then white space, then the terminator.\<close>

definition parse_with :: "nat \<Rightarrow> string \<Rightarrow> rvalue option" where
  "parse_with n s =
     (case decode_value n 0 (ws_skip s) of
        Out \<Rightarrow> None
      | Bad \<Rightarrow> Some RError
      | Ok v r \<Rightarrow> Some (if peek (ws_skip r) \<noteq> nul then RError else v))"

definition load :: "string \<Rightarrow> rvalue" where
  "load s = (case parse_with (parse_fuel s) s of None \<Rightarrow> RError | Some v \<Rightarrow> v)"

subsection \<open>Reading a value\<close>

text \<open>\<open>rvalue::operator bool\<close>\<close>

definition rv_ok :: "rvalue \<Rightarrow> bool" where
  "rv_ok v \<longleftrightarrow> v \<noteq> RError"

fun rv_t :: "rvalue \<Rightarrow> json_type res" where
  "rv_t RError = Inl ''invalid json object''"
| "rv_t RNull = Inr TNull"
| "rv_t RFalse = Inr TFalse"
| "rv_t RTrue = Inr TTrue"
| "rv_t (RNumber _) = Inr TNumber"
| "rv_t (RString _ _) = Inr TString"
| "rv_t (RList _) = Inr TList"
| "rv_t (RObject _) = Inr TObject"

datatype num_type = NSigned | NUnsigned | NFloating | NNull | NDouble

text \<open>\<open>determine_num_type\<close> looks only for the characters that tell the kinds apart.\<close>

definition determine_num_type :: "string \<Rightarrow> num_type" where
  "determine_num_type txt =
     (if CHR ''.'' \<in> set txt \<or> CHR ''e'' \<in> set txt \<or> CHR ''E'' \<in> set txt then NFloating
      else if CHR ''-'' \<in> set txt then NSigned else NUnsigned)"

fun rv_nt :: "rvalue \<Rightarrow> num_type res" where
  "rv_nt RError = Inl ''invalid json object''"
| "rv_nt (RNumber txt) = Inr (determine_num_type txt)"
| "rv_nt _ = Inr NNull"

text \<open>The characters from \<open>start_\<close> to \<open>end_\<close> of a number or string as they are in the buffer.\<close>

fun rv_i :: "int \<Rightarrow> rvalue \<Rightarrow> int res" where
  "rv_i junk (RNumber txt) = Inr (lexical_cast_i64 junk txt)"
| "rv_i junk (RString raw esc) = Inr (lexical_cast_i64 junk raw)"
| "rv_i junk v = bind_res (rv_t v) (\<lambda>t. Inl (''expected number, got: '' @ get_type_str t))"

fun rv_u :: "int \<Rightarrow> rvalue \<Rightarrow> int res" where
  "rv_u junk (RNumber txt) = Inr (lexical_cast_u64 junk txt)"
| "rv_u junk (RString raw esc) = Inr (lexical_cast_u64 junk raw)"
| "rv_u junk v = bind_res (rv_t v) (\<lambda>t. Inl (''expected number, got: '' @ get_type_str t))"

fun rv_d :: "double \<Rightarrow> rvalue \<Rightarrow> double res" where
  "rv_d junk (RNumber txt) = Inr (lexical_cast_double junk txt)"
| "rv_d junk v = bind_res (rv_t v) (\<lambda>_. Inl ''value is not number'')"

fun rv_b :: "rvalue \<Rightarrow> bool res" where
  "rv_b RTrue = Inr True"
| "rv_b RFalse = Inr False"
| "rv_b v = bind_res (rv_t v) (\<lambda>_. Inl ''value is not boolean'')"

text \<open>\<open>s()\<close> unescapes in place: afterwards the flag is clear and the text is the value.\<close>

fun rv_unescaped :: "rvalue \<Rightarrow> rvalue" where
  "rv_unescaped (RString raw esc) = RString (string_value raw esc) False"
| "rv_unescaped v = v"

fun rv_s :: "rvalue \<Rightarrow> string res" where
  "rv_s (RString raw esc) = Inr (string_value raw esc)"
| "rv_s v = bind_res (rv_t v) (\<lambda>_. Inl ''value is not string'')"

definition char_key :: "string \<Rightarrow> int list" where
  "char_key s = map schar s"

text \<open>
  \<open>operator[]\<close> and \<open>has\<close> sort the members by key on first use and search with
  \<open>std::lower_bound\<close>. \<open>std::sort\<close> is not stable: it returns some sorted permutation, which is
  determined when the keys are distinct. \<open>sort_members\<close> is one of them; the lemma
  \<open>find_in_sorted\<close> below holds for each.
\<close>

definition sort_members :: "(string \<times> 'v) list \<Rightarrow> (string \<times> 'v) list" where
  "sort_members kvs = sort_key (\<lambda>kv. char_key (fst kv)) kvs"

definition lower_bound :: "string \<Rightarrow> (string \<times> 'v) list \<Rightarrow> (string \<times> 'v) list" where
  "lower_bound k kvs = dropWhile (\<lambda>kv. char_key (fst kv) < char_key k) kvs"

definition find_sorted :: "string \<Rightarrow> (string \<times> 'v) list \<Rightarrow> 'v option" where
  "find_sorted k kvs =
     (case lower_bound k kvs of [] \<Rightarrow> None | (k', v) # _ \<Rightarrow> if k' = k then Some v else None)"

fun rv_get :: "rvalue \<Rightarrow> string \<Rightarrow> rvalue res" where
  "rv_get (RObject kvs) k =
     (case find_sorted k (sort_members kvs) of
        None \<Rightarrow> Inl (''cannot find key: '' @ k)
      | Some v \<Rightarrow> Inr v)"
| "rv_get v k = bind_res (rv_t v) (\<lambda>_. Inl ''value is not an object'')"

fun rv_has :: "rvalue \<Rightarrow> string \<Rightarrow> bool res" where
  "rv_has (RObject kvs) k = Inr (find_sorted k (sort_members kvs) \<noteq> None)"
| "rv_has (RList vs) k = Inr (find_sorted k (sort_members (map (Pair []) vs)) \<noteq> None)"
| "rv_has v k = bind_res (rv_t v) (\<lambda>_. Inl ''value is not a container'')"

fun rv_index :: "rvalue \<Rightarrow> int \<Rightarrow> rvalue res" where
  "rv_index (RList vs) i =
     (if int (length vs) \<le> i \<or> i < 0 then Inl ''list out of bound'' else Inr (vs ! nat i))"
| "rv_index v i = bind_res (rv_t v) (\<lambda>_. Inl ''value is not a list'')"

fun rv_size :: "rvalue \<Rightarrow> nat res" where
  "rv_size (RString raw esc) = Inr (length (string_value raw esc))"
| "rv_size (RList vs) = Inr (length vs)"
| "rv_size (RObject kvs) = Inr (length kvs)"
| "rv_size v = bind_res (rv_t v) (\<lambda>_. Inl ''value is not a container'')"

fun rv_lo :: "rvalue \<Rightarrow> rvalue list res" where
  "rv_lo (RList vs) = Inr vs"
| "rv_lo (RObject kvs) = Inr (map snd kvs)"
| "rv_lo v = bind_res (rv_t v) (\<lambda>_. Inl ''value is not a container'')"

fun rv_keys :: "rvalue \<Rightarrow> string list res" where
  "rv_keys (RObject kvs) = Inr (map fst kvs)"
| "rv_keys v = bind_res (rv_t v) (\<lambda>_. Inl ''value is not an object'')"

fun rv_to_string :: "rvalue \<Rightarrow> string res" where
  "rv_to_string (RString raw esc) = Inr (string_value raw esc)"
| "rv_to_string RNull = Inr ''null''"
| "rv_to_string RTrue = Inr ''true''"
| "rv_to_string RFalse = Inr ''false''"
| "rv_to_string (RNumber txt) = Inr txt"
| "rv_to_string RError = Inl ''invalid json object''"
| "rv_to_string v = Inl ''json type container''"

subsection \<open>The parser consumes its input\<close>

lemma pbind_Ok [simp]: "pbind m f = Ok x r \<longleftrightarrow> (\<exists>y s. m = Ok y s \<and> f y s = Ok x r)"
  by (cases m) (auto simp: pbind_def)

lemma pbind_simps [simp]: "pbind Out f = Out" "pbind Bad f = Bad" "pbind (Ok y s) f = f y s"
  by (simp_all add: pbind_def)

lemma pbind_Out [simp]: "pbind m f = Out \<longleftrightarrow> m = Out \<or> (\<exists>y s. m = Ok y s \<and> f y s = Out)"
  by (cases m) (auto simp: pbind_def)

lemma expect_Ok: "expect c s f = Ok x r \<longleftrightarrow> peek s = c \<and> f (tl s) = Ok x r"
  by (simp add: expect_def)

lemma expect_Out: "expect c s f = Out \<longleftrightarrow> peek s = c \<and> f (tl s) = Out"
  by (simp add: expect_def)

lemma length_ws_skip: "length (ws_skip s) \<le> length s"
  by (simp add: ws_skip_def length_dropWhile_le)

lemma peek_length: "peek s = c \<Longrightarrow> c \<noteq> nul \<Longrightarrow> length (tl s) < length s"
  by (cases s) auto

lemma string_loop_shorter: "string_loop s = Some (raw, esc, rest) \<Longrightarrow> length rest < length s"
proof (induction s arbitrary: raw esc rest rule: measure_induct_rule [where f = length])
  case (less s)
  note IH = less.IH [rotated]
  from less.prems show ?case
    by (cases s) (auto split: if_splits option.splits list.splits dest!: IH)
qed

lemma decode_string_shorter: "decode_string s = Ok v r \<Longrightarrow> length r < length s"
  by (cases s) (auto simp: decode_string_def split: if_splits option.splits dest: string_loop_shorter)

lemma number_loop_shorter:
  "number_loop st s = Some (tx, r) \<Longrightarrow> length r \<le> length s \<and> (\<not> num_accepts st \<longrightarrow> length r < length s)"
proof (induction st s arbitrary: tx r rule: number_loop.induct)
  case (1 st s)
  show ?case
  proof (cases s)
    case Nil
    with "1.prems" show ?thesis by (auto simp: number_loop.simps [of st "[]"] split: if_splits)
  next
    case (Cons c cs)
    show ?thesis
    proof (cases "num_step c st")
      case None
      with Cons "1.prems" show ?thesis by (auto simp: number_loop.simps [of st "c # cs"] split: if_splits)
    next
      case (Some st')
      let ?rest = "if c \<noteq> CHR ''0'' \<and> is_digit c then dropWhile is_digit cs else cs"
      from "1.prems" Cons Some obtain tx' where nl: "number_loop st' ?rest = Some (tx', r)"
        and st: "st \<noteq> Invalid"
        by (auto simp: number_loop.simps [of st "c # cs"] Let_def split: if_splits option.splits)
      have "length r \<le> length ?rest"
        using "1.IH" [OF st Cons Some refl refl nl] by blast
      also have "\<dots> \<le> length cs" by (simp add: length_dropWhile_le)
      finally show ?thesis using Cons by simp
    qed
  qed
qed

lemma decode_number_shorter: "decode_number s = Ok v r \<Longrightarrow> length r < length s"
  by (auto simp: decode_number_def num_accepts_def split: option.splits dest: number_loop_shorter)

lemma literal_shorter: "literal w v s = Ok x r \<Longrightarrow> w \<noteq> [] \<Longrightarrow> length r < length s"
  by (cases s) (auto simp: literal_def split: if_splits)

lemma decode_shorter:
  "decode_value n d s = Ok v r \<Longrightarrow> length r < length s"
  "decode_list n d s = Ok v r \<Longrightarrow> length r < length s"
  "list_loop n d s = Ok vs r \<Longrightarrow> length r < length s"
  "decode_object n d s = Ok v r \<Longrightarrow> length r < length s"
  "object_loop n d s = Ok kvs r \<Longrightarrow> length r < length s"
proof (induction n d s and n d s and n d s and n d s and n d s
    arbitrary: v r and v r and vs r and v r and kvs r
    rule: decode_value_decode_list_list_loop_decode_object_object_loop.induct)
  case (2 n depth s)
  then show ?case
    by (auto split: if_splits dest: decode_string_shorter literal_shorter decode_number_shorter)
next
  case (4 n depth s)
  have "length (tl s) < length s" using "4.prems" by (auto simp: expect_Ok dest: peek_length)
  with 4 length_ws_skip [of "tl s"] show ?case
    by (fastforce simp: expect_Ok split: if_splits)
next
  case (6 n depth s)
  from "6.prems" obtain w s1 where v: "decode_value n (depth + 1) s = Ok w s1" by auto
  note A = "6.IH"(1) [OF v] length_ws_skip [of s1] length_tl [of "ws_skip s1"] length_ws_skip [of "tl (ws_skip s1)"]
  show ?case
  proof (cases "peek (ws_skip s1) = CHR '']''")
    case True
    with "6.prems" v A show ?thesis by auto
  next
    case False
    with "6.prems" v obtain vs' where
      l: "list_loop n depth (ws_skip (tl (ws_skip s1))) = Ok vs' r"
      by (auto simp: expect_Ok)
    from "6.IH"(2) [OF False l] A show ?thesis by linarith
  qed
next
  case (8 n depth s)
  have "length (tl s) < length s" using "8.prems" by (auto simp: expect_Ok dest: peek_length)
  with 8 length_ws_skip [of "tl s"] show ?case
    by (fastforce simp: expect_Ok split: if_splits)
next
  case (10 n depth s)
  from "10.prems" obtain t s1 w s3 where t: "decode_string s = Ok t s1"
    and v: "decode_value n (depth + 1) (ws_skip (tl (ws_skip s1))) = Ok w s3"
    by (auto simp: expect_Ok)
  note A = decode_string_shorter [OF t] length_ws_skip [of s1] length_tl [of "ws_skip s1"]
    length_ws_skip [of "tl (ws_skip s1)"] length_ws_skip [of s3] length_tl [of "ws_skip s3"]
    length_ws_skip [of "tl (ws_skip s3)"]
  have B: "length s3 < length (ws_skip (tl (ws_skip s1)))"
    using "10.IH"(1) t v by blast
  show ?case
  proof (cases "peek (ws_skip s3) = CHR ''}''")
    case True
    with "10.prems" t v A B show ?thesis by (auto simp: expect_Ok)
  next
    case False
    with "10.prems" t v obtain kvs' where
      l: "object_loop n depth (ws_skip (tl (ws_skip s3))) = Ok kvs' r"
      by (auto simp: expect_Ok)
    from "10.IH"(2) [OF False l] A B show ?thesis by linarith
  qed
qed simp_all

subsection \<open>The fuel is enough\<close>

lemma decode_string_not_Out [simp]: "decode_string s \<noteq> Out"
  by (auto simp: decode_string_def split: option.splits)

lemma decode_number_not_Out [simp]: "decode_number s \<noteq> Out"
  by (auto simp: decode_number_def split: option.splits)

lemma literal_not_Out [simp]: "literal w v s \<noteq> Out"
  by (simp add: literal_def)

lemma fuel_enough:
  "3 * length s + 1 \<le> n \<Longrightarrow> decode_value n d s \<noteq> Out"
  "3 * length s \<le> n \<Longrightarrow> s \<noteq> [] \<Longrightarrow> decode_list n d s \<noteq> Out"
  "3 * length s + 2 \<le> n \<Longrightarrow> list_loop n d s \<noteq> Out"
  "3 * length s \<le> n \<Longrightarrow> s \<noteq> [] \<Longrightarrow> decode_object n d s \<noteq> Out"
  "3 * length s + 2 \<le> n \<Longrightarrow> object_loop n d s \<noteq> Out"
proof (induction n d s and n d s and n d s and n d s and n d s
    rule: decode_value_decode_list_list_loop_decode_object_object_loop.induct)
  case (2 n depth s)
  then show ?case by (cases s) auto
next
  case (4 n depth s)
  have "length (tl s) < length s" using "4.prems" by (cases s) auto
  then have "3 * length (ws_skip (tl s)) + 2 \<le> n"
    using "4.prems" length_ws_skip [of "tl s"] by linarith
  with "4.IH" show ?case by (auto simp: expect_Out)
next
  case (6 n depth s)
  have "decode_value n (depth + 1) s \<noteq> Out" using "6.IH"(1) "6.prems" by simp
  moreover have "list_loop n depth (ws_skip (tl (ws_skip s1))) \<noteq> Out"
    if v: "decode_value n (depth + 1) s = Ok w s1" and p: "peek (ws_skip s1) = CHR '',''" for w s1
  proof -
    have "length (tl (ws_skip s1)) < length (ws_skip s1)" using p by (auto dest: peek_length)
    with decode_shorter(1) [OF v] length_ws_skip [of s1] length_ws_skip [of "tl (ws_skip s1)"] "6.prems"
    have "3 * length (ws_skip (tl (ws_skip s1))) + 2 \<le> n" by linarith
    with "6.IH"(2) [of s1 "tl (ws_skip s1)"] p show ?thesis by simp
  qed
  ultimately show ?case by (auto simp: expect_Out)
next
  case (8 n depth s)
  have "length (tl s) < length s" using "8.prems" by (cases s) auto
  then have "3 * length (ws_skip (tl s)) + 2 \<le> n"
    using "8.prems" length_ws_skip [of "tl s"] by linarith
  with "8.IH" show ?case by (auto simp: expect_Out)
next
  case (10 n depth s)
  have "decode_value n (depth + 1) (ws_skip (tl (ws_skip s1))) \<noteq> Out"
    and "\<And>w s3. decode_value n (depth + 1) (ws_skip (tl (ws_skip s1))) = Ok w s3 \<Longrightarrow>
      peek (ws_skip s3) = CHR '','' \<Longrightarrow> object_loop n depth (ws_skip (tl (ws_skip s3))) \<noteq> Out"
    if t: "decode_string s = Ok t s1" and p: "peek (ws_skip s1) = CHR '':''" for t s1
  proof -
    have "length (tl (ws_skip s1)) < length (ws_skip s1)" using p by (auto dest: peek_length)
    note A = this decode_string_shorter [OF t] length_ws_skip [of s1] length_ws_skip [of "tl (ws_skip s1)"]
    then have "3 * length (ws_skip (tl (ws_skip s1))) + 1 \<le> n" using "10.prems" by linarith
    with "10.IH"(1) show "decode_value n (depth + 1) (ws_skip (tl (ws_skip s1))) \<noteq> Out" by simp
    fix w s3
    assume v: "decode_value n (depth + 1) (ws_skip (tl (ws_skip s1))) = Ok w s3"
      and p': "peek (ws_skip s3) = CHR '',''"
    have "length (tl (ws_skip s3)) < length (ws_skip s3)" using p' by (auto dest: peek_length)
    with A decode_shorter(1) [OF v] length_ws_skip [of s3] length_ws_skip [of "tl (ws_skip s3)"] "10.prems"
    have "3 * length (ws_skip (tl (ws_skip s3))) + 2 \<le> n" by linarith
    with "10.IH"(2) [of s3 "tl (ws_skip s3)"] p' show "object_loop n depth (ws_skip (tl (ws_skip s3))) \<noteq> Out" by simp
  qed
  then show ?case by (auto simp: expect_Out)
qed auto

lemma parse_with_enough: "parse_fuel s \<le> n \<Longrightarrow> parse_with n s \<noteq> None"
  using fuel_enough(1) [of "ws_skip s" n 0] length_ws_skip [of s]
  by (auto simp: parse_with_def parse_fuel_def split: pres.splits)

subsection \<open>Finding a member\<close>

lemma char_key_eq_iff [simp]: "char_key s = char_key t \<longleftrightarrow> s = t"
  by (simp add: char_key_def inj_map_eq_map inj_def)

lemma find_sorted_map_of:
  "sorted (map (\<lambda>kv. char_key (fst kv)) kvs) \<Longrightarrow> find_sorted k kvs = map_of kvs k"
proof (induction kvs)
  case (Cons kv kvs)
  obtain k' v where kv: "kv = (k', v)" by force
  show ?case
  proof (cases "char_key k' < char_key k")
    case True
    with Cons kv show ?thesis by (auto simp: find_sorted_def lower_bound_def)
  next
    case False
    have "map_of kvs k = None" if "k' \<noteq> k"
    proof -
      have "char_key k < char_key k'" using False that by (metis char_key_eq_iff linorder_neqE)
      with Cons.prems kv have "\<forall>x \<in> set kvs. char_key k < char_key (fst x)" by fastforce
      then have "k \<notin> fst ` set kvs" by auto
      then show ?thesis by (simp add: map_of_eq_None_iff)
    qed
    with False kv show ?thesis by (simp add: find_sorted_def lower_bound_def)
  qed
qed (simp add: find_sorted_def lower_bound_def)

lemma find_in_sorted:
  assumes "mset ys = mset kvs" "sorted (map (\<lambda>kv. char_key (fst kv)) ys)"
  shows "(case find_sorted k ys of None \<Rightarrow> k \<notin> fst ` set kvs | Some v \<Rightarrow> (k, v) \<in> set kvs)
    \<and> (distinct (map fst kvs) \<longrightarrow> find_sorted k ys = map_of kvs k)"
proof -
  have set: "set ys = set kvs" by (metis assms(1) set_mset_mset)
  have "map_of ys = map_of kvs" if d: "distinct (map fst kvs)"
  proof -
    have "distinct (map fst ys)" using d assms(1) by (metis mset_map mset_eq_imp_distinct_iff)
    with d set show ?thesis by (simp add: map_of_inject_set)
  qed
  with assms(2) set show ?thesis
    by (auto simp: find_sorted_map_of map_of_eq_None_iff dest: map_of_SomeD split: option.split)
qed

text \<open>What the search needs of \<open>std::sort\<close>: some sorted permutation.\<close>

locale member_sort =
  fixes srt :: "(string \<times> 'v) list \<Rightarrow> (string \<times> 'v) list"
  assumes srt_mset: "mset (srt kvs) = mset kvs"
    and srt_sorted: "sorted (map (\<lambda>kv. char_key (fst kv)) (srt kvs))"
begin

lemma find_srt: "find_sorted k (srt kvs) = map_of (srt kvs) k"
  by (simp add: find_sorted_map_of srt_sorted)

end

interpretation ms: member_sort sort_members
  by unfold_locales (simp_all add: sort_members_def)

text \<open>The stable sort finds the first member of the text even among equal keys.\<close>

lemma map_of_filter_key: "map_of kvs k = map_of (filter (\<lambda>kv. fst kv = k) kvs) k"
  by (induction kvs) auto

lemma find_sort_members: "find_sorted k (sort_members kvs) = map_of kvs k"
proof -
  have "filter (\<lambda>kv. fst kv = k) (sort_members kvs) = filter (\<lambda>kv. fst kv = k) kvs"
    using sort_key_stable [of "\<lambda>kv. char_key (fst kv)" "char_key k" kvs]
    by (simp add: sort_members_def)
  then have "map_of (sort_members kvs) k = map_of kvs k"
    by (metis map_of_filter_key)
  then show ?thesis by (simp add: find_sorted_map_of ms.srt_sorted)
qed

lemma rv_get_object [simp]:
  "rv_get (RObject kvs) k =
     (case map_of kvs k of None \<Rightarrow> Inl (''cannot find key: '' @ k) | Some v \<Rightarrow> Inr v)"
  by (simp add: find_sort_members)

declare rv_get.simps(1) [simp del]

subsection \<open>Numbers of a loaded document\<close>

text \<open>A number in the buffer is never empty nor white space, so its value is never indeterminate.\<close>

fun numbers_ok :: "rvalue \<Rightarrow> bool" where
  "numbers_ok (RNumber t) = (t \<noteq> [] \<and> \<not> is_space (hd t))"
| "numbers_ok (RList vs) = (\<forall>v \<in> set vs. numbers_ok v)"
| "numbers_ok (RObject kvs) = (\<forall>kv \<in> set kvs. numbers_ok (snd kv))"
| "numbers_ok v = True"

lemma num_step_space: assumes "is_space c" shows "num_step c st = None"
proof -
  have "c \<noteq> x" if "\<not> is_space x" for x using assms that by blast
  then have "c \<noteq> CHR ''0''" "c \<noteq> CHR ''.''" "c \<noteq> CHR ''-''" "c \<noteq> CHR ''+''" "c \<noteq> CHR ''e''" "c \<noteq> CHR ''E''"
    by (simp_all add: is_space_def byte_def)
  moreover have "\<not> is_digit c" using assms by (auto simp: is_space_def is_digit_def)
  ultimately show ?thesis by (simp add: num_step_def)
qed

lemma num_step_not_space: "num_step c st = Some st' \<Longrightarrow> \<not> is_space c"
  using num_step_space by force

lemma decode_number_ok: "decode_number s = Ok v r \<Longrightarrow> numbers_ok v"
proof (cases s)
  case (Cons c cs)
  assume "decode_number s = Ok v r"
  with Cons show ?thesis
    by (auto simp: decode_number_def number_loop.simps [of Minus "c # cs"] num_accepts_def Let_def
        split: option.splits dest: num_step_not_space)
qed (simp add: decode_number_def number_loop.simps [of Minus "[]"] num_accepts_def)

lemma decode_string_ok: "decode_string s = Ok v r \<Longrightarrow> numbers_ok v"
  by (auto simp: decode_string_def split: if_splits option.splits)

lemma literal_ok: "literal w v s = Ok x r \<Longrightarrow> numbers_ok v \<Longrightarrow> numbers_ok x"
  by (auto simp: literal_def split: if_splits)

lemma decode_ok:
  "decode_value n d s = Ok v r \<Longrightarrow> numbers_ok v"
  "decode_list n d s = Ok v r \<Longrightarrow> numbers_ok v"
  "list_loop n d s = Ok vs r \<Longrightarrow> \<forall>v \<in> set vs. numbers_ok v"
  "decode_object n d s = Ok v r \<Longrightarrow> numbers_ok v"
  "object_loop n d s = Ok kvs r \<Longrightarrow> \<forall>kv \<in> set kvs. numbers_ok (snd kv)"
proof (induction n d s and n d s and n d s and n d s and n d s
    arbitrary: v r and v r and vs r and v r and kvs r
    rule: decode_value_decode_list_list_loop_decode_object_object_loop.induct)
  case (2 n depth s)
  then show ?case
    by (auto split: if_splits dest: decode_string_ok literal_ok decode_number_ok)
next
  case (4 n depth s)
  then show ?case by (auto simp: expect_Ok split: if_splits)
next
  case (6 n depth s)
  from "6.prems" obtain w s1 where v: "decode_value n (depth + 1) s = Ok w s1" by auto
  show ?case
  proof (cases "peek (ws_skip s1) = CHR '']''")
    case True
    with "6.prems" v "6.IH"(1) [OF v] show ?thesis by auto
  next
    case False
    with "6.prems" v obtain vs' where
      l: "list_loop n depth (ws_skip (tl (ws_skip s1))) = Ok vs' r" "vs = w # vs'"
      by (auto simp: expect_Ok)
    with "6.IH"(1) [OF v] "6.IH"(2) [OF False l(1)] show ?thesis by simp
  qed
next
  case (8 n depth s)
  then show ?case by (auto simp: expect_Ok split: if_splits)
next
  case (10 n depth s)
  from "10.prems" obtain t s1 w s3 where t: "decode_string s = Ok t s1"
    and v: "decode_value n (depth + 1) (ws_skip (tl (ws_skip s1))) = Ok w s3"
    by (auto simp: expect_Ok)
  have w: "numbers_ok w" using "10.IH"(1) t v by blast
  show ?case
  proof (cases "peek (ws_skip s3) = CHR ''}''")
    case True
    with "10.prems" t v w show ?thesis by (auto simp: expect_Ok)
  next
    case False
    with "10.prems" t v obtain kvs' where
      l: "object_loop n depth (ws_skip (tl (ws_skip s3))) = Ok kvs' r" "kvs = (key_of t, w) # kvs'"
      by (auto simp: expect_Ok)
    from "10.IH"(2) [OF False l(1)] l(2) w show ?thesis by simp
  qed
qed simp_all

lemma load_numbers_ok: "numbers_ok (load s)"
  by (auto simp: load_def parse_with_def split: option.split pres.split dest: decode_ok(1))

lemma rv_get_numbers_ok: "numbers_ok v \<Longrightarrow> rv_get v k = Inr w \<Longrightarrow> numbers_ok w"
  by (cases v) (auto split: option.splits dest!: map_of_SomeD)

lemma rv_d_determinate:
  assumes "numbers_ok v" shows "rv_d junk v = rv_d junk' v"
proof (cases v)
  case (RNumber t)
  with assms show ?thesis by (cases t) (simp_all add: lexical_cast_double_def Let_def)
qed simp_all

end
