(* ===== verification/JsonWrite.thy ===== *)
theory JsonWrite
  imports JsonRead
begin

text \<open>
  \<open>crow::json::wvalue\<close> (\<open>Crow/include/crow/json.h\<close>): building a value and printing it, and the
  round trip through \<open>load\<close>.

  An object is a \<open>std::unordered_map\<close>; the model is the list of its members in iteration order,
  with distinct keys. That order is the library's choice: every theorem is about all orders.
\<close>

subsection \<open>Escaping\<close>

text \<open>\<open>to_hex\<close> is only called with the quotient and remainder of a character below 0x20.\<close>

definition to_hex :: "nat \<Rightarrow> char" where
  "to_hex n = (let c = n AND 0xF in if c < 10 then chr (48 + c) else chr (97 + c - 10))"

definition escape_char :: "char \<Rightarrow> string" where
  "escape_char c =
     (if c = CHR 0x22 then [CHR 0x5C, CHR 0x22]
      else if c = CHR 0x5C then [CHR 0x5C, CHR 0x5C]
      else if c = CHR 0x0A then [CHR 0x5C, CHR ''n'']
      else if c = CHR 0x08 then [CHR 0x5C, CHR ''b'']
      else if c = CHR 0x0C then [CHR 0x5C, CHR ''f'']
      else if c = CHR 0x0D then [CHR 0x5C, CHR ''r'']
      else if c = CHR 0x09 then [CHR 0x5C, CHR ''t'']
      else if 0 \<le> schar c \<and> schar c < 0x20 then
        [CHR 0x5C, CHR ''u'', CHR ''0'', CHR ''0'', to_hex (byte c div 16), to_hex (byte c mod 16)]
      else [c])"

definition escape :: "string \<Rightarrow> string" where
  "escape s = concat (map escape_char s)"

subsection \<open>Values\<close>

datatype wvalue =
    WNull
  | WFalse
  | WTrue
  | WSigned int
  | WUnsigned nat
  | WFloat double
  | WDouble double
  | WString string
  | WList "wvalue list"
  | WObject "(string \<times> wvalue) list"
  | WFunction "string \<Rightarrow> string"

fun wv_t :: "wvalue \<Rightarrow> json_type" where
  "wv_t WNull = TNull"
| "wv_t WFalse = TFalse"
| "wv_t WTrue = TTrue"
| "wv_t (WSigned _) = TNumber"
| "wv_t (WUnsigned _) = TNumber"
| "wv_t (WFloat _) = TNumber"
| "wv_t (WDouble _) = TNumber"
| "wv_t (WString _) = TString"
| "wv_t (WList _) = TList"
| "wv_t (WObject _) = TObject"
| "wv_t (WFunction _) = TFunction"

text \<open>
  \<open>w[key] = v\<close>: a value that is not an object is reset to an empty one first. A new member's
  place in the iteration order is unspecified; the model puts it last.
\<close>

fun upd_member :: "string \<Rightarrow> wvalue \<Rightarrow> (string \<times> wvalue) list \<Rightarrow> (string \<times> wvalue) list" where
  "upd_member k v [] = [(k, v)]"
| "upd_member k v ((k', v') # kvs) = (if k' = k then (k', v) # kvs else (k', v') # upd_member k v kvs)"

definition wv_set :: "wvalue \<Rightarrow> string \<Rightarrow> wvalue \<Rightarrow> wvalue" where
  "wv_set w k v = (case w of WObject kvs \<Rightarrow> WObject (upd_member k v kvs) | _ \<Rightarrow> WObject [(k, v)])"

definition wv_lookup :: "wvalue \<Rightarrow> string \<Rightarrow> wvalue option" where
  "wv_lookup w k = (case w of WObject kvs \<Rightarrow> map_of kvs k | _ \<Rightarrow> None)"

fun wv_count :: "wvalue \<Rightarrow> string \<Rightarrow> nat" where
  "wv_count (WObject kvs) k = (if map_of kvs k = None then 0 else 1)"
| "wv_count w k = 0"

fun wv_keys :: "wvalue \<Rightarrow> string list" where
  "wv_keys (WObject kvs) = map fst kvs"
| "wv_keys w = []"

fun wv_size :: "wvalue \<Rightarrow> nat" where
  "wv_size (WList vs) = length vs"
| "wv_size w = 1"

text \<open>\<open>w[index]\<close>, as an lvalue: the list is grown with nulls up to the index.\<close>

definition wv_set_index :: "wvalue \<Rightarrow> nat \<Rightarrow> wvalue \<Rightarrow> wvalue" where
  "wv_set_index w i v =
     (let vs = (case w of WList vs \<Rightarrow> vs | _ \<Rightarrow> [])
      in WList ((vs @ replicate (Suc i - length vs) WNull)[i := v]))"

subsection \<open>Printing\<close>

definition decimal_dig :: nat where "decimal_dig = 21"

text \<open>
  The scan of \<open>dump_internal\<close> over the printed text of a floating-point number, which cuts the
  text at the first of its trailing zeros. \<open>keep\<close> is the text before the recorded position,
  once one is recorded.
\<close>

datatype float_state = FStart | FDecp | FZero

fun trim_loop :: "float_state \<Rightarrow> string \<Rightarrow> string option \<Rightarrow> string \<Rightarrow> string" where
  "trim_loop st seen keep [] = (case keep of None \<Rightarrow> seen | Some k \<Rightarrow> k)"
| "trim_loop FStart seen keep (c # cs) =
     (if c = CHR ''.'' then
        (case cs of
           d # ds \<Rightarrow> if d = CHR ''0'' then trim_loop FDecp (seen @ [c, d]) keep ds
                     else trim_loop FDecp (seen @ [c]) keep cs
         | [] \<Rightarrow> trim_loop FDecp (seen @ [c]) keep cs)
      else trim_loop FStart (seen @ [c]) keep cs)"
| "trim_loop FDecp seen keep (c # cs) =
     (if c = CHR ''0'' then trim_loop FZero (seen @ [c]) (Some seen) cs
      else trim_loop FDecp (seen @ [c]) keep cs)"
| "trim_loop FZero seen keep (c # cs) =
     (if c \<noteq> CHR ''0'' then trim_loop FDecp (seen @ [c]) None cs
      else trim_loop FZero (seen @ [c]) keep cs)"

definition trim_float :: "string \<Rightarrow> string" where
  "trim_float s = trim_loop FStart [] None s"

definition is_finite :: "double \<Rightarrow> bool" where
  "is_finite d = finite_double d"

definition dump_double :: "double \<Rightarrow> string" where
  "dump_double d = (if \<not> is_finite d then ''null'' else trim_float (take 127 (format_g decimal_dig d)))"

definition dump_float :: "double \<Rightarrow> string" where
  "dump_float d = (if \<not> is_finite d then ''null'' else trim_float (take 127 (show_double d)))"

definition dump_string :: "string \<Rightarrow> string" where
  "dump_string s = CHR 0x22 # escape s @ [CHR 0x22]"

definition indentation :: "nat option \<Rightarrow> char \<Rightarrow> nat \<Rightarrow> string" where
  "indentation indent sep level =
     (case indent of None \<Rightarrow> [] | Some n \<Rightarrow> CHR 0x0A # replicate (level * n) sep)"

text \<open>\<open>dump_internal\<close>: a negative \<open>indent\<close> is \<open>None\<close>.\<close>

fun dump_internal :: "wvalue \<Rightarrow> nat option \<Rightarrow> char \<Rightarrow> nat \<Rightarrow> string"
  and dump_items :: "wvalue list \<Rightarrow> nat option \<Rightarrow> char \<Rightarrow> nat \<Rightarrow> bool \<Rightarrow> string"
  and dump_members :: "(string \<times> wvalue) list \<Rightarrow> nat option \<Rightarrow> char \<Rightarrow> nat \<Rightarrow> bool \<Rightarrow> string"
where
  "dump_internal WNull indent sep level = ''null''"
| "dump_internal WFalse indent sep level = ''false''"
| "dump_internal WTrue indent sep level = ''true''"
| "dump_internal (WSigned i) indent sep level = show_int i"
| "dump_internal (WUnsigned n) indent sep level = dec_digits n"
| "dump_internal (WFloat d) indent sep level = dump_float d"
| "dump_internal (WDouble d) indent sep level = dump_double d"
| "dump_internal (WString s) indent sep level = dump_string s"
| "dump_internal (WList vs) indent sep level =
     ''['' @ indentation indent sep (level + 1) @ dump_items vs indent sep (level + 1) True
       @ indentation indent sep level @ '']''"
| "dump_internal (WObject kvs) indent sep level =
     ''{'' @ indentation indent sep (level + 1) @ dump_members kvs indent sep (level + 1) True
       @ indentation indent sep level @ ''}''"
| "dump_internal (WFunction f) indent sep level = ''custom function''"
| "dump_items [] indent sep level first = []"
| "dump_items (v # vs) indent sep level first =
     (if first then [] else '','' @ indentation indent sep level)
       @ dump_internal v indent sep level @ dump_items vs indent sep level False"
| "dump_members [] indent sep level first = []"
| "dump_members ((k, v) # kvs) indent sep level first =
     (if first then [] else '','' @ indentation indent sep level)
       @ dump_string k @ '':'' @ (if indent = None then [] else '' '')
       @ dump_internal v indent sep level @ dump_members kvs indent sep level False"

definition dump :: "wvalue \<Rightarrow> string" where
  "dump v = dump_internal v None (CHR '' '') 0"

subsection \<open>Escaping is undone by reading\<close>

lemma to_hex_digit:
  assumes "n < 16"
  shows "is_hex (to_hex n) \<and> from_hex (to_hex n) = n"
proof -
  have "\<forall>m \<in> set [0..<16]. is_hex (to_hex m) \<and> from_hex (to_hex m) = m" by code_simp
  with assms show ?thesis by simp
qed

lemma from_hex_zero: "from_hex (CHR ''0'') = 0" and is_hex_zero: "is_hex (CHR ''0'')"
  by (simp_all add: from_hex_def is_hex_def is_digit_def byte_def)

lemma schar_control: "0 \<le> schar c \<and> schar c < 32 \<longleftrightarrow> byte c < 32"
  using byte_less [of c] by (cases "byte c < 128") (auto simp: schar_def simp del: byte_less)

lemma escape_char_cases:
  obtains (plain) "escape_char c = [c]" "c \<noteq> CHR 0x22" "c \<noteq> CHR 0x5C" "c \<noteq> nul"
  | (simple) e where "escape_char c = [CHR 0x5C, e]" "simple_escape e = [c]" "e \<noteq> CHR ''u''"
      "e \<in> set [CHR 0x22, CHR 0x5C, CHR ''/'', CHR ''b'', CHR ''f'', CHR ''n'', CHR ''r'', CHR ''t'']"
  | (code) "escape_char c = [CHR 0x5C, CHR ''u'', CHR ''0'', CHR ''0'', to_hex (byte c div 16), to_hex (byte c mod 16)]"
      "byte c < 32"
proof -
  have nul: "escape_char nul = [CHR 0x5C, CHR ''u'', CHR ''0'', CHR ''0'', to_hex (byte nul div 16), to_hex (byte nul mod 16)]"
    by (simp add: escape_char_def schar_def byte_def)
  show ?thesis
  proof (cases "c \<in> set [CHR 0x22, CHR 0x5C, CHR 0x0A, CHR 0x08, CHR 0x0C, CHR 0x0D, CHR 0x09]")
    case True
    then have "\<exists>e. escape_char c = [CHR 0x5C, e] \<and> simple_escape e = [c] \<and> e \<noteq> CHR ''u'' \<and>
      e \<in> set [CHR 0x22, CHR 0x5C, CHR ''/'', CHR ''b'', CHR ''f'', CHR ''n'', CHR ''r'', CHR ''t'']"
      by (auto simp: escape_char_def simple_escape_def)
    then show ?thesis using simple by blast
  next
    case False
    show ?thesis
    proof (cases "byte c < 32")
      case True
      with False show ?thesis by (intro code) (simp_all add: escape_char_def schar_control)
    next
      case notctl: False
      then have "c \<noteq> nul" by (auto simp: byte_def)
      with False notctl show ?thesis by (intro plain) (simp_all add: escape_char_def schar_control)
    qed
  qed
qed

lemma escape_Nil [simp]: "escape [] = []"
  by (simp add: escape_def)

lemma escape_Cons [simp]: "escape (c # s) = escape_char c @ escape s"
  by (simp add: escape_def)

definition needs_escape :: "string \<Rightarrow> bool" where
  "needs_escape s \<longleftrightarrow> (\<exists>c \<in> set s. escape_char c \<noteq> [c])"

lemma string_loop_escape_char:
  "string_loop (escape_char c @ t) =
     map_option (\<lambda>(raw, esc, rest). (escape_char c @ raw, escape_char c \<noteq> [c] \<or> esc, rest)) (string_loop t)"
proof (cases c rule: escape_char_cases)
  case plain
  then show ?thesis by (auto split: option.splits)
next
  case (simple e)
  then show ?thesis by (auto split: option.splits)
next
  case code
  have "is_hex (to_hex (byte c div 16))" "is_hex (to_hex (byte c mod 16))"
    using code(2) by (simp_all add: to_hex_digit)
  with code(1) show ?thesis by (auto simp: is_hex_zero split: option.splits)
qed

lemma string_loop_escape:
  "string_loop (escape s @ CHR 0x22 # rest) = Some (escape s, needs_escape s, rest)"
  by (induction s) (auto simp: string_loop_escape_char needs_escape_def)

lemma unescape_escape_char: "unescape (escape_char c @ t) = c # unescape t"
proof (cases c rule: escape_char_cases)
  case (simple e)
  then show ?thesis by simp
next
  case code
  have "byte c div 16 < 16" "byte c mod 16 < 16" using code(2) by simp_all
  then have "hex_code (CHR ''0'') (CHR ''0'') (to_hex (byte c div 16)) (to_hex (byte c mod 16)) = byte c"
    by (simp add: hex_code_def from_hex_zero to_hex_digit push_bit_eq_mult)
  with code show ?thesis by (simp add: utf8_unit_def)
qed simp

lemma unescape_escape [simp]: "unescape (escape s) = s"
  by (induction s) (simp_all add: unescape_escape_char)

lemma escape_plain: "\<not> needs_escape s \<Longrightarrow> escape s = s"
  by (induction s) (auto simp: needs_escape_def)

lemma string_value_escape [simp]: "string_value (escape s) (needs_escape s) = s"
  by (simp add: string_value_def escape_plain)

lemma decode_string_dump:
  "decode_string (dump_string s @ rest) = Ok (RString (escape s) (needs_escape s)) rest"
  by (simp add: decode_string_def dump_string_def string_loop_escape)

subsection \<open>Loading a printed value\<close>

text \<open>What \<open>load\<close> returns for the text of a value, and how deeply a value nests.\<close>

fun rv_of :: "wvalue \<Rightarrow> rvalue"
  and rv_of_members :: "(string \<times> wvalue) list \<Rightarrow> (string \<times> rvalue) list"
  and rv_of_items :: "wvalue list \<Rightarrow> rvalue list"
where
  "rv_of WNull = RNull"
| "rv_of WFalse = RFalse"
| "rv_of WTrue = RTrue"
| "rv_of (WSigned i) = RNumber (show_int i)"
| "rv_of (WUnsigned n) = RNumber (dec_digits n)"
| "rv_of (WFloat d) = RNumber (dump_float d)"
| "rv_of (WDouble d) = RNumber (dump_double d)"
| "rv_of (WString s) = RString (escape s) (needs_escape s)"
| "rv_of (WList vs) = RList (rv_of_items vs)"
| "rv_of (WObject kvs) = RObject (rv_of_members kvs)"
| "rv_of (WFunction f) = RError"
| "rv_of_items [] = []"
| "rv_of_items (v # vs) = rv_of v # rv_of_items vs"
| "rv_of_members [] = []"
| "rv_of_members ((k, v) # kvs) = (k, rv_of v) # rv_of_members kvs"

fun nest :: "wvalue \<Rightarrow> nat"
  and nest_items :: "wvalue list \<Rightarrow> nat"
  and nest_members :: "(string \<times> wvalue) list \<Rightarrow> nat"
where
  "nest (WList vs) = Suc (nest_items vs)"
| "nest (WObject kvs) = Suc (nest_members kvs)"
| "nest v = 0"
| "nest_items [] = 0"
| "nest_items (v # vs) = max (nest v) (nest_items vs)"
| "nest_members [] = 0"
| "nest_members ((k, v) # kvs) = max (nest v) (nest_members kvs)"

text \<open>Values without floating-point numbers and functions: their text is exact.\<close>

fun exact :: "wvalue \<Rightarrow> bool"
  and exact_items :: "wvalue list \<Rightarrow> bool"
  and exact_members :: "(string \<times> wvalue) list \<Rightarrow> bool"
where
  "exact (WFloat d) = False"
| "exact (WDouble d) = False"
| "exact (WFunction f) = False"
| "exact (WList vs) = exact_items vs"
| "exact (WObject kvs) = exact_members kvs"
| "exact v = True"
| "exact_items [] = True"
| "exact_items (v # vs) = (exact v \<and> exact_items vs)"
| "exact_members [] = True"
| "exact_members ((k, v) # kvs) = (exact v \<and> exact_members kvs)"

definition follow :: "string \<Rightarrow> bool" where
  "follow s \<longleftrightarrow> \<not> is_digit (peek s) \<and> peek s \<notin> set ''.-+eE''"

lemma num_step_follow: "follow s \<Longrightarrow> num_step (peek s) st = None"
  by (auto simp: follow_def num_step_def is_digit_def byte_def)

lemma is_digit_nul [simp]: "\<not> is_digit nul"
  by (simp add: is_digit_def byte_def)

lemma number_loop_stop:
  assumes "follow s" "num_accepts st"
  shows "number_loop st s = Some ([], s)"
proof (cases s)
  case Nil
  with assms show ?thesis by (auto simp: number_loop.simps [of st "[]"] num_accepts_def)
next
  case (Cons c cs)
  with assms num_step_follow [OF assms(1), of st] show ?thesis
    by (auto simp: number_loop.simps [of st "c # cs"] num_accepts_def)
qed

lemma chr_zero: "chr 48 = CHR ''0''"
  by code_simp

lemma hd_dec_digits_pos: "0 < n \<Longrightarrow> hd (dec_digits n) \<noteq> CHR ''0''"
proof (induction n rule: dec_digits.induct)
  case (1 n)
  show ?case
  proof (cases "n < 10")
    case True
    with "1.prems" show ?thesis
      by (subst dec_digits.simps) (auto simp flip: chr_zero dest!: arg_cong [of _ _ byte])
  next
    case False
    with 1 have "hd (dec_digits (n div 10)) \<noteq> CHR ''0''" by auto
    with False show ?thesis by (subst dec_digits.simps) simp
  qed
qed

lemma is_digit_zero: "is_digit (CHR ''0'')"
  by (simp add: is_digit_def byte_def)

lemma dec_digits_zero: "dec_digits 0 = ''0''"
  by (subst dec_digits.simps) (simp add: chr_zero)

lemma number_loop_digits:
  assumes "follow rest" "st = Minus \<or> st = AfterMinus"
  shows "number_loop st (dec_digits n @ rest) = Some (dec_digits n, rest)"
proof (cases "n = 0")
  case True
  have "num_step (CHR ''0'') st = Some ZeroFirst"
    using assms(2) by (auto simp: num_step_def num_table_def num_states_def)
  with True assms number_loop_stop [OF assms(1), of ZeroFirst] show ?thesis
    by (auto simp: dec_digits_zero number_loop.simps [of st "CHR ''0'' # rest"] num_accepts_def)
next
  case False
  obtain c ds where c: "dec_digits n = c # ds" by (cases "dec_digits n") auto
  have dig: "is_digit c" "\<forall>x \<in> set ds. is_digit x" using dec_digits_digits [of n] c by auto
  have "c \<noteq> CHR ''0''" using hd_dec_digits_pos [of n] False c by simp
  moreover have "num_step c st = Some Digits"
    using assms(2) dig(1) calculation by (auto simp: num_step_def num_table_def num_states_def)
  moreover have "\<not> is_digit (peek rest)" using assms(1) by (simp add: follow_def)
  then have "takeWhile is_digit (ds @ rest) = ds" "dropWhile is_digit (ds @ rest) = rest"
    using dig(2) by (cases rest; simp add: takeWhile_append dropWhile_append)+
  ultimately show ?thesis
    using dig(1) number_loop_stop [OF assms(1), of Digits] assms(2)
    by (auto simp: c number_loop.simps [of st "c # ds @ rest"] num_accepts_def)
qed

lemma decode_number_dec:
  "follow rest \<Longrightarrow> decode_number (dec_digits n @ rest) = Ok (RNumber (dec_digits n)) rest"
  by (simp add: decode_number_def number_loop_digits)

lemma decode_number_int:
  assumes "follow rest"
  shows "decode_number (show_int i @ rest) = Ok (RNumber (show_int i)) rest"
proof (cases "i < 0")
  case True
  have "num_step (CHR ''-'') Minus = Some AfterMinus"
    by (simp add: num_step_def num_table_def num_states_def is_digit_def byte_def)
  moreover have "\<not> is_digit (CHR ''-'')" by (simp add: is_digit_def byte_def)
  ultimately show ?thesis using True number_loop_digits [OF assms, of AfterMinus]
    by (simp add: decode_number_def show_int_def number_loop.simps [of Minus "CHR ''-'' # dec_digits (nat (- i)) @ rest"])
next
  case False
  with assms show ?thesis by (simp add: show_int_def decode_number_dec)
qed

lemma is_json_ws_indent: "is_json_ws sep \<Longrightarrow> ws_skip (indentation i sep l @ t) = ws_skip t"
  by (cases i) (auto simp: indentation_def ws_skip_def is_json_ws_def dropWhile_append)

lemma ws_skip_here: "\<not> is_json_ws (peek s) \<Longrightarrow> ws_skip s = s"
  by (cases s) (simp_all add: ws_skip_def)

lemma follow_indent:
  assumes "is_json_ws sep" "follow t"
  shows "follow (indentation i sep l @ t)"
  using assms by (cases i) (auto simp: indentation_def follow_def is_digit_def byte_def)

text \<open>The first character of a printed value tells the kind of value, and is not white space.\<close>

lemma peek_digits: "is_digit (peek (dec_digits n @ t))"
  using hd_dec_digits [of n] by (cases "dec_digits n") auto

lemma is_digit_chars:
  "is_digit c \<Longrightarrow> c \<noteq> CHR ''['' \<and> c \<noteq> CHR ''{'' \<and> c \<noteq> CHR 0x22 \<and> c \<noteq> CHR ''t'' \<and> c \<noteq> CHR ''f''
     \<and> c \<noteq> CHR ''n'' \<and> c \<noteq> CHR '']'' \<and> c \<noteq> CHR ''}'' \<and> \<not> is_json_ws c"
  by (auto simp: is_digit_def byte_def is_json_ws_def)

lemma peek_show_int: "peek (show_int i @ t) = CHR ''-'' \<or> is_digit (peek (show_int i @ t))"
  using peek_digits by (auto simp: show_int_def)

lemma peek_dump:
  "exact v \<Longrightarrow> \<not> is_json_ws (peek (dump_internal v i sep l @ t)) \<and> peek (dump_internal v i sep l @ t) \<noteq> CHR '']''"
  using peek_show_int [of "case v of WSigned i \<Rightarrow> i | _ \<Rightarrow> 0" t] peek_digits [of "case v of WUnsigned n \<Rightarrow> n | _ \<Rightarrow> 0" t]
  by (cases v) (auto simp: dump_string_def is_json_ws_def dest: is_digit_chars)

definition reads_back :: "nat option \<Rightarrow> char \<Rightarrow> wvalue \<Rightarrow> bool" where
  "reads_back i sep v \<longleftrightarrow>
     (\<forall>n d l rest. d + 2 * nest v \<le> max_depth + 1 \<longrightarrow> follow rest \<longrightarrow>
        3 * length (dump_internal v i sep l @ rest) + 1 \<le> n \<longrightarrow>
        decode_value n d (dump_internal v i sep l @ rest) = Ok (rv_of v) rest)"

lemma reads_backD:
  "reads_back i sep v \<Longrightarrow> d + 2 * nest v \<le> max_depth + 1 \<Longrightarrow> follow rest \<Longrightarrow>
     3 * length (dump_internal v i sep l @ rest) + 1 \<le> n \<Longrightarrow>
     decode_value n d (dump_internal v i sep l @ rest) = Ok (rv_of v) rest"
  by (simp add: reads_back_def)

lemma follow_chars [simp]:
  "follow (CHR '','' # t)" "follow (CHR '']'' # t)" "follow (CHR ''}'' # t)" "follow []"
  by (simp_all add: follow_def is_digit_def byte_def)

lemma not_ws_chars [simp]:
  "\<not> is_json_ws (CHR '','')" "\<not> is_json_ws (CHR '']'')" "\<not> is_json_ws (CHR ''}'')"
  "\<not> is_json_ws (CHR '':'')" "\<not> is_json_ws (CHR 0x22)" "\<not> is_json_ws nul"
  by (simp_all add: is_json_ws_def)

lemma list_loop_dump:
  assumes sep: "is_json_ws sep"
  shows "exact_items (v # vs) \<Longrightarrow> \<forall>x \<in> set (v # vs). reads_back i sep x \<Longrightarrow>
    d + 1 + 2 * nest_items (v # vs) \<le> max_depth + 1 \<Longrightarrow>
    3 * length (dump_items (v # vs) i sep l True @ indentation i sep l' @ CHR '']'' # rest) + 2 \<le> n \<Longrightarrow>
    list_loop n d (dump_items (v # vs) i sep l True @ indentation i sep l' @ CHR '']'' # rest)
      = Ok (rv_of_items (v # vs)) rest"
proof (induction vs arbitrary: v n)
  case Nil
  then obtain m where n: "n = Suc m" by (cases n) auto
  let ?t = "indentation i sep l' @ CHR '']'' # rest"
  have "decode_value m (d + 1) (dump_internal v i sep l @ ?t) = Ok (rv_of v) ?t"
    using Nil.prems n by (intro reads_backD) (auto simp: follow_indent [OF sep])
  then show ?case by (simp add: n is_json_ws_indent [OF sep] ws_skip_here)
next
  case (Cons w ws)
  then obtain m where n: "n = Suc m" by (cases n) auto
  let ?u = "dump_items (w # ws) i sep l True @ indentation i sep l' @ CHR '']'' # rest"
  let ?t = "CHR '','' # indentation i sep l @ ?u"
  have v: "decode_value m (d + 1) (dump_internal v i sep l @ ?t) = Ok (rv_of v) ?t"
    using Cons.prems n by (intro reads_backD) auto
  have "list_loop m d ?u = Ok (rv_of_items (w # ws)) rest"
    using Cons.prems n by (intro Cons.IH) auto
  moreover have "ws_skip (indentation i sep l @ ?u) = ?u"
    using Cons.prems(1) by (simp add: is_json_ws_indent [OF sep] ws_skip_here peek_dump)
  ultimately show ?case using v by (simp add: n ws_skip_here expect_def)
qed

lemma object_loop_dump:
  assumes sep: "is_json_ws sep"
  shows "exact_members (kv # kvs) \<Longrightarrow> \<forall>x \<in> set (kv # kvs). reads_back i sep (snd x) \<Longrightarrow>
    d + 1 + 2 * nest_members (kv # kvs) \<le> max_depth + 1 \<Longrightarrow>
    3 * length (dump_members (kv # kvs) i sep l True @ indentation i sep l' @ CHR ''}'' # rest) + 2 \<le> n \<Longrightarrow>
    object_loop n d (dump_members (kv # kvs) i sep l True @ indentation i sep l' @ CHR ''}'' # rest)
      = Ok (rv_of_members (kv # kvs)) rest"
proof (induction kvs arbitrary: kv n)
  case Nil
  then obtain m where n: "n = Suc m" by (cases n) auto
  obtain k v where kv: "kv = (k, v)" by force
  let ?t = "indentation i sep l' @ CHR ''}'' # rest"
  have v: "decode_value m (d + 1) (dump_internal v i sep l @ ?t) = Ok (rv_of v) ?t"
    using Nil.prems n kv by (intro reads_backD) (auto simp: follow_indent [OF sep])
  have "ws_skip ((if i = None then [] else '' '') @ dump_internal v i sep l @ ?t) = dump_internal v i sep l @ ?t"
    using Nil.prems(1) kv peek_dump [of v i sep l ?t]
    by (cases "dump_internal v i sep l @ ?t") (auto simp: ws_skip_def is_json_ws_def)
  with v show ?case
    by (simp add: n kv is_json_ws_indent [OF sep] ws_skip_here decode_string_dump expect_def key_of_def)
next
  case (Cons kw kws)
  then obtain m where n: "n = Suc m" by (cases n) auto
  obtain k v where kv: "kv = (k, v)" by force
  let ?u = "dump_members (kw # kws) i sep l True @ indentation i sep l' @ CHR ''}'' # rest"
  let ?t = "CHR '','' # indentation i sep l @ ?u"
  have v: "decode_value m (d + 1) (dump_internal v i sep l @ ?t) = Ok (rv_of v) ?t"
    using Cons.prems n kv by (cases kw) (intro reads_backD, auto)
  have o: "object_loop m d ?u = Ok (rv_of_members (kw # kws)) rest"
    using Cons.prems n kv by (cases kw) (intro Cons.IH, auto)
  have "ws_skip ((if i = None then [] else '' '') @ dump_internal v i sep l @ ?t) = dump_internal v i sep l @ ?t"
    using Cons.prems(1) kv peek_dump [of v i sep l ?t]
    by (cases "dump_internal v i sep l @ ?t") (auto simp: ws_skip_def is_json_ws_def)
  moreover have "ws_skip (indentation i sep l @ ?u) = ?u"
    by (cases kw) (simp add: is_json_ws_indent [OF sep] ws_skip_here dump_string_def)
  moreover have "dump_members (kv # kw # kws) i sep l True @ indentation i sep l' @ CHR ''}'' # rest
      = dump_string k @ CHR '':'' # (if i = None then [] else '' '') @ dump_internal v i sep l @ ?t"
    by (cases kw) (simp add: kv)
  ultimately show ?case using v o
    by (simp add: n kv ws_skip_here decode_string_dump expect_def key_of_def del: dump_members.simps)
qed

lemma exact_items_all: "exact_items vs \<longleftrightarrow> (\<forall>v \<in> set vs. exact v)"
  by (induction vs) auto

lemma exact_members_all: "exact_members kvs \<longleftrightarrow> (\<forall>kv \<in> set kvs. exact (snd kv))"
  by (induction kvs) auto

lemma literal_append [simp]: "literal w v (w @ t) = Ok v t"
  by (simp add: literal_def)

lemma reads_back_exact:
  assumes sep: "is_json_ws sep"
  shows "exact v \<Longrightarrow> reads_back i sep v"
proof (induction v)
  case (WList vs)
  show ?case unfolding reads_back_def
  proof (intro allI impI)
    fix n d l rest
    assume A: "d + 2 * nest (WList vs) \<le> max_depth + 1" "follow rest"
      "3 * length (dump_internal (WList vs) i sep l @ rest) + 1 \<le> n"
    then obtain m where n: "n = Suc (Suc m)" by (cases n; cases "n - 1") auto
    show "decode_value n d (dump_internal (WList vs) i sep l @ rest) = Ok (rv_of (WList vs)) rest"
    proof (cases vs)
      case Nil
      with A n show ?thesis
        by (simp add: expect_def is_json_ws_indent [OF sep] ws_skip_here)
    next
      case (Cons w ws)
      let ?u = "dump_items vs i sep (l + 1) True @ indentation i sep l @ CHR '']'' # rest"
      have "list_loop m (d + 1) ?u = Ok (rv_of_items vs) rest"
        unfolding Cons using WList A n Cons
        by (intro list_loop_dump [OF sep]) (auto simp: exact_items_all)
      moreover have "ws_skip (indentation i sep (l + 1) @ ?u) = ?u" "peek ?u \<noteq> CHR '']''"
        using WList.prems Cons peek_dump [of w i sep "l + 1"]
        by (auto simp: is_json_ws_indent [OF sep] ws_skip_here)
      ultimately show ?thesis using A n Cons by (simp add: expect_def)
    qed
  qed
next
  case (WObject kvs)
  show ?case unfolding reads_back_def
  proof (intro allI impI)
    fix n d l rest
    assume A: "d + 2 * nest (WObject kvs) \<le> max_depth + 1" "follow rest"
      "3 * length (dump_internal (WObject kvs) i sep l @ rest) + 1 \<le> n"
    then obtain m where n: "n = Suc (Suc m)" by (cases n; cases "n - 1") auto
    show "decode_value n d (dump_internal (WObject kvs) i sep l @ rest) = Ok (rv_of (WObject kvs)) rest"
    proof (cases kvs)
      case Nil
      with A n show ?thesis
        by (simp add: expect_def is_json_ws_indent [OF sep] ws_skip_here)
    next
      case (Cons kw kws)
      let ?u = "dump_members kvs i sep (l + 1) True @ indentation i sep l @ CHR ''}'' # rest"
      have "object_loop m (d + 1) ?u = Ok (rv_of_members kvs) rest"
        unfolding Cons using WObject A n Cons
        by (intro object_loop_dump [OF sep]) (force simp: exact_members_all)+
      moreover have "ws_skip (indentation i sep (l + 1) @ ?u) = ?u" "peek ?u \<noteq> CHR ''}''"
        using Cons by (cases kw; simp add: is_json_ws_indent [OF sep] ws_skip_here dump_string_def)+
      ultimately show ?thesis using A n Cons by (simp add: expect_def)
    qed
  qed
next
  case (WSigned x)
  show ?case unfolding reads_back_def
  proof (intro allI impI)
    fix n d l rest
    assume A: "follow rest" "3 * length (dump_internal (WSigned x) i sep l @ rest) + 1 \<le> n"
    then obtain m where n: "n = Suc m" by (cases n) auto
    from peek_show_int [of x rest] show
      "decode_value n d (dump_internal (WSigned x) i sep l @ rest) = Ok (rv_of (WSigned x)) rest"
      by (auto simp: n decode_number_int [OF A(1)] dest: is_digit_chars)
  qed
next
  case (WUnsigned x)
  show ?case unfolding reads_back_def
  proof (intro allI impI)
    fix n d l rest
    assume A: "follow rest" "3 * length (dump_internal (WUnsigned x) i sep l @ rest) + 1 \<le> n"
    then obtain m where n: "n = Suc m" by (cases n) auto
    from peek_digits [of x rest] show
      "decode_value n d (dump_internal (WUnsigned x) i sep l @ rest) = Ok (rv_of (WUnsigned x)) rest"
      by (auto simp: n decode_number_dec [OF A(1)] dest: is_digit_chars)
  qed
next
  case (WString s)
  show ?case unfolding reads_back_def
  proof (intro allI impI)
    fix n d l rest
    assume A: "3 * length (dump_internal (WString s) i sep l @ rest) + 1 \<le> n"
    then obtain m where n: "n = Suc m" by (cases n) auto
    have "peek (dump_string s @ rest) = CHR 0x22" by (simp add: dump_string_def)
    then show "decode_value n d (dump_internal (WString s) i sep l @ rest) = Ok (rv_of (WString s)) rest"
      by (simp add: n decode_string_dump)
  qed
qed (auto simp: reads_back_def literal_def, (case_tac n; auto simp: literal_def)+)

text \<open>Printing a value, with any white space as indentation, and loading it gives it back.\<close>

lemma load_dump_internal:
  assumes "exact v" "2 * nest v \<le> max_depth + 1" "is_json_ws sep"
  shows "load (dump_internal v i sep 0) = rv_of v"
proof -
  let ?s = "dump_internal v i sep 0"
  have ws: "ws_skip ?s = ?s"
    using peek_dump [OF assms(1), of i sep 0 "[]"] by (simp add: ws_skip_here)
  have "decode_value (parse_fuel ?s) 0 (?s @ []) = Ok (rv_of v) []"
    using assms by (intro reads_backD reads_back_exact) (simp_all add: parse_fuel_def)
  then show ?thesis by (simp add: load_def parse_with_def ws ws_skip_here)
qed

end
