(* ===== verification/JsonEdit.thy ===== *)
theory JsonEdit
  imports JsonWrite
begin

text \<open>
  The rest of \<open>crow/json.h\<close>: a write value made from a read value, the streaming of a read value,
  the estimate of the printed length and the accessors of \<open>wvalue_reader\<close>.
\<close>

subsection \<open>From a read value\<close>

text \<open>\<open>o->emplace\<close>: a key that is present keeps its value.\<close>

definition emplace_member :: "string \<Rightarrow> wvalue \<Rightarrow> (string \<times> wvalue) list \<Rightarrow> (string \<times> wvalue) list" where
  "emplace_member k v kvs = (if k \<in> fst ` set kvs then kvs else kvs @ [(k, v)])"

text \<open>
  The values a read that fails leaves in an uninitialised variable are arguments, and so is the order
  in which an \<open>unordered_map\<close> that was filled in the given order is iterated: \<open>ord\<close>.
\<close>

fun wv_of_rv :: "((string \<times> wvalue) list \<Rightarrow> (string \<times> wvalue) list) \<Rightarrow> int \<Rightarrow> double \<Rightarrow> rvalue \<Rightarrow> wvalue res"
  and wv_of_items :: "((string \<times> wvalue) list \<Rightarrow> (string \<times> wvalue) list) \<Rightarrow> int \<Rightarrow> double \<Rightarrow> rvalue list \<Rightarrow> wvalue list res"
  and wv_of_members :: "((string \<times> wvalue) list \<Rightarrow> (string \<times> wvalue) list) \<Rightarrow> int \<Rightarrow> double \<Rightarrow> (string \<times> wvalue) list \<Rightarrow> (string \<times> rvalue) list \<Rightarrow> (string \<times> wvalue) list res"
where
  "wv_of_rv ord ji jd RError = Inl ''invalid json object''"
| "wv_of_rv ord ji jd RNull = Inr WNull"
| "wv_of_rv ord ji jd RFalse = Inr WFalse"
| "wv_of_rv ord ji jd RTrue = Inr WTrue"
| "wv_of_rv ord ji jd (RNumber txt) =
     (case determine_num_type txt of
        NFloating \<Rightarrow> Inr (WFloat (lexical_cast_double jd txt))
      | NSigned \<Rightarrow> Inr (WSigned (lexical_cast_i64 ji txt))
      | _ \<Rightarrow> Inr (WUnsigned (nat (lexical_cast_u64 ji txt))))"
| "wv_of_rv ord ji jd (RString raw esc) = Inr (WString (string_value raw esc))"
| "wv_of_rv ord ji jd (RList vs) = bind_res (wv_of_items ord ji jd vs) (\<lambda>ws. Inr (WList ws))"
| "wv_of_rv ord ji jd (RObject kvs) = bind_res (wv_of_members ord ji jd [] kvs) (\<lambda>ws. Inr (WObject (ord ws)))"
| "wv_of_items ord ji jd [] = Inr []"
| "wv_of_items ord ji jd (v # vs) =
     bind_res (wv_of_rv ord ji jd v) (\<lambda>w. bind_res (wv_of_items ord ji jd vs) (\<lambda>ws. Inr (w # ws)))"
| "wv_of_members ord ji jd acc [] = Inr acc"
| "wv_of_members ord ji jd acc ((k, v) # kvs) =
     bind_res (wv_of_rv ord ji jd v) (\<lambda>w. wv_of_members ord ji jd (emplace_member k w acc) kvs)"

subsection \<open>Streaming a read value\<close>

text \<open>
  \<open>operator<<\<close>: a stream prints a double with six significant digits. The type of an error value
  is uninitialised, so what it prints is an argument.
\<close>

fun rv_print :: "string \<Rightarrow> int \<Rightarrow> double \<Rightarrow> rvalue \<Rightarrow> string"
  and rv_print_items :: "string \<Rightarrow> int \<Rightarrow> double \<Rightarrow> bool \<Rightarrow> rvalue list \<Rightarrow> string"
  and rv_print_members :: "string \<Rightarrow> int \<Rightarrow> double \<Rightarrow> bool \<Rightarrow> (string \<times> rvalue) list \<Rightarrow> string"
where
  "rv_print je ji jd RError = je"
| "rv_print je ji jd RNull = ''null''"
| "rv_print je ji jd RFalse = ''false''"
| "rv_print je ji jd RTrue = ''true''"
| "rv_print je ji jd (RNumber txt) =
     (case determine_num_type txt of
        NFloating \<Rightarrow> format_g 6 (lexical_cast_double jd txt)
      | NSigned \<Rightarrow> show_int (lexical_cast_i64 ji txt)
      | _ \<Rightarrow> show_int (lexical_cast_u64 ji txt))"
| "rv_print je ji jd (RString raw esc) = [CHR 0x22] @ string_value raw esc @ [CHR 0x22]"
| "rv_print je ji jd (RList vs) = ''['' @ rv_print_items je ji jd True vs @ '']''"
| "rv_print je ji jd (RObject kvs) = ''{'' @ rv_print_members je ji jd True kvs @ ''}''"
| "rv_print_items je ji jd first [] = []"
| "rv_print_items je ji jd first (v # vs) =
     (if first then [] else '','') @ rv_print je ji jd v @ rv_print_items je ji jd False vs"
| "rv_print_members je ji jd first [] = []"
| "rv_print_members je ji jd first ((k, v) # kvs) =
     (if first then [] else '','') @ [CHR 0x22] @ escape k @ [CHR 0x22, CHR '':''] @ rv_print je ji jd v
       @ rv_print_members je ji jd False kvs"

definition rv_equals_text :: "rvalue \<Rightarrow> string \<Rightarrow> bool res" where
  "rv_equals_text v r = bind_res (rv_s v) (\<lambda>s. Inr (s = r))"

definition rv_differs_text :: "rvalue \<Rightarrow> string \<Rightarrow> bool res" where
  "rv_differs_text v r = bind_res (rv_s v) (\<lambda>s. Inr (s \<noteq> r))"

subsection \<open>The length of the text\<close>

fun estimate_length :: "wvalue \<Rightarrow> nat"
  and estimate_items :: "wvalue list \<Rightarrow> nat"
  and estimate_members :: "(string \<times> wvalue) list \<Rightarrow> nat"
where
  "estimate_length WNull = 4"
| "estimate_length WFalse = 5"
| "estimate_length WTrue = 4"
| "estimate_length (WSigned i) = 30"
| "estimate_length (WUnsigned n) = 30"
| "estimate_length (WFloat d) = 30"
| "estimate_length (WDouble d) = 30"
| "estimate_length (WString s) = 2 + length s + length s div 2"
| "estimate_length (WList vs) = estimate_items vs + 2"
| "estimate_length (WObject kvs) = estimate_members kvs + 2"
| "estimate_length (WFunction f) = 0"
| "estimate_items [] = 0"
| "estimate_items (v # vs) = 1 + estimate_length v + estimate_items vs"
| "estimate_members [] = 0"
| "estimate_members ((k, v) # kvs) =
     2 + (2 + length k + length k div 2) + estimate_length v + estimate_members kvs"

text \<open>\<open>execute\<close> runs a function value on a text.\<close>

definition wv_execute :: "wvalue \<Rightarrow> string \<Rightarrow> string" where
  "wv_execute w txt' = (case w of WFunction f \<Rightarrow> f txt' | _ \<Rightarrow> [])"

subsection \<open>wvalue_reader\<close>

text \<open>
  \<open>num\<close> is a union: \<open>get(int64_t)\<close> of an unsigned number reads its bits as signed. \<open>get(double)\<close>
  falls back for every double, because its test asks for \<open>Floating_point\<close>, which only a
  \<open>float\<close> or a loaded number has.
\<close>

definition get_int :: "wvalue \<Rightarrow> int \<Rightarrow> int" where
  "get_int w fallback =
     (case w of
        WSigned i \<Rightarrow> i
      | WUnsigned n \<Rightarrow> sint (word_of_nat n :: 64 word)
      | _ \<Rightarrow> fallback)"

definition get_double :: "wvalue \<Rightarrow> double \<Rightarrow> double" where
  "get_double w fallback = (case w of WFloat d \<Rightarrow> d | _ \<Rightarrow> fallback)"

definition get_bool :: "wvalue \<Rightarrow> bool \<Rightarrow> bool" where
  "get_bool w fallback = (case w of WTrue \<Rightarrow> True | WFalse \<Rightarrow> False | _ \<Rightarrow> fallback)"

definition get_string :: "wvalue \<Rightarrow> string \<Rightarrow> string" where
  "get_string w fallback = (case w of WString s \<Rightarrow> s | _ \<Rightarrow> fallback)"

subsection \<open>Editing keeps the document\<close>

text \<open>Exact values of the 64-bit range whose objects have distinct keys.\<close>

fun editable :: "wvalue \<Rightarrow> bool"
  and editable_items :: "wvalue list \<Rightarrow> bool"
  and editable_members :: "(string \<times> wvalue) list \<Rightarrow> bool"
where
  "editable (WSigned i) = (i64_min \<le> i \<and> i \<le> i64_max)"
| "editable (WUnsigned n) = (int n \<le> u64_max)"
| "editable (WFloat d) = False"
| "editable (WDouble d) = False"
| "editable (WFunction f) = False"
| "editable (WList vs) = editable_items vs"
| "editable (WObject kvs) = (distinct (map fst kvs) \<and> editable_members kvs)"
| "editable v = True"
| "editable_items [] = True"
| "editable_items (v # vs) = (editable v \<and> editable_items vs)"
| "editable_members [] = True"
| "editable_members ((k, v) # kvs) = (editable v \<and> editable_members kvs)"

lemma editable_exact:
  "editable v \<Longrightarrow> exact v" "editable_items vs \<Longrightarrow> exact_items vs" "editable_members kvs \<Longrightarrow> exact_members kvs"
  by (induction v and vs and kvs rule: editable_editable_items_editable_members.induct) simp_all

lemma num_type_digits: "determine_num_type (dec_digits n) = NUnsigned"
  using dec_digits_digits [of n]
  by (auto simp: determine_num_type_def is_digit_def byte_def)

lemma num_type_negative: "i < 0 \<Longrightarrow> determine_num_type (show_int i) = NSigned"
  using dec_digits_digits [of "nat (- i)"]
  by (auto simp: determine_num_type_def show_int_def is_digit_def byte_def)

lemma edit_number:
  "i64_min \<le> i \<Longrightarrow> i \<le> i64_max \<Longrightarrow>
     \<exists>w. wv_of_rv ord ji jd (RNumber (show_int i)) = Inr w \<and> rv_of w = RNumber (show_int i) \<and> editable w \<and> nest w = 0"
proof (cases "i < 0")
  case True
  assume "i64_min \<le> i" "i \<le> i64_max"
  with True show ?thesis by (simp add: num_type_negative lexical_cast_show_int)
next
  case False
  assume "i64_min \<le> i" "i \<le> i64_max"
  with False lexical_cast_u64_show [of "nat i" ji] show ?thesis
    by (simp add: show_int_def num_type_digits i64_max_def u64_max_def)
qed

text \<open>Read values that differ only in the order of the members of their objects.\<close>

inductive reordered :: "rvalue \<Rightarrow> rvalue \<Rightarrow> bool" where
  reordered_same: "reordered v v"
| reordered_list: "list_all2 reordered vs ws \<Longrightarrow> reordered (RList vs) (RList ws)"
| reordered_object:
    "map fst kvs = map fst ws \<Longrightarrow> list_all2 reordered (map snd kvs) (map snd ws) \<Longrightarrow> mset xs = mset ws
       \<Longrightarrow> reordered (RObject kvs) (RObject xs)"
monos list.rel_mono

lemma rv_of_items_map: "rv_of_items vs = map rv_of vs"
  by (induction vs) simp_all

lemma rv_of_members_map: "rv_of_members kvs = map (\<lambda>kv. (fst kv, rv_of (snd kv))) kvs"
  by (induction kvs) auto

lemma editable_members_all: "editable_members kvs \<longleftrightarrow> (\<forall>kv \<in> set kvs. editable (snd kv))"
  by (induction kvs) auto

lemma nest_members_le: "nest_members kvs \<le> n \<longleftrightarrow> (\<forall>kv \<in> set kvs. nest (snd kv) \<le> n)"
  by (induction kvs) auto

lemma read_again:
  assumes ord: "\<And>xs. mset (ord xs) = mset xs"
  shows
  "editable v \<Longrightarrow> \<exists>w. wv_of_rv ord ji jd (rv_of v) = Inr w
     \<and> reordered (rv_of v) (rv_of w) \<and> editable w \<and> nest w \<le> nest v"
  "editable_items vs \<Longrightarrow> \<exists>ws. wv_of_items ord ji jd (rv_of_items vs) = Inr ws
     \<and> list_all2 reordered (map rv_of vs) (map rv_of ws) \<and> editable_items ws \<and> nest_items ws \<le> nest_items vs"
  "editable_members kvs \<Longrightarrow> distinct (map fst kvs) \<Longrightarrow> fst ` set acc \<inter> fst ` set kvs = {} \<Longrightarrow>
     \<exists>ws. wv_of_members ord ji jd acc (rv_of_members kvs) = Inr (acc @ ws) \<and> map fst ws = map fst kvs
     \<and> list_all2 reordered (map (\<lambda>kv. rv_of (snd kv)) kvs) (map (\<lambda>kv. rv_of (snd kv)) ws)
     \<and> editable_members ws \<and> nest_members ws \<le> nest_members kvs"
proof (induction v and vs and kvs arbitrary: and and acc rule: editable_editable_items_editable_members.induct)
  case (1 i)
  then show ?case using edit_number [of i ord ji jd] by (auto intro: reordered_same)
next
  case (2 n)
  then show ?case by (simp add: num_type_digits lexical_cast_u64_show reordered_same)
next
  case (6 vs)
  then show ?case by (force simp: rv_of_items_map intro: reordered_list)
next
  case (7 kvs)
  from 7(1) [of "[]"] 7(2) obtain ws where ws: "wv_of_members ord ji jd [] (rv_of_members kvs) = Inr ws"
    "map fst ws = map fst kvs" "list_all2 reordered (map (\<lambda>kv. rv_of (snd kv)) kvs) (map (\<lambda>kv. rv_of (snd kv)) ws)"
    "editable_members ws" "nest_members ws \<le> nest_members kvs" by auto
  have set: "set (ord ws) = set ws" by (metis ord set_mset_mset)
  have "mset (map fst (ord ws)) = mset (map fst ws)" by (simp add: ord)
  then have "distinct (map fst (ord ws))" using ws(2) 7(2) by (metis editable.simps(7) mset_eq_imp_distinct_iff)
  moreover have "reordered (RObject (rv_of_members kvs)) (RObject (rv_of_members (ord ws)))"
    using ws(2,3) by (intro reordered_object [of _ "rv_of_members ws"]) (simp_all add: rv_of_members_map ord comp_def)
  moreover have "nest_members (ord ws) \<le> nest_members kvs"
    using ws(5) by (simp add: nest_members_le set)
  ultimately show ?case using ws(1,4) by (simp add: editable_members_all set)
next
  case (12 k v kvs)
  from 12(1) 12(3) obtain w where w: "wv_of_rv ord ji jd (rv_of v) = Inr w"
    "reordered (rv_of v) (rv_of w)" "editable w" "nest w \<le> nest v" by auto
  have k: "k \<notin> fst ` set acc" and d: "fst ` set (acc @ [(k, w)]) \<inter> fst ` set kvs = {}"
    using 12(4,5) by auto
  from 12(2) [OF _ _ d] 12(3,4) obtain ws where
    "wv_of_members ord ji jd (acc @ [(k, w)]) (rv_of_members kvs) = Inr ((acc @ [(k, w)]) @ ws)" "map fst ws = map fst kvs"
    "list_all2 reordered (map (\<lambda>kv. rv_of (snd kv)) kvs) (map (\<lambda>kv. rv_of (snd kv)) ws)"
    "editable_members ws" "nest_members ws \<le> nest_members kvs" by auto
  with w k show ?case by (intro exI [of _ "(k, w) # ws"]) (simp add: emplace_member_def max.coboundedI1 max.coboundedI2)
qed (auto intro: reordered_same)

subsection \<open>When the estimate is an upper bound\<close>

text \<open>
  Escaping makes a quote, a backslash or a control character with a letter of its own one byte longer
  and any other control character five. The estimate leaves room for half the length of the text.
\<close>

definition letter_escape :: "char \<Rightarrow> bool" where
  "letter_escape c \<longleftrightarrow> c \<in> set [CHR 0x22, CHR 0x5C, CHR 0x08, CHR 0x09, CHR 0x0A, CHR 0x0C, CHR 0x0D]"

definition code_escape :: "char \<Rightarrow> bool" where
  "code_escape c \<longleftrightarrow> byte c < 32 \<and> \<not> letter_escape c"

definition few_escapes :: "string \<Rightarrow> bool" where
  "few_escapes s \<longleftrightarrow> 2 * (length (filter letter_escape s) + 5 * length (filter code_escape s)) \<le> length s"

fun roomy :: "wvalue \<Rightarrow> bool"
  and roomy_items :: "wvalue list \<Rightarrow> bool"
  and roomy_members :: "(string \<times> wvalue) list \<Rightarrow> bool"
where
  "roomy (WString s) = few_escapes s"
| "roomy (WList vs) = roomy_items vs"
| "roomy (WObject kvs) = roomy_members kvs"
| "roomy v = True"
| "roomy_items [] = True"
| "roomy_items (v # vs) = (roomy v \<and> roomy_items vs)"
| "roomy_members [] = True"
| "roomy_members ((k, v) # kvs) = (few_escapes k \<and> roomy v \<and> roomy_members kvs)"

lemma length_escape_char:
  "length (escape_char c) = 1 + (if letter_escape c then 1 else 0) + (if code_escape c then 5 else 0)"
  by (simp add: escape_char_def letter_escape_def code_escape_def schar_control)

lemma length_escape:
  "length (escape s) = length s + length (filter letter_escape s) + 5 * length (filter code_escape s)"
  by (induction s) (auto simp: length_escape_char)

lemma few_escapes_length: "few_escapes s \<longleftrightarrow> length (escape s) \<le> length s + length s div 2"
  by (auto simp: few_escapes_def length_escape)

lemma length_dec_digits: "n < 10 ^ Suc k \<Longrightarrow> length (dec_digits n) \<le> Suc k"
proof (induction k arbitrary: n)
  case (Suc k)
  show ?case
  proof (cases "n < 10")
    case False
    have "n div 10 < 10 ^ Suc k" using Suc.prems by (simp add: less_mult_imp_div_less)
    from Suc.IH [OF this] False show ?thesis by (subst dec_digits.simps) simp
  qed (simp add: dec_digits.simps)
qed (simp add: dec_digits.simps)

lemma length_u64: "int n \<le> u64_max \<Longrightarrow> length (dec_digits n) \<le> 20"
  using length_dec_digits [of n 19] by (simp add: u64_max_def)

lemma length_i64: "i64_min \<le> i \<Longrightarrow> i \<le> i64_max \<Longrightarrow> length (show_int i) \<le> 21"
  using length_u64 [of "nat (- i)"] length_u64 [of "nat i"]
  by (cases "i < 0") (auto simp: show_int_def i64_min_def i64_max_def u64_max_def)

lemma dump_fits:
  "editable v \<Longrightarrow> roomy v \<Longrightarrow> length (dump_internal v None sep l) \<le> estimate_length v"
  "editable_items vs \<Longrightarrow> roomy_items vs \<Longrightarrow> length (dump_items vs None sep l first) \<le> estimate_items vs"
  "editable_members kvs \<Longrightarrow> roomy_members kvs \<Longrightarrow> length (dump_members kvs None sep l first) \<le> estimate_members kvs"
proof (induction v and vs and kvs arbitrary: l and l first and l first
    rule: estimate_length_estimate_items_estimate_members.induct)
  case (4 i)
  then show ?case using length_i64 [of i] by simp
next
  case (5 n)
  then show ?case using length_u64 [of n] by simp
next
  case (13 v vs)
  from 13(1) [of l] 13(2) [of l False] 13(3,4) show ?case by (simp add: indentation_def)
next
  case (15 k v kvs)
  from 15(1) [of l] 15(2) [of l False] 15(3,4) show ?case
    by (simp add: indentation_def dump_string_def few_escapes_length)
qed (auto simp: indentation_def dump_string_def few_escapes_length)

subsection \<open>The parser and the printer together\<close>

text \<open>A result that stays when more fuel is given.\<close>

definition settles :: "'a pres \<Rightarrow> 'a pres \<Rightarrow> bool" where
  "settles a b \<longleftrightarrow> a = Out \<or> a = b"

lemma settles_refl [simp]: "settles a a" and settles_Out [simp]: "settles Out a"
  by (simp_all add: settles_def)

lemma settles_pbind: "settles m m' \<Longrightarrow> (\<And>v r. settles (k v r) (k' v r)) \<Longrightarrow> settles (pbind m k) (pbind m' k')"
  unfolding settles_def pbind_def by (cases m; cases m') auto

lemma settles_expect: "(\<And>r. settles (k r) (k' r)) \<Longrightarrow> settles (expect c s k) (expect c s k')"
  by (simp add: expect_def)

lemma settles_if: "settles a a' \<Longrightarrow> settles b b' \<Longrightarrow> settles (if c then a else b) (if c then a' else b')"
  by simp

lemmas settles_intros = settles_pbind settles_expect settles_if settles_refl

lemma fuel_settles:
  "n \<le> m \<Longrightarrow> settles (decode_value n d s) (decode_value m d s) \<and> settles (decode_list n d s) (decode_list m d s)
    \<and> settles (list_loop n d s) (list_loop m d s) \<and> settles (decode_object n d s) (decode_object m d s)
    \<and> settles (object_loop n d s) (object_loop m d s)"
proof (induction n arbitrary: m d s)
  case (Suc n)
  then obtain k where m: "m = Suc k" "n \<le> k" by (cases m) auto
  note IH = Suc.IH [OF m(2), THEN conjunct1] Suc.IH [OF m(2), THEN conjunct2, THEN conjunct1]
    Suc.IH [OF m(2), THEN conjunct2, THEN conjunct2, THEN conjunct1]
    Suc.IH [OF m(2), THEN conjunct2, THEN conjunct2, THEN conjunct2, THEN conjunct1]
    Suc.IH [OF m(2), THEN conjunct2, THEN conjunct2, THEN conjunct2, THEN conjunct2]
  show ?case unfolding m(1) decode_value.simps decode_list.simps list_loop.simps decode_object.simps object_loop.simps
    by (intro conjI settles_intros IH)
qed simp

text \<open>C26: Loading returns for every text: with any amount of fuel from \<open>parse_fuel\<close> on, the parser
  ends with the same value, and that is the value \<open>load\<close> gives.\<close>

theorem load_terminates: "\<forall>n. parse_with (parse_fuel s + n) s = Some (load s)"
proof
  fix n
  have n: "parse_fuel s \<le> parse_fuel s + n" by simp
  have "decode_value (parse_fuel s) 0 (ws_skip s) \<noteq> Out"
    using parse_with_enough [of s "parse_fuel s"] by (auto simp: parse_with_def)
  then have "decode_value (parse_fuel s + n) 0 (ws_skip s) = decode_value (parse_fuel s) 0 (ws_skip s)"
    using fuel_settles [OF n, of 0 "ws_skip s"] by (auto simp: settles_def)
  then show "parse_with (parse_fuel s + n) s = Some (load s)"
    using parse_with_enough [of s "parse_fuel s"] by (auto simp: load_def parse_with_def split: pres.splits)
qed

text \<open>C28: Whatever order the sort leaves equal keys in, the binary search over the sorted members finds
  a member of the object with the key that is asked for when there is one, and nothing when there is
  none; with distinct keys it is the member of that key.\<close>

theorem member_found:
  assumes "mset ys = mset kvs" "sorted (map (\<lambda>kv. char_key (fst kv)) ys)"
  shows "(case find_sorted k ys of None \<Rightarrow> k \<notin> fst ` set kvs | Some v \<Rightarrow> (k, v) \<in> set kvs)
    \<and> (distinct (map fst kvs) \<longrightarrow> find_sorted k ys = map_of kvs k)"
  using assms by (rule find_in_sorted)

theorem member_found_witness:
  "find_sorted ''a'' [(''a'', RTrue), (''a'', RNull), (''b'', RFalse)] = Some RTrue
   \<and> (''a'', RTrue) \<in> set [(''b'', RFalse), (''a'', RNull), (''a'', RTrue)]"
proof -
  let ?ys = "[(''a'', RTrue), (''a'', RNull), (''b'', RFalse)]"
  have "find_sorted ''a'' ?ys = Some RTrue" by code_simp
  moreover have "mset ?ys = mset [(''b'', RFalse), (''a'', RNull), (''a'', RTrue)]" by simp
  moreover have "sorted (map (\<lambda>kv. char_key (fst kv)) ?ys)" by code_simp
  ultimately show ?thesis using member_found [of ?ys "[(''b'', RFalse), (''a'', RNull), (''a'', RTrue)]" "''a''"]
    by simp
qed

text \<open>C25: Printing a value, indented or not, and loading the text gives the value back, for every value
  without floating point numbers and functions whose nesting is within the limit of the parser.\<close>

theorem load_dump:
  assumes "exact v" "2 * nest v \<le> max_depth + 1" "is_json_ws sep"
  shows "load (dump_internal v i sep 0) = rv_of v"
  using assms by (rule load_dump_internal)

theorem load_dump_witness:
  "load (dump_internal (WObject [(''k'', WList [WSigned (- 7)])]) (Some 1) (CHR '' '') 0) = RObject [(''k'', RList [RNumber ''-7''])]"
proof -
  let ?v = "WObject [(''k'', WList [WSigned (- 7)])]"
  have "exact ?v" "2 * nest ?v \<le> max_depth + 1" "is_json_ws (CHR '' '')"
    "rv_of ?v = RObject [(''k'', RList [RNumber ''-7''])]" by code_simp+
  then show ?thesis using load_dump [of ?v "CHR '' ''" "Some 1"] by simp
qed

text \<open>C27: A document read from the text of a value with distinct keys and 64-bit integers, turned into
  a write value and printed again, reads as the same document up to the order of the members of its
  objects, whatever order the map of the write value has: every key, every text, every number and the
  order of every list are kept.\<close>

theorem edit_keeps_document:
  assumes "\<forall>xs. mset (ord xs) = mset xs" "editable v" "2 * nest v \<le> max_depth + 1"
  shows "\<exists>w. wv_of_rv ord ji jd (load (dump v)) = Inr w \<and> reordered (load (dump v)) (load (dump w))"
proof -
  have load: "load (dump u) = rv_of u" if "editable u" "nest u \<le> nest v" for u
    unfolding dump_def using that assms(3) editable_exact(1)
    by (intro load_dump_internal) (simp_all add: is_json_ws_def)
  show ?thesis using read_again(1) [of ord v ji jd] assms(1,2) load by fastforce
qed

theorem edit_keeps_document_witness:
  "\<exists>w. wv_of_rv rev 0 double_zero (load (dump (WObject [(''a'', WTrue), (''b'', WUnsigned 5)]))) = Inr w
     \<and> reordered (load (dump (WObject [(''a'', WTrue), (''b'', WUnsigned 5)]))) (load (dump w))"
proof -
  have "editable (WObject [(''a'', WTrue), (''b'', WUnsigned 5)])"
    "2 * nest (WObject [(''a'', WTrue), (''b'', WUnsigned 5)]) \<le> max_depth + 1" by code_simp+
  then show ?thesis by (intro edit_keeps_document) simp_all
qed

text \<open>C29: The buffer that \<open>dump\<close> reserves is long enough for a value without floating point numbers and
  functions when escaping makes each of its keys and strings at most half as long again: one byte more
  for a quote, a backslash or a control character with a letter, five for any other control character.
  For a text as a value this is exact: with more escapes than that the reserved buffer is too short.\<close>

theorem dump_buffer_fits:
  assumes "editable v" "roomy v"
  shows "length (dump v) \<le> estimate_length v
    \<and> (length (dump (WString s)) \<le> estimate_length (WString s)
       \<longleftrightarrow> 2 * (length (filter letter_escape s) + 5 * length (filter code_escape s)) \<le> length s)"
  using dump_fits(1) [OF assms] by (auto simp: dump_def dump_string_def length_escape)

theorem dump_buffer_fits_witness:
  "length (dump (WObject [([CHR ''k'', CHR 0x22], WString [CHR ''a'', CHR 0x0A])]))
     \<le> estimate_length (WObject [([CHR ''k'', CHR 0x22], WString [CHR ''a'', CHR 0x0A])])
   \<and> \<not> length (dump (WString [CHR 0x01])) \<le> estimate_length (WString [CHR 0x01])"
proof -
  let ?v = "WObject [([CHR ''k'', CHR 0x22], WString [CHR ''a'', CHR 0x0A])]"
  have "editable ?v" "roomy ?v" "\<not> letter_escape (CHR 0x01)" "code_escape (CHR 0x01)" by code_simp+
  then show ?thesis using dump_buffer_fits [of ?v "[CHR 0x01]"] by simp
qed

end
