(* ===== verification/Query.thy ===== *)
theory Query
  imports Prelude
begin

text \<open>
  Query strings (\<open>crow/query_string.h\<close>). \<open>query_string\<close> owns the text of a URL and a vector of
  pointers into it, one per key/value pair; values are decoded in the text itself. A pointer is an
  offset here and the text a list of bytes that is followed by the terminator, so that copying an
  object, which rebases the pointers, copies the record.
\<close>

subsection \<open>C strings\<close>

text \<open>Reading at or behind the end gives the terminator; \<open>cstr\<close> is the text a pointer stands for.\<close>

definition char_at :: "string \<Rightarrow> nat \<Rightarrow> char" where
  "char_at b i = (if i < length b then b ! i else nul)"

definition cstr :: "string \<Rightarrow> string" where
  "cstr s = takeWhile (\<lambda>c. c \<noteq> nul) s"

definition strcspn :: "string \<Rightarrow> string \<Rightarrow> nat" where
  "strcspn s reject = length (takeWhile (\<lambda>c. c \<noteq> nul \<and> c \<notin> set reject) s)"

definition first_char :: "string \<Rightarrow> char" where
  "first_char s = (case s of [] \<Rightarrow> nul | c # _ \<Rightarrow> c)"

subsection \<open>Comparing\<close>

definition qs_ishex :: "char \<Rightarrow> bool" where
  "qs_ishex c \<longleftrightarrow> is_digit c \<or> (65 \<le> byte c \<and> byte c \<le> 70) \<or> (97 \<le> byte c \<and> byte c \<le> 102)"

definition qs_hex2dec :: "char \<Rightarrow> nat" where
  "qs_hex2dec c =
     (if is_digit c then byte c - 48
      else if 65 \<le> byte c \<and> byte c \<le> 70 then byte c - 55
      else if 97 \<le> byte c \<and> byte c \<le> 102 then byte c - 87 else 0)"

definition qs_isqschr :: "char \<Rightarrow> bool" where
  "qs_isqschr c \<longleftrightarrow> \<not> (c = CHR ''='' \<or> c = CHR ''#'' \<or> c = CHR ''&'' \<or> c = nul)"

definition hex_pair :: "char \<Rightarrow> char \<Rightarrow> char" where
  "hex_pair u l = chr ((qs_hex2dec u * 16 + qs_hex2dec l) mod 256)"

text \<open>
  One turn of the loop of \<open>qs_strncmp\<close> on one of its texts: the decoded character and the text behind
  it. Behind a per cent sign two characters are always consumed, even the terminator.
\<close>

definition qs_next :: "string \<Rightarrow> char \<times> string" where
  "qs_next s =
     (let u = (if qs_isqschr (first_char s) then first_char s else nul);
          u = (if u = CHR ''+'' then CHR '' '' else u) in
      if u = CHR ''%'' then
        (let unyb = first_char (tl s); lnyb = first_char (tl (tl s)) in
         (if qs_ishex unyb \<and> qs_ishex lnyb then hex_pair unyb lnyb else nul, tl (tl (tl s))))
      else (u, tl s))"

fun qs_strncmp :: "string \<Rightarrow> string \<Rightarrow> nat \<Rightarrow> int" where
  "qs_strncmp s qs 0 = (if qs_isqschr (first_char qs) then - 1 else 0)"
| "qs_strncmp s qs (Suc n) =
     (case (qs_next s, qs_next qs) of
        ((u1, s'), (u2, qs')) \<Rightarrow>
          if u1 \<noteq> u2 then int (byte u1) - int (byte u2)
          else if u1 = nul then 0
          else qs_strncmp s' qs' n)"

subsection \<open>Parsing\<close>

text \<open>\<open>qs_decode\<close>: the text is decoded in place from \<open>p\<close> on; \<open>i\<close> is written, \<open>j\<close> is read.\<close>

function qs_decode_loop :: "string \<Rightarrow> nat \<Rightarrow> nat \<Rightarrow> nat \<Rightarrow> string \<times> nat" where
  "qs_decode_loop b p i j =
     (if \<not> qs_isqschr (char_at b (p + j)) then (b[p + i := nul], i)
      else if char_at b (p + j) = CHR ''+'' then qs_decode_loop (b[p + i := CHR '' '']) p (i + 1) (j + 1)
      else if char_at b (p + j) = CHR ''%'' then
        (if \<not> qs_ishex (char_at b (p + j + 1)) \<or> \<not> qs_ishex (char_at b (p + j + 2)) then (b[p + i := nul], i)
         else qs_decode_loop (b[p + i := hex_pair (char_at b (p + j + 1)) (char_at b (p + j + 2))]) p (i + 1) (j + 3))
      else qs_decode_loop (b[p + i := char_at b (p + j)]) p (i + 1) (j + 1))"
  by pat_completeness auto
termination
proof (relation "measure (\<lambda>(b, p, i, j). length b - (p + j))", goal_cases)
  case (2 b p i j)
  then have "p + j < length b" by (auto simp: char_at_def qs_isqschr_def split: if_splits)
  then show ?case by simp
next
  case (3 b p i j)
  then have "p + j < length b" by (auto simp: char_at_def qs_isqschr_def split: if_splits)
  then show ?case by simp
next
  case (4 b p i j)
  then have "p + j < length b" by (auto simp: char_at_def qs_isqschr_def split: if_splits)
  then show ?case by simp
qed simp

definition qs_decode :: "string \<Rightarrow> nat \<Rightarrow> string" where
  "qs_decode b p = fst (qs_decode_loop b p 0 0)"

text \<open>The first loop of \<open>qs_parse\<close>: the beginnings of at most \<open>n\<close> pairs.\<close>

fun kv_starts :: "nat \<Rightarrow> string \<Rightarrow> nat \<Rightarrow> nat list" where
  "kv_starts 0 b p = []"
| "kv_starts (Suc n) b p =
     (let j = strcspn (drop p b) ''&'' in
      if char_at b (p + j) = nul then [p] else p # kv_starts n b (p + j + 1))"

text \<open>The second: the value behind each of them is decoded; a pair without a value is cut off.\<close>

definition decode_pair :: "nat \<Rightarrow> string \<Rightarrow> string" where
  "decode_pair p b =
     (let q = p + strcspn (drop p b) ''=&#'' in
      if char_at b q = CHR ''&'' \<or> char_at b q = nul then b[q := nul] else qs_decode b (q + 1))"

definition qs_parse :: "string \<Rightarrow> nat \<Rightarrow> bool \<Rightarrow> string \<times> nat list" where
  "qs_parse b cap parse_url =
     (let q = (if parse_url then strcspn b ''?#'' else 0) in
      if parse_url \<and> char_at b q = nul then (b, [])
      else
        let kvs = kv_starts cap b (if parse_url then q + 1 else q)
        in (fold decode_pair kvs b, kvs))"

subsection \<open>Looking up\<close>

text \<open>\<open>qs_k2v\<close>: the \<open>k\<close>-th pair with the key; the result points at its value.\<close>

fun qs_k2v :: "string \<Rightarrow> string \<Rightarrow> nat list \<Rightarrow> nat \<Rightarrow> nat option" where
  "qs_k2v key b [] k = None"
| "qs_k2v key b (p # ps) k =
     (if qs_strncmp (cstr key) (drop p b) (length (cstr key)) = 0 then
        (let skip = strcspn (drop p b) ''='';
             skip = (if char_at b (p + skip) = CHR ''='' then skip + 1 else skip)
         in if k = 0 then Some (p + skip) else qs_k2v key b ps (k - 1))
      else qs_k2v key b ps k)"

text \<open>\<open>qs_dict_name2kv\<close>; \<open>k\<close> is an \<open>int\<close> and may become negative.\<close>

fun qs_dict_name2kv :: "string \<Rightarrow> string \<Rightarrow> nat list \<Rightarrow> int \<Rightarrow> (string \<times> string) option" where
  "qs_dict_name2kv name b [] k = None"
| "qs_dict_name2kv name b (p # ps) k =
     (let kv = cstr (drop p b) in
      if take (length (cstr name)) kv = cstr name then
        (let eq = strcspn kv ''=''; eq = (if char_at kv eq = CHR ''='' then eq + 1 else eq);
             op = strcspn kv ''[''; op = (if char_at kv op = CHR ''['' then op + 1 else op);
             cl = strcspn kv '']''
         in if op \<le> cl \<and> 0 < op \<and> 0 < cl \<and> k = 0
            then Some (take (cl - op) (drop op kv), drop eq kv)
            else qs_dict_name2kv name b ps (k - 1))
      else qs_dict_name2kv name b ps k)"
text \<open>
  \<open>qs_scanvalue\<close> reads an unparsed text. When no pair has the key it steps over the terminator of the
  last one, because \<open>strcspn(...) + 1\<close> does not look at what it skips. A destination of no length
  makes \<open>val_len - 1\<close> wrap; one that is too short is left without a terminator, so that what it held
  before is decoded along.
\<close>

datatype scan = Not_there | Value_at string | Outside

function scan_loop :: "string \<Rightarrow> string \<Rightarrow> nat \<Rightarrow> nat option" where
  "scan_loop key b p =
     (if length b < p then None
      else if char_at b p = CHR ''#'' \<or> char_at b p = nul then Some p
      else if qs_strncmp key (drop p b) (length key) = 0 then Some p
      else scan_loop key b (p + strcspn (drop p b) ''&'' + 1))"
  by pat_completeness auto
termination
  by (relation "measure (\<lambda>(key, b, p). Suc (length b) - p)") auto

definition qs_scanvalue :: "string \<Rightarrow> string \<Rightarrow> nat \<Rightarrow> string \<Rightarrow> scan" where
  "qs_scanvalue key qs val_len val =
     (let q = strcspn qs ''?''; p = (if char_at qs q = CHR ''?'' then q + 1 else 0) in
      case scan_loop (cstr key) qs p of
        None \<Rightarrow> Outside
      | Some p \<Rightarrow>
          if char_at qs p = nul then Not_there
          else
            let e = p + strcspn (drop p qs) ''=&#'' in
            if char_at qs e = CHR ''='' then
              if val_len = 0 then Outside else
              (let i = strcspn (drop (e + 1) qs) ''&=#'';
                   n = min (val_len - 1) (i + 1);
                   copied = take n (cstr (drop (e + 1) qs));
                   val' = copied @ replicate (n - length copied) nul @ drop n val
               in Value_at (cstr (qs_decode val' 0)))
            else Value_at (if 0 < val_len then [] else cstr val))"

subsection \<open>The class\<close>

record query_string =
  qs_url :: string
  kv_pairs :: "nat list"

definition max_key_value_pairs_count :: nat where
  "max_key_value_pairs_count = 256"

definition empty_query :: query_string where
  "empty_query = \<lparr>qs_url = [], kv_pairs = []\<rparr>"

definition make_query_string :: "string \<Rightarrow> bool \<Rightarrow> query_string" where
  "make_query_string params url =
     (if params = [] then empty_query
      else case qs_parse params max_key_value_pairs_count url of (b, kvs) \<Rightarrow> \<lparr>qs_url = b, kv_pairs = kvs\<rparr>)"

definition qs_clear :: "query_string \<Rightarrow> query_string" where
  "qs_clear q = \<lparr>qs_url = [], kv_pairs = []\<rparr>"

text \<open>The text of a pair, and of the value a pointer into the text stands for.\<close>

definition item_at :: "query_string \<Rightarrow> nat \<Rightarrow> string" where
  "item_at q p = cstr (drop p (qs_url q))"

definition qs_get :: "string \<Rightarrow> query_string \<Rightarrow> nat option" where
  "qs_get name q = qs_k2v name (qs_url q) (kv_pairs q) 0"

fun erase_first :: "(nat \<Rightarrow> bool) \<Rightarrow> nat list \<Rightarrow> nat list" where
  "erase_first P [] = []"
| "erase_first P (p # ps) = (if P p then ps else p # erase_first P ps)"

definition starts_with :: "string \<Rightarrow> string \<Rightarrow> bool" where
  "starts_with s t \<longleftrightarrow> take (length t) s = t"

definition qs_pop :: "string \<Rightarrow> query_string \<Rightarrow> nat option \<times> query_string" where
  "qs_pop name q =
     (case qs_get name q of
        None \<Rightarrow> (None, q)
      | Some v \<Rightarrow>
          (Some v, q\<lparr>kv_pairs := erase_first (\<lambda>p. starts_with (item_at q p) (name @ ''='')) (kv_pairs q)\<rparr>))"

lemma k2v_nth: "qs_k2v key b ps n = Some v \<Longrightarrow> n < length ps"
  by (induction ps arbitrary: n) (fastforce simp: Let_def split: if_splits)+

function get_list_from :: "string \<Rightarrow> query_string \<Rightarrow> nat \<Rightarrow> nat list" where
  "get_list_from key q count =
     (case qs_k2v key (qs_url q) (kv_pairs q) count of
        None \<Rightarrow> []
      | Some v \<Rightarrow> v # get_list_from key q (count + 1))"
  by pat_completeness auto
termination
  by (relation "measure (\<lambda>(key, q, count). length (kv_pairs q) - count)") (auto dest: k2v_nth)

definition get_list :: "string \<Rightarrow> bool \<Rightarrow> query_string \<Rightarrow> nat list" where
  "get_list name use_brackets q = get_list_from (name @ (if use_brackets then ''[]'' else [])) q 0"

definition pop_list :: "string \<Rightarrow> bool \<Rightarrow> query_string \<Rightarrow> nat list \<times> query_string" where
  "pop_list name use_brackets q =
     (let ret = get_list name use_brackets q in
      (ret,
       if ret = [] then q
       else q\<lparr>kv_pairs := filter (\<lambda>p. \<not> starts_with (item_at q p) (name @ (if use_brackets then ''[]='' else ''='')))
                (kv_pairs q)\<rparr>))"

lemma dict_nth: "qs_dict_name2kv name b ps n = Some kv \<Longrightarrow> 0 \<le> n \<and> n < int (length ps)"
proof (induction ps arbitrary: n)
  case (Cons p ps)
  then show ?case by (fastforce simp: Let_def split: if_splits)
qed simp

text \<open>\<open>unordered_map::insert\<close> keeps the value a key already has.\<close>

function get_dict_from :: "string \<Rightarrow> query_string \<Rightarrow> nat \<Rightarrow> (string \<rightharpoonup> string) \<Rightarrow> string \<rightharpoonup> string" where
  "get_dict_from name q count ret =
     (case qs_dict_name2kv name (qs_url q) (kv_pairs q) (int count) of
        None \<Rightarrow> ret
      | Some (k, v) \<Rightarrow> get_dict_from name q (count + 1) (if ret k = None then ret(k \<mapsto> v) else ret))"
  by pat_completeness auto
termination
  by (relation "measure (\<lambda>(name, q, count, ret). length (kv_pairs q) - count)") (auto dest: dict_nth)

definition get_dict :: "string \<Rightarrow> query_string \<Rightarrow> string \<rightharpoonup> string" where
  "get_dict name q = get_dict_from name q 0 Map.empty"

definition dict_found :: "string \<Rightarrow> query_string \<Rightarrow> bool" where
  "dict_found name q \<longleftrightarrow> qs_dict_name2kv name (qs_url q) (kv_pairs q) 0 \<noteq> None"

definition pop_dict :: "string \<Rightarrow> query_string \<Rightarrow> (string \<rightharpoonup> string) \<times> query_string" where
  "pop_dict name q =
     (get_dict name q,
      if dict_found name q
      then q\<lparr>kv_pairs := filter (\<lambda>p. \<not> starts_with (item_at q p) (name @ ''['')) (kv_pairs q)\<rparr>
      else q)"

definition qs_keys :: "query_string \<Rightarrow> string list" where
  "qs_keys q = map (\<lambda>p. takeWhile (\<lambda>c. c \<noteq> CHR ''='') (item_at q p)) (kv_pairs q)"

fun join_items :: "string list \<Rightarrow> string" where
  "join_items [] = []"
| "join_items [x] = x"
| "join_items (x # y # xs) = x @ '', '' @ join_items (y # xs)"

text \<open>\<open>operator<<\<close>\<close>

definition show_query :: "query_string \<Rightarrow> string" where
  "show_query q = ''[ '' @ join_items (map (item_at q) (kv_pairs q)) @ '' ]''"

subsection \<open>Decoding in place\<close>

declare qs_decode_loop.simps [simp del] get_list_from.simps [simp del] get_dict_from.simps [simp del]
  scan_loop.simps [simp del]

text \<open>What the loop writes, as a function of the text it reads.\<close>

function decoded :: "string \<Rightarrow> string" where
  "decoded s =
     (if \<not> qs_isqschr (first_char s) then []
      else if first_char s = CHR ''+'' then CHR '' '' # decoded (tl s)
      else if first_char s = CHR ''%'' then
        (if \<not> qs_ishex (first_char (tl s)) \<or> \<not> qs_ishex (first_char (tl (tl s))) then []
         else hex_pair (first_char (tl s)) (first_char (tl (tl s))) # decoded (drop 3 s))
      else first_char s # decoded (tl s))"
  by pat_completeness auto
termination
  by (relation "measure length") (auto simp: first_char_def qs_isqschr_def split: list.splits)

declare decoded.simps [simp del]

lemma qs_nul [simp]: "\<not> qs_isqschr nul" and hex_nul [simp]: "\<not> qs_ishex nul"
  by (simp_all add: qs_isqschr_def qs_ishex_def is_digit_def byte_def)

lemma first_drop: "first_char (drop n b) = char_at b n"
  by (cases "n < length b") (auto simp: first_char_def char_at_def Cons_nth_drop_Suc [symmetric])

lemma tl_drop1: "tl (drop n b) = drop (n + 1) b"
  by (simp add: drop_Suc flip: tl_drop)

lemma char_at_isqs: "qs_isqschr (char_at b n) \<Longrightarrow> n < length b"
  by (auto simp: char_at_def split: if_splits)

lemma char_at_hex: "qs_ishex (char_at b n) \<Longrightarrow> n < length b"
  by (auto simp: char_at_def split: if_splits)

lemma decoded_drop:
  "decoded (drop n b) =
     (if \<not> qs_isqschr (char_at b n) then []
      else if char_at b n = CHR ''+'' then CHR '' '' # decoded (drop (n + 1) b)
      else if char_at b n = CHR ''%'' then
        (if \<not> qs_ishex (char_at b (n + 1)) \<or> \<not> qs_ishex (char_at b (n + 2)) then []
         else hex_pair (char_at b (n + 1)) (char_at b (n + 2)) # decoded (drop (n + 3) b))
      else char_at b n # decoded (drop (n + 1) b))"
  by (subst decoded.simps) (simp add: first_drop tl_drop1 drop_drop add.commute)

lemma first_char_simps [simp]: "first_char [] = nul" "first_char (c # r) = c"
  by (simp_all add: first_char_def)

lemma length_decoded: "length (decoded s) \<le> length s"
proof (induction s rule: decoded.induct)
  case (1 s)
  show ?case
  proof (cases s)
    case Nil
    then show ?thesis by (subst decoded.simps) simp
  next
    case (Cons c r)
    have "drop 3 s = drop 2 r" "2 \<le> length r" if "qs_ishex (first_char (tl r))"
      using that by (cases r; cases "tl r"; simp add: Cons numeral_3_eq_3 numeral_2_eq_2)+
    then show ?thesis using 1 unfolding Cons by (subst decoded.simps) (fastforce split: if_splits)
  qed
qed

lemma update_ahead: "i \<le> j \<Longrightarrow> n > j \<Longrightarrow> drop n (b[i := c]) = drop n b"
  by simp

text \<open>The loop writes behind what it has still to read.\<close>

lemma decode_loop_decoded:
  "i \<le> j \<Longrightarrow> p + j \<le> length b \<Longrightarrow>
   qs_decode_loop b p i j =
     ((take (p + i) b @ decoded (drop (p + j) b) @ drop (p + i + length (decoded (drop (p + j) b))) b)
        [p + i + length (decoded (drop (p + j) b)) := nul], i + length (decoded (drop (p + j) b)))"
proof (induction b p i j rule: qs_decode_loop.induct)
  case (1 b p i j)
  have wr: "(take (p + (i + 1)) (b[p + i := c]) @ d @ drop (p + (i + 1) + length d) (b[p + i := c]))
      = take (p + i) b @ (c # d) @ drop (p + i + length (c # d)) b"
    if "p + i < length b" for c d
    using that by (simp add: take_Suc_conv_app_nth take_update_cancel)
  note unfold = qs_decode_loop.simps [of b p i j] decoded_drop [of "p + j" b]
  show ?case
  proof (cases "qs_isqschr (char_at b (p + j))")
    case False
    then show ?thesis by (simp add: unfold)
  next
    case qs: True
    then have lt: "p + j < length b" by (rule char_at_isqs)
    then have li: "p + i < length b" using 1(4) by simp
    show ?thesis
    proof (cases "char_at b (p + j) = CHR ''+''")
      case True
      then show ?thesis using 1(1) [OF _ True] 1(4) qs lt li wr [of "CHR '' ''"]
        by (simp add: unfold) 
    next
      case np: False
      show ?thesis
      proof (cases "char_at b (p + j) = CHR ''%''")
        case True
        then show ?thesis using 1(2) [OF _ np True] 1(4) qs lt li wr np char_at_hex [of b "p + j + 2"]
          by (auto simp: unfold add.assoc)
      next
        case False
        then show ?thesis using 1(3) [OF _ np False] 1(4) qs lt li wr [of "char_at b (p + j)"] np
          by (simp add: unfold)
      qed
    qed
  qed
qed

subsection \<open>The pairs of a text\<close>

definition ends_here :: "string \<Rightarrow> bool" where
  "ends_here rest \<longleftrightarrow> rest = [] \<or> hd rest = CHR ''&''"

lemma amp_facts [simp]: "\<not> qs_isqschr (CHR ''&'')" "\<not> qs_ishex (CHR ''&'')"
  by (simp_all add: qs_isqschr_def qs_ishex_def is_digit_def byte_def)

lemma decoded_append: "ends_here rest \<Longrightarrow> decoded (t @ rest) = decoded t"
proof (induction t rule: decoded.induct)
  case (1 s)
  have e: "\<not> qs_isqschr (first_char rest)" "\<not> qs_ishex (first_char rest)"
    using 1(4) by (auto simp: ends_here_def first_char_def split: list.splits)
  show ?case
  proof (cases s)
    case Nil
    then show ?thesis using e by (simp add: decoded.simps [of rest] decoded.simps [of "[]"])
  next
    case (Cons c r)
    have i: "qs_isqschr c \<Longrightarrow> c = CHR ''+'' \<Longrightarrow> decoded (r @ rest) = decoded r"
      "qs_isqschr c \<Longrightarrow> c \<noteq> CHR ''+'' \<Longrightarrow> c = CHR ''%'' \<Longrightarrow> qs_ishex (first_char r) \<Longrightarrow> qs_ishex (first_char (tl r)) \<Longrightarrow>
         decoded (drop 3 (c # r) @ rest) = decoded (drop 3 (c # r))"
      "qs_isqschr c \<Longrightarrow> c \<noteq> CHR ''+'' \<Longrightarrow> c \<noteq> CHR ''%'' \<Longrightarrow> decoded (r @ rest) = decoded r"
      using 1 by (simp_all add: Cons)
    note u = decoded.simps [of "c # r @ rest"] decoded.simps [of "c # r"]
    consider "\<not> qs_isqschr c" | "qs_isqschr c" "c = CHR ''+''" | "qs_isqschr c" "c \<noteq> CHR ''+''" "c \<noteq> CHR ''%''"
      | "qs_isqschr c" "c = CHR ''%''" "\<not> qs_ishex (first_char r)"
      | "qs_isqschr c" "c = CHR ''%''" "qs_ishex (first_char r)" "\<not> qs_ishex (first_char (tl r))"
      | "qs_isqschr c" "c = CHR ''%''" "qs_ishex (first_char r)" "qs_ishex (first_char (tl r))" by blast
    then have "decoded (c # r @ rest) = decoded (c # r)"
    proof cases
      case 6
      then obtain h1 h2 r3 where r: "r = h1 # h2 # r3" by (cases r; cases "tl r") auto
      have "decoded (r3 @ rest) = decoded r3" using 6 i(2) by (simp add: r)
      then show ?thesis using 6 by (subst u(1), subst u(2)) (simp add: r)
    next
      case 5
      then obtain h1 r' where r: "r = h1 # r'" by (cases r) auto
      have "\<not> qs_ishex (first_char (r' @ rest))" using 5 e(2) by (cases r') (simp_all add: r)
      then show ?thesis using 5 by (subst u(1), subst u(2)) (simp add: r)
    next
      case 4
      have "\<not> qs_ishex (first_char (r @ rest))" using 4 e(2) by (cases r) simp_all
      then show ?thesis using 4 by (subst u(1), subst u(2)) simp
    next
      case 3
      then show ?thesis using i(3) by (subst u(1), subst u(2)) simp
    next
      case 2
      then show ?thesis using i(1) by (subst u(1), subst u(2)) simp
    next
      case 1
      then show ?thesis by (subst u(1), subst u(2)) simp
    qed
    then show ?thesis by (simp add: Cons)
  qed
qed

definition item_key :: "string \<Rightarrow> string" where
  "item_key seg = takeWhile (\<lambda>c. c \<noteq> CHR ''='' \<and> c \<noteq> CHR ''#'') seg"

text \<open>The text a pair has after parsing.\<close>

definition item_of :: "string \<Rightarrow> string" where
  "item_of seg =
     (case drop (length (item_key seg)) seg of
        [] \<Rightarrow> seg
      | d # t \<Rightarrow> item_key seg @ d # cstr (decoded t))"

fun join_amp :: "string list \<Rightarrow> string" where
  "join_amp [] = []"
| "join_amp [x] = x"
| "join_amp (x # y # xs) = x @ CHR ''&'' # join_amp (y # xs)"

fun starts_of :: "nat \<Rightarrow> string list \<Rightarrow> nat list" where
  "starts_of p [] = []"
| "starts_of p (x # xs) = p # starts_of (p + length x + 1) xs"

definition pure_seg :: "string \<Rightarrow> bool" where
  "pure_seg x \<longleftrightarrow> CHR ''&'' \<notin> set x \<and> nul \<notin> set x"

lemma join_amp_Cons: "join_amp (x # xs) = x @ (if xs = [] then [] else CHR ''&'' # join_amp xs)"
  by (cases xs) simp_all

lemma takeWhile_run: "(\<forall>c \<in> set x. P c) \<Longrightarrow> rest = [] \<or> \<not> P (hd rest) \<Longrightarrow> takeWhile P (x @ rest) = x"
  by (cases rest) auto

lemma takeWhile_all: "(\<forall>c \<in> set x. P c) \<Longrightarrow> takeWhile P x = x"
  by (simp add: takeWhile_eq_all_conv)

lemma char_at_append: "length u = n \<Longrightarrow> char_at (u @ v) n = first_char v"
  by (cases v) (auto simp: char_at_def nth_append)

lemma char_at_drop: "char_at (drop p b) j = char_at b (p + j)"
  by (auto simp: char_at_def)

lemma kv_starts_join:
  "list_all pure_seg (x # xs) \<Longrightarrow> drop p b = join_amp (x # xs) \<Longrightarrow>
   kv_starts n b p = take n (starts_of p (x # xs))"
proof (induction xs arbitrary: n p x)
  case Nil
  have "strcspn (drop p b) ''&'' = length x"
    unfolding strcspn_def Nil.prems(2) join_amp.simps
    by (subst takeWhile_all) (use Nil.prems(1) in \<open>auto simp: pure_seg_def\<close>)
  moreover have "char_at b (p + length x) = nul"
    using char_at_append [of x "length x" "[]"] char_at_drop [of p b "length x"] Nil by simp
  ultimately show ?case by (cases n) simp_all
next
  case (Cons y ys)
  let ?r = "CHR ''&'' # join_amp (y # ys)"
  have d: "drop p b = x @ ?r" using Cons.prems(2) by simp
  have "strcspn (drop p b) ''&'' = length x"
    unfolding d strcspn_def using Cons.prems(1) by (subst takeWhile_run) (auto simp: pure_seg_def)
  moreover have "char_at b (p + length x) = CHR ''&''"
    using char_at_append [of x "length x" ?r] char_at_drop [of p b "length x"] d by simp
  moreover have "drop (p + length x + 1) b = join_amp (y # ys)"
    using arg_cong [OF d, of "drop (length x + 1)"] by (simp add: add.commute add.left_commute)
  then have "kv_starts m b (p + length x + 1) = take m (starts_of (p + length x + 1) (y # ys))" for m
    using Cons.IH [of y "p + length x + 1" m] Cons.prems(1) by simp
  ultimately show ?case by (cases n) (simp_all add: Let_def)
qed

lemma cstr_append_nul: "nul \<in> set x \<Longrightarrow> cstr (x @ y) = cstr x"
  by (simp add: cstr_def)

lemma cstr_pure: "nul \<notin> set x \<Longrightarrow> cstr x = x"
  by (auto simp: cstr_def takeWhile_eq_all_conv)

text \<open>Decoding one pair writes nothing outside it, and ends it with a terminator.\<close>

lemma decode_pair_local:
  assumes "pure_seg seg" "drop p b = seg @ rest" "ends_here rest" "p \<le> length b"
  shows "\<exists>x. decode_pair p b = take p b @ x @ drop 1 rest \<and> cstr x = item_of seg
    \<and> length x = length seg + (if rest = [] then 0 else 1) \<and> (rest \<noteq> [] \<longrightarrow> nul \<in> set x)"
proof -
  let ?k = "item_key seg"
  define sr where "sr = dropWhile (\<lambda>c. c \<noteq> CHR ''='' \<and> c \<noteq> CHR ''#'') seg"
  have sr: "seg = ?k @ sr" unfolding item_key_def sr_def by simp
  have srd: "drop (length ?k) seg = sr" by (subst sr) simp
  have sr1: "sr = [] \<or> hd sr = CHR ''='' \<or> hd sr = CHR ''#''"
    using hd_dropWhile [of "\<lambda>c. c \<noteq> CHR ''='' \<and> c \<noteq> CHR ''#''" seg] unfolding sr_def by blast
  have kset: "\<forall>c \<in> set ?k. c \<noteq> nul \<and> c \<notin> set ''=&#''"
    using assms(1) sr set_takeWhileD unfolding item_key_def pure_seg_def by (fastforce dest: set_takeWhileD)
  have b: "b = take p b @ ?k @ sr @ rest" using assms(2) sr by (metis append.assoc append_take_drop_id)
  have len: "length (take p b) = p" using assms(4) by simp
  have "strcspn (drop p b) ''=&#'' = length ?k"
    unfolding assms(2) strcspn_def by (subst sr, subst append_assoc, subst takeWhile_run)
      (use kset sr1 assms(3) in \<open>auto simp: ends_here_def hd_append\<close>)
  then have q: "p + strcspn (drop p b) ''=&#'' = p + length ?k" by simp
  have at: "char_at b (p + length ?k) = first_char (sr @ rest)"
    by (subst b, subst append_assoc [symmetric], rule char_at_append) (simp add: min_absorb2 assms(4))
  show ?thesis
  proof (cases sr)
    case Nil
    then have seg: "item_of seg = seg" by (simp add: item_of_def srd)
    have r: "first_char rest = CHR ''&'' \<or> first_char rest = nul" using assms(3) by (cases rest) (auto simp: ends_here_def)
    have "decode_pair p b = b[p + length ?k := nul]"
      using at r Nil by (auto simp: decode_pair_def Let_def q)
    also have "\<dots> = take p b @ ?k @ (sr @ rest)[0 := nul]"
      by (subst b) (simp add: list_update_append min_absorb2 assms(4))
    finally have d: "decode_pair p b = take p b @ seg @ rest[0 := nul]" using sr Nil by simp
    show ?thesis
    proof (cases rest)
      case Nil
      then show ?thesis using d seg assms(1) by (auto simp: pure_seg_def cstr_pure)
    next
      case (Cons a r')
      have "cstr (seg @ [nul]) = seg" unfolding cstr_def by (subst takeWhile_run) (use assms(1) in \<open>auto simp: pure_seg_def\<close>)
      then show ?thesis using d seg Cons by (intro exI [of _ "seg @ [nul]"]) simp
    qed
  next
    case (Cons e t)
    let ?D = "decoded t"
    have e: "e = CHR ''='' \<or> e = CHR ''#''" using sr1 Cons by simp
    have "drop (p + length ?k + 1) b = t @ rest" by (subst b) (simp add: min_absorb2 assms(4) Cons)
    then have D: "decoded (drop (p + length ?k + 1) b) = ?D" using decoded_append [OF assms(3)] by simp
    have "length b = length (take p b) + length (?k @ sr @ rest)" by (subst b) (simp only: length_append)
    then have fits: "p + length ?k + 1 \<le> length b" unfolding len Cons by simp
    have "decode_pair p b = qs_decode b (p + length ?k + 1)" using at e Cons by (auto simp: decode_pair_def Let_def q)
    also have "\<dots> = (take (p + length ?k + 1) b @ ?D @ drop (p + length ?k + 1 + length ?D) b)[p + length ?k + 1 + length ?D := nul]"
      using decode_loop_decoded [of 0 0 "p + length ?k + 1" b] fits D by (simp add: qs_decode_def)
    finally have d: "decode_pair p b = \<dots>" .
    have "take (p + length ?k + 1) b = take p b @ ?k @ [e]"
      by (subst b) (simp add: Cons min_absorb2 assms(4))
    moreover have "drop (p + length ?k + 1 + length ?D) b = drop (length ?D) t @ rest"
      using arg_cong [OF \<open>drop (p + length ?k + 1) b = t @ rest\<close>, of "drop (length ?D)"] length_decoded [of t]
      by (simp add: add.commute add.left_commute)
    ultimately have d: "decode_pair p b = take p b @ ?k @ e # ?D @ (drop (length ?D) t @ rest)[0 := nul]"
      unfolding d by (simp add: list_update_append min_absorb2 assms(4))
    have item: "item_of seg = ?k @ e # cstr ?D" by (simp add: item_of_def srd Cons)
    have kn: "nul \<notin> set (?k @ [e])" using kset e by auto
    have c: "cstr ((?k @ [e]) @ y) = (?k @ [e]) @ cstr y" for y
      using kn unfolding cstr_def by (subst takeWhile_append2) auto
    have lseg: "length seg = length ?k + 1 + length t" using sr Cons by (metis One_nat_def add.assoc length_append list.size(4) plus_1_eq_Suc add.commute)
    show ?thesis
    proof (cases "drop (length ?D) t")
      case Nil
      then have lD: "length ?D = length t" using length_decoded [of t] by simp
      show ?thesis
      proof (cases rest)
        case Nil
        then show ?thesis using d item c [of ?D] lD lseg \<open>drop (length ?D) t = []\<close>
          by (intro exI [of _ "?k @ e # ?D"]) simp
      next
        case (Cons a r')
        have "cstr (?k @ e # ?D @ [nul]) = ?k @ e # cstr ?D"
          using c [of "?D @ [nul]"] by (auto simp: cstr_def takeWhile_tail)
        then show ?thesis using d item lD lseg Cons \<open>drop (length ?D) t = []\<close>
          by (intro exI [of _ "?k @ e # ?D @ [nul]"]) simp
      qed
    next
      case (Cons a t')
      have "cstr (?k @ e # ?D @ nul # t' @ take 1 rest) = ?k @ e # cstr ?D"
        using c [of "?D @ nul # t' @ take 1 rest"] by (auto simp: cstr_def takeWhile_tail)
      moreover have "length ?D + Suc (length t') = length t" using Cons length_drop [of "length ?D" t] length_decoded [of t] by simp
      moreover have "decode_pair p b = take p b @ (?k @ e # ?D @ nul # t' @ take 1 rest) @ drop 1 rest"
        unfolding d Cons by (cases rest) simp_all
      moreover have "length (take 1 rest) = (if rest = [] then 0 else 1)" by (cases rest) simp_all
      ultimately show ?thesis unfolding item
        by (intro exI [of _ "?k @ e # ?D @ nul # t' @ take 1 rest"] conjI) (simp_all only: lseg length_append list.size, simp_all)
    qed
  qed
qed

text \<open>Decoding the first \<open>n\<close> pairs one after the other.\<close>

lemma length_starts [simp]: "length (starts_of p xs) = length xs"
  by (induction xs arbitrary: p) simp_all

lemma decode_pairs:
  "list_all pure_seg segs \<Longrightarrow> drop p b = join_amp segs \<Longrightarrow> p \<le> length b \<Longrightarrow>
   (let b' = fold decode_pair (take n (starts_of p segs)) b in
     take p b' = take p b \<and> p \<le> length b' \<and>
     (\<forall>i < min n (length segs). cstr (drop (starts_of p segs ! i) b') = item_of (segs ! i)))"
proof (induction segs arbitrary: p b n)
  case (Cons s segs)
  show ?case
  proof (cases n)
    case (Suc m)
    define rest where "rest = (if segs = [] then [] else CHR ''&'' # join_amp segs)"
    have s: "pure_seg s" "list_all pure_seg segs" using Cons.prems(1) by simp_all
    have dr: "drop p b = s @ rest" using Cons.prems(2) by (simp add: rest_def join_amp_Cons)
    have "ends_here rest" by (simp add: rest_def ends_here_def)
    then obtain x where x: "decode_pair p b = take p b @ x @ drop 1 rest" "cstr x = item_of s"
        "length x = length s + (if rest = [] then 0 else 1)" "rest \<noteq> [] \<longrightarrow> nul \<in> set x"
      using decode_pair_local [OF s(1) dr _ Cons.prems(3)] by blast
    let ?b1 = "decode_pair p b" and ?p1 = "p + length s + 1"
    show ?thesis
    proof (cases "segs = []")
      case True
      then have "?b1 = take p b @ x" using x(1) by (simp add: rest_def)
      then show ?thesis using x(2) Cons.prems(3) True Suc by (simp add: Let_def min_absorb2)
    next
      case False
      have r: "rest = CHR ''&'' # join_amp segs" using False by (simp add: rest_def)
      have lx: "length x = length s + 1" using x(3) r by simp
      have d1: "drop ?p1 ?b1 = join_amp segs" "?p1 \<le> length ?b1" "take ?p1 ?b1 = take p b @ x"
        unfolding x(1) using Cons.prems(3) lx r by (simp_all add: min_absorb2)
      define b' where "b' = fold decode_pair (take m (starts_of ?p1 segs)) ?b1"
      have IH: "take ?p1 b' = take p b @ x" "?p1 \<le> length b'"
          "\<forall>i < min m (length segs). cstr (drop (starts_of ?p1 segs ! i) b') = item_of (segs ! i)"
        using Cons.IH [OF s(2) d1(1,2), of m] d1(3) unfolding Let_def b'_def by simp_all
      have b': "b' = take p b @ x @ drop ?p1 b'" using IH(1) by (metis append.assoc append_take_drop_id)
      have p1: "take p b' = take p b" by (subst b') (simp add: min_absorb2 Cons.prems(3))
      have p2: "drop p b' = x @ drop ?p1 b'" by (subst b') (simp add: min_absorb2 Cons.prems(3))
      have "cstr (drop p b') = item_of s" unfolding p2 using x(2,4) r by (simp add: cstr_append_nul)
      then have "\<forall>i < min n (length (s # segs)). cstr (drop (starts_of p (s # segs) ! i) b') = item_of ((s # segs) ! i)"
        using IH(3) Suc by (auto simp: less_Suc_eq_0_disj)
      moreover have "fold decode_pair (take n (starts_of p (s # segs))) b = b'" by (simp add: Suc b'_def)
      ultimately show ?thesis using p1 IH(2) by (simp add: Let_def)
    qed
  qed (use Cons.prems in simp)
qed simp

text \<open>The items of the query string of a URL.\<close>

lemma strcspn_stop: "(\<forall>c \<in> set path. c \<noteq> nul \<and> c \<notin> set r) \<Longrightarrow> rest = [] \<or> hd rest = nul \<or> hd rest \<in> set r \<Longrightarrow>
    strcspn (path @ rest) r = length path"
  unfolding strcspn_def by (subst takeWhile_run) auto

lemma items_of_url:
  assumes "\<forall>c \<in> set path. c \<noteq> nul \<and> c \<notin> set ''?#''" "list_all pure_seg segs" "segs \<noteq> []"
  shows "map (item_at (make_query_string (path @ CHR ''?'' # join_amp segs) True)) (kv_pairs (make_query_string (path @ CHR ''?'' # join_amp segs) True))
    = map item_of (take 256 segs)"
proof -
  let ?b = "path @ CHR ''?'' # join_amp segs" and ?p = "length path + 1"
  have q: "strcspn ?b ''?#'' = length path" by (rule strcspn_stop [OF assms(1)]) simp
  have a: "char_at ?b (length path) = CHR ''?''" by (simp add: char_at_append)
  have d: "drop ?p ?b = join_amp segs" "?p \<le> length ?b" by simp_all
  have k: "kv_starts 256 ?b ?p = take 256 (starts_of ?p segs)"
    using kv_starts_join [of "hd segs" "tl segs" ?p ?b 256] assms(2,3) d(1) by simp
  define b' where "b' = fold decode_pair (take 256 (starts_of ?p segs)) ?b"
  have m: "make_query_string ?b True = \<lparr>qs_url = b', kv_pairs = take 256 (starts_of ?p segs)\<rparr>"
    using q a k by (simp add: make_query_string_def qs_parse_def Let_def max_key_value_pairs_count_def b'_def)
  have "\<forall>i < min 256 (length segs). cstr (drop (starts_of ?p segs ! i) b') = item_of (segs ! i)"
    using decode_pairs [OF assms(2) d, of 256] unfolding Let_def b'_def by simp
  then show ?thesis unfolding m by (auto simp: item_at_def list_eq_iff_nth_eq)
qed

subsection \<open>Lookups see the items only\<close>

lemma first_cstr [simp]: "first_char (cstr s) = first_char s"
  by (cases s) (simp_all add: cstr_def)

lemma tl_cstr: "first_char s \<noteq> nul \<Longrightarrow> tl (cstr s) = cstr (tl s)"
  by (cases s) (auto simp: cstr_def first_char_def)

lemma hex_not_nul: "qs_ishex c \<Longrightarrow> c \<noteq> nul"
  by auto

lemma next_cstr:
  "fst (qs_next (cstr q)) = fst (qs_next q) \<and>
   (fst (qs_next q) \<noteq> nul \<longrightarrow> snd (qs_next (cstr q)) = cstr (snd (qs_next q)))"
proof (cases "first_char q = nul")
  case False
  note t = tl_cstr [OF False]
  show ?thesis
  proof (cases "first_char (tl q) = nul")
    case True
    then show ?thesis using t by (simp add: qs_next_def Let_def)
  next
    case False
    note t2 = tl_cstr [OF False]
    show ?thesis
    proof (cases "first_char (tl (tl q)) = nul")
      case True
      then show ?thesis using t t2 by (simp add: qs_next_def Let_def)
    next
      case False
      then show ?thesis using t t2 tl_cstr [OF False] by (simp add: qs_next_def Let_def)
    qed
  qed
qed (simp add: qs_next_def Let_def)

lemma strncmp_cstr: "qs_strncmp s (cstr q) n = qs_strncmp s q n"
proof (induction n arbitrary: s q)
  case (Suc n)
  show ?case using next_cstr [of q] Suc
    by (cases "qs_next s"; cases "qs_next q"; cases "qs_next (cstr q)") auto
qed simp

definition skip_key :: "string \<Rightarrow> nat" where
  "skip_key it = (let k = strcspn it ''='' in if char_at it k = CHR ''='' then k + 1 else k)"

definition matches :: "string \<Rightarrow> string \<Rightarrow> bool" where
  "matches key it \<longleftrightarrow> qs_strncmp (cstr key) it (length (cstr key)) = 0"

definition values_of :: "string \<Rightarrow> string \<Rightarrow> nat list \<Rightarrow> nat list" where
  "values_of key b ps = map (\<lambda>p. p + skip_key (drop p b)) (filter (\<lambda>p. matches key (drop p b)) ps)"

lemma k2v_values: "qs_k2v key b ps n = (if n < length (values_of key b ps) then Some (values_of key b ps ! n) else None)"
  by (induction ps arbitrary: n)
    (auto simp: values_of_def matches_def skip_key_def Let_def char_at_drop nth_Cons split: nat.splits)

lemma get_values: "qs_get name q = (case values_of name (qs_url q) (kv_pairs q) of [] \<Rightarrow> None | v # _ \<Rightarrow> Some v)"
  by (simp add: qs_get_def k2v_values split: list.split)

lemma get_list_values: "get_list_from key q n = drop n (values_of key (qs_url q) (kv_pairs q))"
proof (induction "length (values_of key (qs_url q) (kv_pairs q)) - n" arbitrary: n)
  case 0
  then show ?case by (subst get_list_from.simps) (simp add: k2v_values)
next
  case (Suc m)
  then have n: "n < length (values_of key (qs_url q) (kv_pairs q))" by simp
  have "get_list_from key q (n + 1) = drop (n + 1) (values_of key (qs_url q) (kv_pairs q))"
    using Suc(2) by (intro Suc(1)) simp
  then show ?case using n by (subst get_list_from.simps) (simp add: k2v_values Cons_nth_drop_Suc)
qed

lemma strcspn_cstr [simp]: "strcspn (cstr s) r = strcspn s r"
  by (simp add: strcspn_def cstr_def takeWhile_takeWhile conj_commute) (metis (no_types, lifting))

lemma cstr_split:
  obtains r where "s = cstr s @ r" "r = [] \<or> hd r = nul" "nul \<notin> set (cstr s)"
proof
  show "s = cstr s @ dropWhile (\<lambda>c. c \<noteq> nul) s" by (simp add: cstr_def)
  show "dropWhile (\<lambda>c. c \<noteq> nul) s = [] \<or> hd (dropWhile (\<lambda>c. c \<noteq> nul) s) = nul"
    using hd_dropWhile [of "\<lambda>c. c \<noteq> nul" s] by blast
  show "nul \<notin> set (cstr s)" unfolding cstr_def by (auto dest: set_takeWhileD)
qed

lemma strcspn_le: "strcspn s r \<le> length (cstr s)"
  unfolding strcspn_cstr [of s r, symmetric] by (simp add: strcspn_def length_takeWhile_le)

lemma char_at_cstr:
  assumes "n \<le> length (cstr s)" shows "char_at (cstr s) n = char_at s n"
proof -
  obtain r where r: "s = cstr s @ r" "r = [] \<or> hd r = nul" by (rule cstr_split)
  have "first_char r = nul" using r(2) by (cases r) auto
  then have "char_at (cstr s @ r) n = char_at (cstr s) n"
    using assms char_at_append [of "cstr s" n r] by (cases "n = length (cstr s)") (auto simp: char_at_def nth_append)
  then show ?thesis using r(1) by simp
qed

lemma cstr_drop:
  assumes "n \<le> length (cstr s)" shows "cstr (drop n s) = drop n (cstr s)"
proof -
  obtain r where r: "s = cstr s @ r" "r = [] \<or> hd r = nul" "nul \<notin> set (cstr s)" by (rule cstr_split)
  have "drop n (cstr s @ r) = drop n (cstr s) @ r" using assms by simp
  moreover have "takeWhile (\<lambda>c. c \<noteq> nul) (drop n (cstr s) @ r) = drop n (cstr s)"
    by (rule takeWhile_run) (use r in \<open>auto dest: in_set_dropD\<close>)
  ultimately show ?thesis using r(1) by (metis cstr_def)
qed

lemma skip_key_cstr: "skip_key (cstr s) = skip_key s"
  by (simp add: skip_key_def Let_def char_at_cstr strcspn_le)

lemma skip_key_le: "skip_key s \<le> length (cstr s)"
proof (cases "char_at (cstr s) (strcspn s ''='') = CHR ''=''")
  case True
  then have "strcspn s ''='' < length (cstr s)" by (auto simp: char_at_def split: if_splits)
  then show ?thesis using strcspn_le [of s "''=''"] by (simp add: skip_key_def Let_def)
qed (use strcspn_le [of s "''=''"] char_at_cstr [of "strcspn s ''=''" s] in \<open>simp add: skip_key_def Let_def\<close>)

lemma values_items:
  "map (item_at q) (values_of key (qs_url q) ps) = map (\<lambda>it. drop (skip_key it) it) (filter (matches key) (map (item_at q) ps))"
proof -
  have "matches key (drop p b) = matches key (cstr (drop p b))" for p b by (simp add: matches_def strncmp_cstr)
  moreover have "cstr (drop (p + skip_key (drop p b)) b) = drop (skip_key (cstr (drop p b))) (cstr (drop p b))" for p b
    using cstr_drop [OF skip_key_le, of "drop p b"] by (simp add: skip_key_cstr add.commute)
  ultimately show ?thesis by (simp add: values_of_def item_at_def filter_map comp_def)
qed


subsection \<open>What a form sends is what the handler reads\<close>

text \<open>The encoding of a value: letters and digits as they are, every other byte with a per cent sign.\<close>

definition hex_digit :: "nat \<Rightarrow> char" where
  "hex_digit n = (if n < 10 then chr (48 + n) else chr (55 + n))"

definition encode_byte :: "char \<Rightarrow> string" where
  "encode_byte c =
     (if is_digit c \<or> (65 \<le> byte c \<and> byte c \<le> 90) \<or> (97 \<le> byte c \<and> byte c \<le> 122) then [c]
      else [CHR ''%'', hex_digit (byte c div 16), hex_digit (byte c mod 16)])"

definition percent_encode :: "string \<Rightarrow> string" where
  "percent_encode v = concat (map encode_byte v)"

definition pair_text :: "string \<times> string \<Rightarrow> string" where
  "pair_text kv = fst kv @ CHR ''='' # percent_encode (snd kv)"

definition plain_key :: "string \<Rightarrow> bool" where
  "plain_key k \<longleftrightarrow> (\<forall>c \<in> set k. qs_isqschr c \<and> c \<noteq> CHR ''+'' \<and> c \<noteq> CHR ''%'')"

definition query_url :: "string \<Rightarrow> (string \<times> string) list \<Rightarrow> string" where
  "query_url path kvs = path @ CHR ''?'' # join_amp (map pair_text kvs)"

lemma byte_div16: "byte c div 16 < 16"
  using byte_less [of c] by (simp add: less_mult_imp_div_less)

lemma hex_digit_hex: "n < 16 \<Longrightarrow> qs_ishex (hex_digit n) \<and> qs_hex2dec (hex_digit n) = n"
  by (auto simp: hex_digit_def qs_ishex_def qs_hex2dec_def is_digit_def)

lemma hex_pair_digits: "hex_pair (hex_digit (byte c div 16)) (hex_digit (byte c mod 16)) = c"
proof -
  have "byte c div 16 < 16" by (rule byte_div16)
  then show ?thesis using hex_digit_hex [of "byte c div 16"] hex_digit_hex [of "byte c mod 16"]
    by (simp add: hex_pair_def)
qed

lemma byte_ne: "byte c \<noteq> byte d \<Longrightarrow> c \<noteq> d"
  by auto

lemma alnum_plain:
  assumes "is_digit c \<or> (65 \<le> byte c \<and> byte c \<le> 90) \<or> (97 \<le> byte c \<and> byte c \<le> 122)"
  shows "qs_isqschr c" "c \<noteq> CHR ''+''" "c \<noteq> CHR ''%''" "c \<noteq> CHR ''&''" "c \<noteq> nul"
  using assms by (auto simp: qs_isqschr_def is_digit_def byte_def)

lemma hex_plain: "qs_ishex c \<Longrightarrow> c \<noteq> CHR ''&'' \<and> c \<noteq> nul"
  by auto

lemma decoded_encode_byte: "decoded (encode_byte c @ t) = c # decoded t"
proof (cases "is_digit c \<or> (65 \<le> byte c \<and> byte c \<le> 90) \<or> (97 \<le> byte c \<and> byte c \<le> 122)")
  case True
  then show ?thesis using alnum_plain [OF True] by (subst decoded.simps) (simp add: encode_byte_def)
next
  case False
  have "byte c div 16 < 16" by (rule byte_div16)
  then have h: "qs_ishex (hex_digit (byte c div 16))" "qs_ishex (hex_digit (byte c mod 16))"
    using hex_digit_hex by simp_all
  have "qs_isqschr (CHR ''%'')" by (simp add: qs_isqschr_def)
  moreover have "encode_byte c = [CHR ''%'', hex_digit (byte c div 16), hex_digit (byte c mod 16)]"
    using False unfolding encode_byte_def by (rule if_not_P)
  ultimately show ?thesis using h hex_pair_digits [of c]
    by (subst decoded.simps) (simp add: numeral_3_eq_3)
qed

lemma decoded_encode: "decoded (percent_encode v) = v"
proof (induction v)
  case Nil
  show ?case by (subst decoded.simps) (simp add: percent_encode_def)
qed (simp add: percent_encode_def decoded_encode_byte)

lemma encode_pure: "c \<in> set (percent_encode v) \<Longrightarrow> c \<noteq> CHR ''&'' \<and> c \<noteq> nul"
proof -
  assume "c \<in> set (percent_encode v)"
  then obtain d where d: "c \<in> set (encode_byte d)" by (auto simp: percent_encode_def)
  have "byte d div 16 < 16" by (rule byte_div16)
  then have "qs_ishex (hex_digit (byte d div 16))" "qs_ishex (hex_digit (byte d mod 16))" using hex_digit_hex by simp_all
  then show ?thesis using d hex_plain alnum_plain(4,5) [of d] by (auto simp: encode_byte_def split: if_splits)
qed

lemma plain_key_chars: "plain_key k \<Longrightarrow> c \<in> set k \<Longrightarrow>
    c \<noteq> CHR ''='' \<and> c \<noteq> CHR ''#'' \<and> c \<noteq> CHR ''&'' \<and> c \<noteq> nul \<and> c \<noteq> CHR ''+'' \<and> c \<noteq> CHR ''%''"
  by (auto simp: plain_key_def qs_isqschr_def)

lemma pair_pure: "plain_key (fst kv) \<Longrightarrow> pure_seg (pair_text kv)"
  unfolding pair_text_def pure_seg_def by (auto dest: plain_key_chars encode_pure)

lemma item_of_pair:
  assumes "plain_key k" "nul \<notin> set v" shows "item_of (pair_text (k, v)) = k @ CHR ''='' # v"
proof -
  have "item_key (pair_text (k, v)) = k"
    unfolding item_key_def pair_text_def fst_conv by (rule takeWhile_run) (auto dest: plain_key_chars [OF assms(1)])
  then show ?thesis using assms(2) by (simp add: item_of_def pair_text_def decoded_encode cstr_pure)
qed

lemma next_plain: "plain_key (c # s) \<Longrightarrow> qs_next ((c # s) @ r) = (c, s @ r)"
  by (simp add: plain_key_def qs_next_def Let_def)

lemma next_equals: "fst (qs_next (CHR ''='' # r)) = nul"
  by (simp add: qs_next_def Let_def qs_isqschr_def)

lemma strncmp_plain: "plain_key s \<Longrightarrow> plain_key k \<Longrightarrow> qs_strncmp s (k @ CHR ''='' # r) (length s) = 0 \<longleftrightarrow> s = k"
proof (induction s arbitrary: k)
  case Nil
  then show ?case by (cases k) (simp_all add: plain_key_def qs_isqschr_def)
next
  case (Cons c s)
  have c: "c \<noteq> nul" using plain_key_chars [OF Cons.prems(1), of c] by simp
  have ps: "plain_key s" using Cons.prems(1) by (simp add: plain_key_def)
  have n: "qs_next (c # s) = (c, s)" using next_plain [OF Cons.prems(1), of "[]"] by simp
  show ?case
  proof (cases k)
    case Nil
    obtain u r' where u: "qs_next (CHR ''='' # r) = (u, r')" by force
    then have "u = nul" using next_equals [of r] by simp
    moreover have "byte c \<noteq> byte nul" using c byte_eq_iff by blast
    ultimately show ?thesis using n u Nil c by simp
  next
    case (Cons d k')
    have "qs_next (k @ CHR ''='' # r) = (d, k' @ CHR ''='' # r)" "plain_key k'"
      using next_plain [of d k' "CHR ''='' # r"] Cons.prems(2) Cons by (auto simp: plain_key_def)
    then have "qs_strncmp (c # s) (k @ CHR ''='' # r) (length (c # s)) =
        (if c \<noteq> d then int (byte c) - int (byte d) else qs_strncmp s (k' @ CHR ''='' # r) (length s))"
      using n c by simp
    moreover have "byte c = byte d \<longleftrightarrow> c = d" by (rule byte_eq_iff)
    ultimately show ?thesis using Cons Cons.IH [OF ps \<open>plain_key k'\<close>] by (simp split: if_splits)
  qed
qed

lemma matches_pair:
  assumes "plain_key s" "plain_key k" shows "matches s (k @ CHR ''='' # v) \<longleftrightarrow> s = k"
proof -
  have "cstr s = s" by (rule cstr_pure) (auto dest: plain_key_chars [OF assms(1)])
  then show ?thesis using strncmp_plain [OF assms] by (simp add: matches_def)
qed

lemma skip_pair: "plain_key k \<Longrightarrow> drop (skip_key (k @ CHR ''='' # v)) (k @ CHR ''='' # v) = v"
proof -
  assume k: "plain_key k"
  have "strcspn (k @ CHR ''='' # v) ''='' = length k"
    by (rule strcspn_stop) (auto dest: plain_key_chars [OF k])
  moreover have "char_at (k @ CHR ''='' # v) (length k) = CHR ''=''" by (simp add: char_at_append)
  ultimately show ?thesis by (simp add: skip_key_def Let_def)
qed

lemma items_of_query:
  assumes "\<forall>c \<in> set path. c \<noteq> nul \<and> c \<notin> set ''?#''" "\<forall>(k, v) \<in> set kvs. plain_key k \<and> nul \<notin> set v"
    and "kvs \<noteq> []" "length kvs \<le> 256"
  shows "map (item_at (make_query_string (query_url path kvs) True)) (kv_pairs (make_query_string (query_url path kvs) True))
    = map (\<lambda>(k, v). k @ CHR ''='' # v) kvs"
proof -
  have "list_all pure_seg (map pair_text kvs)" using assms(2) pair_pure by (auto simp: list_all_iff)
  from items_of_url [OF assms(1) this] assms(3,4)
  have "map (item_at (make_query_string (query_url path kvs) True)) (kv_pairs (make_query_string (query_url path kvs) True))
    = map item_of (map pair_text kvs)"
    by (simp add: query_url_def)
  also have "\<dots> = map (\<lambda>(k, v). k @ CHR ''='' # v) kvs" using assms(2) item_of_pair by (auto)
  finally show ?thesis .
qed

text \<open>C33: What a client sends in a query is what the handler reads: for at most 256 pairs with plain keys
  and percent-encoded values without zero bytes, the item found under a name is the first value sent
  with it, the list under a name holds all of them in order, and the keys are those that were sent.\<close>

theorem query_round_trip:
  assumes "\<forall>c \<in> set path. c \<noteq> nul \<and> c \<notin> set ''?#''" "\<forall>(k, v) \<in> set kvs. plain_key k \<and> nul \<notin> set v"
    and "kvs \<noteq> []" "length kvs \<le> 256" "plain_key name" "q = make_query_string (query_url path kvs) True"
  shows "map_option (item_at q) (qs_get name q) = map_of kvs name
    \<and> map (item_at q) (get_list name False q) = map snd (filter (\<lambda>kv. fst kv = name) kvs)
    \<and> qs_keys q = map fst kvs"
proof -
  have items: "map (item_at q) (kv_pairs q) = map (\<lambda>(k, v). k @ CHR ''='' # v) kvs"
    unfolding assms(6) by (rule items_of_query [OF assms(1-4)])
  have "filter (matches name) (map (\<lambda>(k, v). k @ CHR ''='' # v) kvs) = map (\<lambda>(k, v). k @ CHR ''='' # v) (filter (\<lambda>kv. fst kv = name) kvs)"
    using assms(2,5) matches_pair by (induction kvs) auto
  then have vals: "map (item_at q) (values_of name (qs_url q) (kv_pairs q)) = map snd (filter (\<lambda>kv. fst kv = name) kvs)"
    unfolding values_items items using assms(2) skip_pair by (auto split: prod.splits)
  have "map_of kvs name = (case map snd (filter (\<lambda>kv. fst kv = name) kvs) of [] \<Rightarrow> None | v # _ \<Rightarrow> Some v)"
    by (induction kvs) auto
  then have get: "map_option (item_at q) (qs_get name q) = map_of kvs name"
    unfolding get_values vals [symmetric] by (auto split: list.splits)
  have "takeWhile (\<lambda>c. c \<noteq> CHR ''='') (k @ CHR ''='' # v) = k" if "plain_key k" for k v
    by (rule takeWhile_run) (auto dest: plain_key_chars [OF that])
  then have "map (takeWhile (\<lambda>c. c \<noteq> CHR ''='')) (map (item_at q) (kv_pairs q)) = map fst kvs"
    unfolding items using assms(2) by auto
  then have "qs_keys q = map fst kvs" by (simp add: qs_keys_def comp_def)
  then show ?thesis using get vals by (simp add: get_list_def get_list_values)
qed

theorem query_round_trip_witness:
  "let q = make_query_string (query_url ''/items'' [(''q'', ''a&b''), (''p'', ''1''), (''q'', [])]) True in
   map_option (item_at q) (qs_get ''q'' q) = Some ''a&b'' \<and> map (item_at q) (get_list ''q'' False q) = [''a&b'', []]"
proof -
  have "\<forall>c \<in> set ''/items''. c \<noteq> nul \<and> c \<notin> set ''?#''" "plain_key ''q''" "plain_key ''p''"
    by (simp_all add: plain_key_def qs_isqschr_def)
  then show ?thesis
    using query_round_trip [of "''/items''" "[(''q'', ''a&b''), (''p'', ''1''), (''q'', [])]" "''q''"] by (simp add: Let_def)
qed

subsection \<open>Corners\<close>

text \<open>
  \<open>pop\<close> removes the first pair whose raw text starts with the name and an equals sign, which need not be
  the pair whose value it returns; a missing key makes \<open>qs_scanvalue\<close> read behind the terminator.
\<close>

lemma pop_removes_other:
  "let q = make_query_string ''/?a&a=1'' True in
   map_option (item_at q) (fst (qs_pop ''a'' q)) = Some [] \<and> map (item_at q) (kv_pairs (snd (qs_pop ''a'' q))) = [''a'']"
  by code_simp

lemma scanvalue_leaves_text: "qs_scanvalue ''b'' ''/?a=1'' 8 val = Outside"
  by code_simp

lemma short_destination: "qs_scanvalue ''a'' ''a=123'' 3 ''xxxx'' = Value_at ''12xx''"
  by code_simp

text \<open>The fragment of a URL is read as part of the query.\<close>

lemma fragment_is_read: "map_option (item_at q) (qs_get ''c'' q) = Some ''3''" if "q = make_query_string ''/?a=1#b&c=3'' True"
  unfolding that by code_simp

end
