(* ===== verification/Http.thy ===== *)
theory Http
  imports Numtext Query "HOL-Library.Multiset"
begin

text \<open>
  The HTTP vocabulary of the framework: methods and status codes (\<open>crow/common.h\<close>), the
  case-insensitive header map (\<open>crow/ci_map.h\<close>, \<open>utility::string_equals\<close>), requests
  (\<open>crow/http_request.h\<close>) and responses (\<open>crow/http_response.h\<close>).

  A header map is an \<open>unordered_multimap\<close>: the model is the list of its entries.
\<close>

subsection \<open>Methods\<close>

datatype http_method =
    Delete | Get | Head | Post | Put
  | Connect | Options | Trace
  | Patch | Purge
  | Copy | Lock | MkCol | Move | Propfind | Proppatch | Search | Unlock | Bind | Rebind | Unbind | Acl
  | Report | MkActivity | Checkout | Merge
  | MSearch | Notify | Subscribe | Unsubscribe
  | MkCalendar
  | Link | Unlink
  | Source
  | InternalMethodCount

definition http_methods :: "http_method list" where
  "http_methods =
     [Delete, Get, Head, Post, Put, Connect, Options, Trace, Patch, Purge,
      Copy, Lock, MkCol, Move, Propfind, Proppatch, Search, Unlock, Bind, Rebind, Unbind, Acl,
      Report, MkActivity, Checkout, Merge, MSearch, Notify, Subscribe, Unsubscribe,
      MkCalendar, Link, Unlink, Source, InternalMethodCount]"

definition method_index :: "http_method \<Rightarrow> nat" where
  "method_index m = length (takeWhile (\<lambda>x. x \<noteq> m) http_methods)"

definition method_strings :: "string list" where
  "method_strings =
     [''DELETE'', ''GET'', ''HEAD'', ''POST'', ''PUT'', ''CONNECT'', ''OPTIONS'', ''TRACE'', ''PATCH'', ''PURGE'',
      ''COPY'', ''LOCK'', ''MKCOL'', ''MOVE'', ''PROPFIND'', ''PROPPATCH'', ''SEARCH'', ''UNLOCK'', ''BIND'', ''REBIND'', ''UNBIND'', ''ACL'',
      ''REPORT'', ''MKACTIVITY'', ''CHECKOUT'', ''MERGE'', ''M-SEARCH'', ''NOTIFY'', ''SUBSCRIBE'', ''UNSUBSCRIBE'',
      ''MKCALENDAR'', ''LINK'', ''UNLINK'', ''SOURCE'']"

definition method_name :: "http_method \<Rightarrow> string" where
  "method_name m =
     (if method_index m < method_index InternalMethodCount then method_strings ! method_index m
      else ''invalid'')"

text \<open>\<open>black_magic::is_equ_p\<close>, on NUL-terminated strings given without their terminator.\<close>

fun is_equ_p :: "string \<Rightarrow> string \<Rightarrow> nat \<Rightarrow> bool" where
  "is_equ_p [] [] 0 = True"
| "is_equ_p [] b n = False"
| "is_equ_p a [] n = False"
| "is_equ_p a b 0 = True"
| "is_equ_p (x # a) (y # b) (Suc n) = (if x \<noteq> y then False else is_equ_p a b n)"

definition method_literals :: "(string \<times> http_method) list" where
  "method_literals =
     [(''GET'', Get), (''DELETE'', Delete), (''HEAD'', Head), (''POST'', Post), (''PUT'', Put),
      (''OPTIONS'', Options), (''CONNECT'', Connect), (''TRACE'', Trace),
      (''PATCH'', Patch), (''PURGE'', Purge), (''COPY'', Copy), (''LOCK'', Lock), (''MKCOL'', MkCol),
      (''MOVE'', Move), (''PROPFIND'', Propfind), (''PROPPATCH'', Proppatch), (''SEARCH'', Search),
      (''UNLOCK'', Unlock), (''BIND'', Bind), (''REBIND'', Rebind), (''UNBIND'', Unbind), (''ACL'', Acl),
      (''REPORT'', Report), (''MKACTIVITY'', MkActivity), (''CHECKOUT'', Checkout), (''MERGE'', Merge),
      (''MSEARCH'', MSearch), (''NOTIFY'', Notify), (''SUBSCRIBE'', Subscribe), (''UNSUBSCRIBE'', Unsubscribe),
      (''MKCALENDAR'', MkCalendar), (''LINK'', Link), (''UNLINK'', Unlink), (''SOURCE'', Source)]"

fun first_literal :: "string \<Rightarrow> (string \<times> http_method) list \<Rightarrow> http_method res" where
  "first_literal s [] = Inl ''invalid http method''"
| "first_literal s ((l, m) # ls) = (if is_equ_p s l (length l) then Inr m else first_literal s ls)"

definition method_from_string :: "string \<Rightarrow> http_method res" where
  "method_from_string s = first_literal s method_literals"

lemma is_equ_p_eq: "is_equ_p a b (length b) \<longleftrightarrow> a = b"
proof (induction b arbitrary: a)
  case Nil
  then show ?case by (cases a) simp_all
next
  case (Cons y b)
  then show ?case by (cases a) simp_all
qed

lemma first_literal_map_of:
  "first_literal s ls = (case map_of ls s of None \<Rightarrow> Inl ''invalid http method'' | Some m \<Rightarrow> Inr m)"
  by (induction s ls rule: first_literal.induct) (auto simp: is_equ_p_eq)

lemma method_from_string_map_of:
  "method_from_string s =
     (case map_of method_literals s of None \<Rightarrow> Inl ''invalid http method'' | Some m \<Rightarrow> Inr m)"
  by (simp add: method_from_string_def first_literal_map_of)

subsection \<open>Status codes\<close>

definition status_codes :: "nat list" where
  "status_codes =
     [100, 101, 200, 201, 202, 203, 204, 205, 206, 300, 301, 302, 303, 304, 307, 308,
      400, 401, 403, 404, 405, 406, 407, 409, 410, 413, 415, 416, 417, 428, 429, 451,
      500, 501, 502, 503, 504, 506]"

subsection \<open>Header maps\<close>

fun string_equals :: "bool \<Rightarrow> string \<Rightarrow> string \<Rightarrow> bool" where
  "string_equals cs l r =
     (length l = length r \<and>
      list_all2 (\<lambda>a b. if cs then a = b else to_upper a = to_upper b) l r)"

definition ci_key_eq :: "string \<Rightarrow> string \<Rightarrow> bool" where
  "ci_key_eq l r = string_equals False l r"

text \<open>\<open>ci_hash\<close> combines the hashes of the upper-cased characters; \<open>h\<close> is \<open>std::hash<char>\<close>.\<close>

definition hash_combine :: "(char \<Rightarrow> 64 word) \<Rightarrow> 64 word \<Rightarrow> char \<Rightarrow> 64 word" where
  "hash_combine h seed v = seed XOR (h v + 0x9e3779b9 + push_bit 6 seed + drop_bit 2 seed)"

definition ci_hash :: "(char \<Rightarrow> 64 word) \<Rightarrow> string \<Rightarrow> 64 word" where
  "ci_hash h key = fold (\<lambda>c seed. hash_combine h seed (to_upper c)) key 0"

text \<open>
  A \<open>std::unordered_multimap\<close> with these functions. The library leaves open in which order the elements are iterated
  and which of several elements with equal keys \<open>find\<close> returns; the list has them in the order of their insertion,
  and \<open>ci_find\<close> takes the oldest. \<open>ci_find_any_order\<close> shows that the choice does not matter where a key occurs at
  most once, and the properties about headers are stated on \<open>ci_values\<close>, all values of a key.
\<close>

type_synonym ci_map = "(string \<times> string) list"

definition ci_emplace :: "string \<Rightarrow> string \<Rightarrow> ci_map \<Rightarrow> ci_map" where
  "ci_emplace k v m = m @ [(k, v)]"

definition ci_erase :: "string \<Rightarrow> ci_map \<Rightarrow> ci_map" where
  "ci_erase k m = filter (\<lambda>(k', v). \<not> ci_key_eq k' k) m"

definition ci_find :: "string \<Rightarrow> ci_map \<Rightarrow> string option" where
  "ci_find k m = map_option snd (find (\<lambda>(k', v). ci_key_eq k' k) m)"

definition ci_count :: "string \<Rightarrow> ci_map \<Rightarrow> nat" where
  "ci_count k m = length (filter (\<lambda>(k', v). ci_key_eq k' k) m)"

definition get_header_value :: "ci_map \<Rightarrow> string \<Rightarrow> string" where
  "get_header_value m k = (case ci_find k m of Some v \<Rightarrow> v | None \<Rightarrow> [])"

definition ci_values :: "string \<Rightarrow> ci_map \<Rightarrow> string list" where
  "ci_values k m = map snd (filter (\<lambda>(k', v). ci_key_eq k' k) m)"

lemma ci_find_values: "ci_find k m = (case ci_values k m of [] \<Rightarrow> None | v # _ \<Rightarrow> Some v)"
  by (induction m) (auto simp: ci_find_def ci_values_def)

lemma ci_count_values: "ci_count k m = length (ci_values k m)"
  by (simp add: ci_count_def ci_values_def)

lemma ci_find_any_order:
  assumes "mset m' = mset m" "ci_count k m \<le> 1"
  shows "ci_find k m' = ci_find k m"
proof -
  have "mset (ci_values k m') = mset (ci_values k m)"
    using assms(1) by (simp add: ci_values_def mset_filter)
  then have "ci_values k m' = ci_values k m"
    using assms(2) by (cases "ci_values k m") (auto simp: ci_count_values le_Suc_eq)
  then show ?thesis by (simp add: ci_find_values)
qed

lemma ci_key_eq_map: "ci_key_eq l r \<longleftrightarrow> map to_upper l = map to_upper r"
  by (auto simp: ci_key_eq_def list_all2_conv_all_nth list_eq_iff_nth_eq)

lemma ci_key_eq_refl [simp]: "ci_key_eq k k"
  by (simp add: ci_key_eq_map)

lemma ci_key_eq_sym: "ci_key_eq l r \<longleftrightarrow> ci_key_eq r l"
  by (auto simp: ci_key_eq_map)

lemma ci_key_eq_trans: "ci_key_eq a b \<Longrightarrow> ci_key_eq b c \<Longrightarrow> ci_key_eq a c"
  by (simp add: ci_key_eq_map)

lemma ci_hash_map: "ci_hash h k = fold (\<lambda>c seed. hash_combine h seed c) (map to_upper k) 0"
  by (simp add: ci_hash_def fold_map comp_def)

lemma ci_hash_eq: "ci_key_eq l r \<Longrightarrow> ci_hash h l = ci_hash h r"
  by (simp add: ci_key_eq_map ci_hash_map)

text \<open>
  The contract of the header map: what lookup returns after an entry is added and after all
  entries of a name are erased.
\<close>

locale header_map =
  fixes emplace :: "string \<Rightarrow> string \<Rightarrow> 'm \<Rightarrow> 'm"
    and erase :: "string \<Rightarrow> 'm \<Rightarrow> 'm"
    and lookup :: "string \<Rightarrow> 'm \<Rightarrow> string option"
    and same :: "string \<Rightarrow> string \<Rightarrow> bool"
  assumes lookup_emplace: "lookup k (emplace k' v m) =
      (case lookup k m of Some w \<Rightarrow> Some w | None \<Rightarrow> if same k' k then Some v else None)"
    and lookup_erase: "lookup k (erase k' m) = (if same k k' then None else lookup k m)"
    and same_refl: "same k k"
    and same_sym: "same k k' \<Longrightarrow> same k' k"
begin

lemma lookup_set:
  "lookup k (emplace k' v (erase k' m)) = (if same k' k then Some v else lookup k m)"
  using same_sym by (auto simp: lookup_emplace lookup_erase split: option.split)

lemma lookup_set_same: "lookup k (emplace k v (erase k m)) = Some v"
  by (simp add: lookup_set same_refl)

end

lemma ci_find_erase: "ci_find k (ci_erase k' m) = (if ci_key_eq k k' then None else ci_find k m)"
proof (induction m)
  case (Cons kv m)
  obtain a b where kv: "kv = (a, b)" by force
  show ?case
  proof (cases "ci_key_eq a k")
    case True
    then have "ci_key_eq a k' \<longleftrightarrow> ci_key_eq k k'"
      by (auto simp: ci_key_eq_map)
    with True Cons kv show ?thesis by (simp add: ci_find_def ci_erase_def)
  next
    case False
    with Cons kv show ?thesis by (auto simp: ci_find_def ci_erase_def split: if_splits)
  qed
qed (simp add: ci_find_def ci_erase_def)

lemma find_append: "find P (xs @ ys) = (case find P xs of Some x \<Rightarrow> Some x | None \<Rightarrow> find P ys)"
  by (induction xs) auto

lemma ci_find_emplace:
  "ci_find k (ci_emplace k' v m) =
     (case ci_find k m of Some w \<Rightarrow> Some w | None \<Rightarrow> if ci_key_eq k' k then Some v else None)"
  by (auto simp: ci_find_def ci_emplace_def find_append split: option.split)

interpretation cim: header_map ci_emplace ci_erase ci_find ci_key_eq
  by unfold_locales (simp_all add: ci_find_emplace ci_find_erase ci_key_eq_map)

subsection \<open>Requests\<close>

record request =
  req_method :: http_method
  raw_url :: string
  url :: string
  url_params :: query_string
  req_headers :: ci_map
  req_body :: string
  http_ver_major :: nat
  http_ver_minor :: nat
  keep_alive :: bool
  close_connection :: bool
  upgrade :: bool

definition empty_request :: request where
  "empty_request =
     \<lparr>req_method = Get, raw_url = [], url = [], url_params = empty_query, req_headers = [], req_body = [],
      http_ver_major = 0, http_ver_minor = 0, keep_alive = False, close_connection = False, upgrade = False\<rparr>"

definition req_add_header :: "string \<Rightarrow> string \<Rightarrow> request \<Rightarrow> request" where
  "req_add_header k v r = r\<lparr>req_headers := ci_emplace k v (req_headers r)\<rparr>"

definition req_get_header_value :: "request \<Rightarrow> string \<Rightarrow> string" where
  "req_get_header_value r k = get_header_value (req_headers r) k"

definition get_body_params :: "request \<Rightarrow> query_string" where
  "get_body_params r = make_query_string (req_body r) False"

definition check_version :: "request \<Rightarrow> nat \<Rightarrow> nat \<Rightarrow> bool" where
  "check_version r major minor \<longleftrightarrow> http_ver_major r = major \<and> http_ver_minor r = minor"

subsection \<open>Responses\<close>

record response =
  code :: int
  body :: string
  headers :: ci_map
  skip_body :: bool
  manual_length_header :: bool
  completed :: bool
  file_path :: string

definition empty_response :: response where
  "empty_response =
     \<lparr>code = 200, body = [], headers = [], skip_body = False, manual_length_header = False,
      completed = False, file_path = []\<rparr>"

definition set_header :: "string \<Rightarrow> string \<Rightarrow> response \<Rightarrow> response" where
  "set_header k v r = r\<lparr>headers := ci_emplace k v (ci_erase k (headers r))\<rparr>"

definition add_header :: "string \<Rightarrow> string \<Rightarrow> response \<Rightarrow> response" where
  "add_header k v r = r\<lparr>headers := ci_emplace k v (headers r)\<rparr>"

definition res_get_header_value :: "response \<Rightarrow> string \<Rightarrow> string" where
  "res_get_header_value r k = get_header_value (headers r) k"

definition valid_parent_types :: "string list" where
  "valid_parent_types =
     [''application/'', ''audio/'', ''font/'', ''example/'', ''image/'', ''message/'', ''model/'',
      ''multipart/'', ''text/'', ''video/'']"

text \<open>\<open>strncmp\<close> compares C strings, so a NUL in the candidate ends it.\<close>

definition validate_mime_type :: "string \<Rightarrow> bool" where
  "validate_mime_type candidate \<longleftrightarrow>
     (\<exists>parent \<in> set valid_parent_types.
        length parent < length candidate \<and> take (length parent) candidate = parent)"

definition get_mime_type :: "(string \<times> string) list \<Rightarrow> string \<Rightarrow> string" where
  "get_mime_type mime_types ct =
     (case map_of mime_types ct of
        Some t \<Rightarrow> t
      | None \<Rightarrow> if validate_mime_type ct then ct else ''text/plain'')"

definition response_code :: "int \<Rightarrow> response" where
  "response_code c = empty_response\<lparr>code := c\<rparr>"

definition response_text :: "int \<Rightarrow> string \<Rightarrow> response" where
  "response_text c b = empty_response\<lparr>code := c, body := b\<rparr>"

text \<open>The constructors from a \<open>returnable\<close>, given its text and its content type.\<close>

definition response_returnable :: "int \<Rightarrow> string \<Rightarrow> string \<Rightarrow> response" where
  "response_returnable c b ct = set_header ''Content-Type'' ct (empty_response\<lparr>code := c, body := b\<rparr>)"

definition response_typed :: "(string \<times> string) list \<Rightarrow> int \<Rightarrow> string \<Rightarrow> string \<Rightarrow> response" where
  "response_typed mime_types c ct b =
     set_header ''Content-Type'' (get_mime_type mime_types ct) (empty_response\<lparr>code := c, body := b\<rparr>)"

text \<open>The move assignment takes neither \<open>skip_body\<close> nor \<open>manual_length_header\<close>.\<close>

definition response_move :: "response \<Rightarrow> response \<Rightarrow> response" where
  "response_move old r =
     old\<lparr>body := body r, code := code r, headers := headers r, completed := completed r, file_path := file_path r\<rparr>"

definition response_clear :: "response \<Rightarrow> response" where
  "response_clear r = r\<lparr>body := [], code := 200, headers := [], completed := False, file_path := []\<rparr>"

definition redirect :: "string \<Rightarrow> response \<Rightarrow> response" where
  "redirect loc r = set_header ''Location'' loc (r\<lparr>code := 307\<rparr>)"

definition redirect_perm :: "string \<Rightarrow> response \<Rightarrow> response" where
  "redirect_perm loc r = set_header ''Location'' loc (r\<lparr>code := 308\<rparr>)"

definition moved :: "string \<Rightarrow> response \<Rightarrow> response" where
  "moved loc r = set_header ''Location'' loc (r\<lparr>code := 302\<rparr>)"

definition moved_perm :: "string \<Rightarrow> response \<Rightarrow> response" where
  "moved_perm loc r = set_header ''Location'' loc (r\<lparr>code := 301\<rparr>)"

definition response_write :: "string \<Rightarrow> response \<Rightarrow> response" where
  "response_write part r = r\<lparr>body := body r @ part\<rparr>"

text \<open>
  \<open>end()\<close>: \<open>handler\<close> is \<open>complete_request_handler_\<close>, when one is set; it sees the completed
  response.
\<close>

definition response_end :: "(response \<Rightarrow> response) option \<Rightarrow> response \<Rightarrow> response" where
  "response_end handler r =
     (if completed r then r
      else
        let r1 = r\<lparr>completed := True\<rparr>;
            r2 = (if skip_body r1 then
                    (set_header ''Content-Length'' (dec_digits (length (body r1))) r1)
                      \<lparr>body := [], manual_length_header := True\<rparr>
                  else r1)
        in case handler of
             None \<Rightarrow> r2
           | Some h \<Rightarrow> (h r2)\<lparr>manual_length_header := False, skip_body := False\<rparr>)"

definition response_end_body :: "(response \<Rightarrow> response) option \<Rightarrow> string \<Rightarrow> response \<Rightarrow> response" where
  "response_end_body handler part r = response_end handler (response_write part r)"

lemma get_header_set:
  "res_get_header_value (set_header k v r) k' =
     (if ci_key_eq k k' then v else res_get_header_value r k')"
  by (simp add: res_get_header_value_def set_header_def get_header_value_def cim.lookup_set)

lemma response_end_idem:
  "(\<And>x. completed (h x) = completed x) \<Longrightarrow>
   response_end (Some h) (response_end (Some h) r) = response_end (Some h) r"
  by (auto simp: response_end_def Let_def set_header_def)

end
