(* ===== verification/HttpParser.thy ===== *)
theory HttpParser
  imports Http
begin

text \<open>
  The HTTP parser (\<open>crow/http_parser_merged.h\<close>) and the requests it builds (\<open>crow/parser.h\<close>).

  \<open>http_parser_execute\<close> is a loop over the bytes of a buffer with a \<open>switch\<close> on the state. The model has
  one definition per state; \<open>p\<close> is an offset into the buffer, and a mark is the offset it points to. \<open>goto
  reexecute\<close> is a call of the definition of the state that was set before it. The static settings are the
  callbacks of \<open>HTTPParser\<close>, all of which return 0, so the error codes for callbacks are never set.
\<close>

subsection \<open>States\<close>

datatype http_errno =
    CHPE_OK
  | CHPE_CB_message_begin | CHPE_CB_method | CHPE_CB_url | CHPE_CB_header_field | CHPE_CB_header_value
  | CHPE_CB_headers_complete | CHPE_CB_body | CHPE_CB_message_complete | CHPE_CB_status
  | CHPE_INVALID_EOF_STATE | CHPE_HEADER_OVERFLOW | CHPE_CLOSED_CONNECTION | CHPE_INVALID_VERSION
  | CHPE_INVALID_STATUS | CHPE_INVALID_METHOD | CHPE_INVALID_URL | CHPE_INVALID_HOST | CHPE_INVALID_PORT
  | CHPE_INVALID_PATH | CHPE_INVALID_QUERY_STRING | CHPE_INVALID_FRAGMENT | CHPE_LF_EXPECTED
  | CHPE_INVALID_HEADER_TOKEN | CHPE_INVALID_CONTENT_LENGTH | CHPE_UNEXPECTED_CONTENT_LENGTH
  | CHPE_INVALID_CHUNK_SIZE | CHPE_INVALID_CONSTANT | CHPE_INVALID_INTERNAL_STATE | CHPE_STRICT
  | CHPE_UNKNOWN | CHPE_INVALID_TRANSFER_ENCODING

datatype http_flag =
    F_CHUNKED | F_CONNECTION_KEEP_ALIVE | F_CONNECTION_CLOSE | F_TRAILING | F_UPGRADE | F_SKIPBODY | F_CONTENTLENGTH

datatype parser_state =
    S_dead | S_start_req
  | S_req_method | S_req_spaces_before_url | S_req_schema | S_req_schema_slash | S_req_schema_slash_slash
  | S_req_server_start | S_req_server | S_req_server_with_at | S_req_path | S_req_query_string_start
  | S_req_query_string | S_req_http_start | S_req_http_H | S_req_http_HT | S_req_http_HTT | S_req_http_HTTP
  | S_req_http_I | S_req_http_IC | S_req_http_major | S_req_http_dot | S_req_http_minor | S_req_http_end
  | S_req_line_almost_done
  | S_header_field_start | S_header_field | S_header_value_discard_ws | S_header_value_discard_ws_almost_done
  | S_header_value_discard_lws | S_header_value_start | S_header_value | S_header_value_lws
  | S_header_almost_done
  | S_chunk_size_start | S_chunk_size | S_chunk_parameters | S_chunk_size_almost_done
  | S_headers_almost_done | S_headers_done
  | S_chunk_data | S_chunk_data_almost_done | S_chunk_data_done
  | S_body_identity | S_body_identity_eof
  | S_message_done

text \<open>The states up to \<open>s_headers_done\<close> in the order of the enumeration.\<close>

fun parsing_header :: "parser_state \<Rightarrow> bool" where
  "parsing_header S_chunk_data = False"
| "parsing_header S_chunk_data_almost_done = False"
| "parsing_header S_chunk_data_done = False"
| "parsing_header S_body_identity = False"
| "parsing_header S_body_identity_eof = False"
| "parsing_header S_message_done = False"
| "parsing_header s = True"

datatype header_state =
    H_general | H_C | H_CO | H_CON
  | H_matching_connection | H_matching_proxy_connection | H_matching_content_length
  | H_matching_transfer_encoding | H_matching_upgrade
  | H_connection | H_content_length | H_content_length_num | H_content_length_ws | H_transfer_encoding | H_upgrade
  | H_matching_transfer_encoding_token_start | H_matching_transfer_encoding_chunked
  | H_matching_transfer_encoding_token
  | H_matching_connection_keep_alive | H_matching_connection_close
  | H_transfer_encoding_chunked | H_connection_keep_alive | H_connection_close

text \<open>
  \<open>HTTPParser\<close> extends \<open>http_parser\<close>; \<open>'c\<close> is the state of the connection behind \<open>handler_\<close>.
\<close>

record 'c http_parser =
  hp_flags :: "http_flag set"
  hp_state :: parser_state
  hp_header_state :: header_state
  hp_index :: nat
  uses_transfer_encoding :: bool
  allow_chunked_length :: bool
  lenient_http_headers :: bool
  hp_nread :: nat
  hp_content_length :: nat
  qs_point :: nat
  http_major :: nat
  http_minor :: nat
  hp_method :: http_method
  hp_errno :: http_errno
  hp_upgrade :: bool
  hp_req :: request
  header_building_state :: nat
  message_complete :: bool
  header_field :: string
  header_value :: string
  connection :: 'c

definition http_parser_init :: "'c \<Rightarrow> 'c http_parser" where
  "http_parser_init c =
     \<lparr>hp_flags = {}, hp_state = S_start_req, hp_header_state = H_general, hp_index = 0,
      uses_transfer_encoding = False, allow_chunked_length = False, lenient_http_headers = False,
      hp_nread = 0, hp_content_length = 0, qs_point = 0, http_major = 0, http_minor = 0, hp_method = Delete,
      hp_errno = CHPE_OK, hp_upgrade = False,
      hp_req = empty_request, header_building_state = 0, message_complete = False, header_field = [],
      header_value = [], connection = c\<rparr>"

definition max_header_size :: nat where "max_header_size = 80 * 1024"

definition ullong_max :: nat where "ullong_max = 2 ^ 64 - 1"

subsection \<open>Characters\<close>

abbreviation cr :: char where "cr \<equiv> CHR 0x0D"
abbreviation lf :: char where "lf \<equiv> CHR 0x0A"
abbreviation tab :: char where "tab \<equiv> CHR 0x09"

definition lower_char :: "char \<Rightarrow> char" where
  "lower_char c = chr (byte c OR 0x20)"

definition is_alpha_char :: "char \<Rightarrow> bool" where
  "is_alpha_char c \<longleftrightarrow> 97 \<le> byte (lower_char c) \<and> byte (lower_char c) \<le> 122"

definition is_userinfo_char :: "char \<Rightarrow> bool" where
  "is_userinfo_char c \<longleftrightarrow> is_alpha_char c \<or> is_digit c \<or> c \<in> set ''-_.!~*()%;:&=+$,'' \<or> c = CHR 0x27"

text \<open>The table \<open>tokens\<close>: letters in lower case, the other characters of a token, and 0 for the rest.\<close>

definition token :: "char \<Rightarrow> char" where
  "token c =
     (if 65 \<le> byte c \<and> byte c \<le> 90 then lower_char c
      else if 97 \<le> byte c \<and> byte c \<le> 122 then c
      else if is_digit c then c
      else if c \<in> set ''!#$%&*+-.^_`|~'' \<or> c = CHR 0x27 then c
      else nul)"

text \<open>The bitmap \<open>normal_url_char\<close>; its second half is not initialised explicitly, so it is 0.\<close>

definition is_url_char :: "char \<Rightarrow> bool" where
  "is_url_char c \<longleftrightarrow> 33 \<le> byte c \<and> byte c \<le> 126 \<and> c \<noteq> CHR ''#'' \<and> c \<noteq> CHR ''?''"

definition is_header_char :: "char \<Rightarrow> bool" where
  "is_header_char c \<longleftrightarrow> c = cr \<or> c = lf \<or> byte c = 9 \<or> (31 < byte c \<and> byte c \<noteq> 127)"

text \<open>
  The table \<open>unhex\<close>: only its first 128 entries are given, so the other 128 are 0 and not -1.
\<close>

definition unhex :: "char \<Rightarrow> int" where
  "unhex c =
     (if is_digit c then int (byte c) - 48
      else if 65 \<le> byte c \<and> byte c \<le> 70 then int (byte c) - 55
      else if 97 \<le> byte c \<and> byte c \<le> 102 then int (byte c) - 87
      else if 128 \<le> byte c then 0 else - 1)"

subsection \<open>The parts of a URL\<close>

text \<open>
  \<open>parse_url_char\<close>: the next state, and the new query point if there is one. \<open>mark\<close> is
  \<open>url_start_mark\<close>: it is null when the URL began in an earlier buffer, and then the difference of the
  pointers is the address of the character, \<open>addr\<close> being the address of the buffer.
\<close>

definition point_diff :: "nat \<Rightarrow> nat option \<Rightarrow> nat \<Rightarrow> nat" where
  "point_diff addr mark p = (case mark of Some m \<Rightarrow> p - m | None \<Rightarrow> addr + p)"

definition parse_url_char :: "nat \<Rightarrow> parser_state \<Rightarrow> char \<Rightarrow> nat option \<Rightarrow> nat \<Rightarrow> parser_state \<times> nat option" where
  "parse_url_char addr s ch mark p =
     (if ch = CHR '' '' \<or> ch = cr \<or> ch = lf then (S_dead, None)
      else if ch = tab \<or> ch = CHR 0x0C then (S_dead, None)
      else case s of
        S_req_spaces_before_url \<Rightarrow>
          if ch = CHR ''/'' \<or> ch = CHR ''*'' then (S_req_path, None)
          else if is_alpha_char ch then (S_req_schema, None) else (S_dead, None)
      | S_req_schema \<Rightarrow>
          if is_alpha_char ch then (s, None)
          else if ch = CHR '':'' then (S_req_schema_slash, None) else (S_dead, None)
      | S_req_schema_slash \<Rightarrow> if ch = CHR ''/'' then (S_req_schema_slash_slash, None) else (S_dead, None)
      | S_req_schema_slash_slash \<Rightarrow> if ch = CHR ''/'' then (S_req_server_start, None) else (S_dead, None)
      | S_req_path \<Rightarrow>
          if is_url_char ch then (s, None)
          else if ch = CHR ''?'' then (S_req_query_string_start, Some (point_diff addr mark p))
          else (S_dead, None)
      | S_req_query_string_start \<Rightarrow>
          if is_url_char ch then (S_req_query_string, None)
          else if ch = CHR ''?'' then (S_req_query_string, None) else (S_dead, None)
      | S_req_query_string \<Rightarrow>
          if is_url_char ch then (S_req_query_string, None)
          else if ch = CHR ''?'' then (S_req_query_string, None) else (S_dead, None)
      | _ \<Rightarrow>
          if s \<in> {S_req_server_start, S_req_server, S_req_server_with_at} then
            (if s = S_req_server_with_at \<and> ch = CHR ''@'' then (S_dead, None)
             else if ch = CHR ''/'' then (S_req_path, None)
             else if ch = CHR ''?'' then (S_req_query_string_start, Some (point_diff addr mark p))
             else if ch = CHR ''@'' then (S_req_server_with_at, None)
             else if is_userinfo_char ch \<or> ch = CHR ''['' \<or> ch = CHR '']'' then (S_req_server, None)
             else (S_dead, None))
          else (S_dead, None))"

subsection \<open>The callbacks\<close>

text \<open>
  The connection behind \<open>handler_\<close>: what \<open>handle_url\<close>, \<open>handle_header\<close> and \<open>handle\<close> make of the request
  and of the connection's own state, and the calls of \<open>parser_.done()\<close> and \<open>parser_.clear()\<close> they make.
\<close>

datatype parser_call = Call_done | Call_clear

record 'c handlers =
  handle_url :: "request \<Rightarrow> 'c \<Rightarrow> 'c \<times> parser_call list"
  handle_header :: "request \<Rightarrow> 'c \<Rightarrow> 'c \<times> parser_call list"
  handle_message :: "request \<Rightarrow> 'c \<Rightarrow> 'c \<times> parser_call list"

definition parser_clear :: "'c http_parser \<Rightarrow> 'c http_parser" where
  "parser_clear a =
     a\<lparr>hp_req := empty_request, header_field := [], header_value := [], header_building_state := 0,
       qs_point := 0, message_complete := False, hp_state := S_start_req\<rparr>"

text \<open>
  \<open>done()\<close> called by a handler, that is \<open>feed(nullptr, 0)\<close> inside \<open>http_parser_execute\<close>. No handler runs in
  \<open>s_body_identity_eof\<close>, the state in which the end of the input completes a message.
\<close>

definition nested_done :: "'c http_parser \<Rightarrow> 'c http_parser" where
  "nested_done a =
     (if message_complete a then a
      else if hp_errno a \<noteq> CHPE_OK then a
      else if hp_state a = S_body_identity_eof then a\<lparr>message_complete := True\<rparr>
      else if hp_state a = S_dead \<or> hp_state a = S_start_req then a
      else a\<lparr>hp_errno := CHPE_INVALID_EOF_STATE\<rparr>)"

fun run_calls :: "parser_call list \<Rightarrow> 'c http_parser \<Rightarrow> 'c http_parser" where
  "run_calls [] a = a"
| "run_calls (Call_done # cs) a = run_calls cs (nested_done a)"
| "run_calls (Call_clear # cs) a = run_calls cs (parser_clear a)"

definition run_handler :: "(request \<Rightarrow> 'c \<Rightarrow> 'c \<times> parser_call list) \<Rightarrow> 'c http_parser \<Rightarrow> 'c http_parser" where
  "run_handler h a = (case h (hp_req a) (connection a) of (c, calls) \<Rightarrow> run_calls calls (a\<lparr>connection := c\<rparr>))"

definition on_message_begin :: "'c http_parser \<Rightarrow> 'c http_parser" where
  "on_message_begin a = a"

definition on_method :: "'c http_parser \<Rightarrow> 'c http_parser" where
  "on_method a = a\<lparr>hp_req := (hp_req a)\<lparr>req_method := hp_method a\<rparr>\<rparr>"

definition on_url :: "'c handlers \<Rightarrow> string \<Rightarrow> 'c http_parser \<Rightarrow> 'c http_parser" where
  "on_url h s a =
     (let raw = raw_url (hp_req a) @ s;
          r = (hp_req a)\<lparr>raw_url := raw, url_params := make_query_string raw True,
                        url := (if qs_point a \<noteq> 0 then take (qs_point a) raw else raw)\<rparr>
      in run_handler (handle_url h) (a\<lparr>hp_req := r\<rparr>))"

text \<open>A string that has been moved from is empty.\<close>

definition emplace_header :: "'c http_parser \<Rightarrow> 'c http_parser" where
  "emplace_header a =
     a\<lparr>hp_req := req_add_header (header_field a) (header_value a) (hp_req a), header_field := [], header_value := []\<rparr>"

definition on_header_field :: "string \<Rightarrow> 'c http_parser \<Rightarrow> 'c http_parser" where
  "on_header_field s a =
     (if header_building_state a = 0 then
        (let b = (if header_value a \<noteq> [] then emplace_header a else a)
         in b\<lparr>header_field := s, header_building_state := 1\<rparr>)
      else if header_building_state a = 1 then a\<lparr>header_field := header_field a @ s\<rparr>
      else a)"

definition on_header_value :: "string \<Rightarrow> 'c http_parser \<Rightarrow> 'c http_parser" where
  "on_header_value s a =
     (if header_building_state a = 0 then a\<lparr>header_value := header_value a @ s\<rparr>
      else if header_building_state a = 1 then a\<lparr>header_building_state := 0, header_value := s\<rparr>
      else a)"

definition set_connection_parameters :: "'c http_parser \<Rightarrow> 'c http_parser" where
  "set_connection_parameters a =
     a\<lparr>hp_req := (hp_req a)
        \<lparr>http_ver_major := http_major a, http_ver_minor := http_minor a,
         keep_alive := (if http_major a = 1 \<and> http_minor a = 0 then F_CONNECTION_KEEP_ALIVE \<in> hp_flags a
                        else http_major a = 1 \<and> http_minor a = 1),
         close_connection := (if http_major a = 1 \<and> http_minor a = 0 then F_CONNECTION_KEEP_ALIVE \<notin> hp_flags a
                              else http_major a = 1 \<and> http_minor a = 1 \<and> F_CONNECTION_CLOSE \<in> hp_flags a),
         upgrade := hp_upgrade a\<rparr>\<rparr>"

definition on_headers_complete :: "'c handlers \<Rightarrow> 'c http_parser \<Rightarrow> 'c http_parser" where
  "on_headers_complete h a =
     run_handler (handle_header h)
       (set_connection_parameters (if header_field a \<noteq> [] then emplace_header a else a))"

definition on_body :: "string \<Rightarrow> 'c http_parser \<Rightarrow> 'c http_parser" where
  "on_body s a = a\<lparr>hp_req := (hp_req a)\<lparr>req_body := req_body (hp_req a) @ s\<rparr>\<rparr>"

definition on_message_complete :: "'c handlers \<Rightarrow> 'c http_parser \<Rightarrow> 'c http_parser" where
  "on_message_complete h a = run_handler (handle_message h) (a\<lparr>message_complete := True\<rparr>)"

subsection \<open>The state of an execution\<close>

text \<open>The arguments of \<open>http_parser_execute\<close> and its local variables.\<close>

record 'c execution_env =
  env_handlers :: "'c handlers"
  buffer_address :: nat
  buffer_data :: string

record 'c execution =
  prs :: "'c http_parser"
  p_pos :: nat
  local_nread :: nat
  field_mark :: "nat option"
  value_mark :: "nat option"
  url_mark :: "nat option"
  url_start_mark :: "nat option"
  body_mark :: "nat option"

text \<open>
  How a pass through the \<open>switch\<close> ends: the loop goes on behind \<open>p\<close>, the function returns a number of bytes,
  or an assertion fails.
\<close>

datatype 'c outcome = Next "'c execution" | Return nat "'c http_parser" | Abort

abbreviation put_prs :: "('c http_parser \<Rightarrow> 'c http_parser) \<Rightarrow> 'c execution \<Rightarrow> 'c execution" where
  "put_prs f x \<equiv> x\<lparr>prs := f (prs x)\<rparr>"

definition goto_state :: "parser_state \<Rightarrow> 'c execution \<Rightarrow> 'c execution" where
  "goto_state s x = put_prs (\<lambda>a. a\<lparr>hp_state := s\<rparr>) x"

text \<open>\<open>CROW_SET_ERRNO(e); goto error;\<close>\<close>

definition exec_error :: "http_errno \<Rightarrow> 'c execution \<Rightarrow> 'c outcome" where
  "exec_error e x = Return (p_pos x) ((prs x)\<lparr>hp_nread := local_nread x, hp_errno := e\<rparr>)"

definition strict_check :: "bool \<Rightarrow> 'c execution \<Rightarrow> 'c outcome \<Rightarrow> 'c outcome" where
  "strict_check cond x k = (if cond then exec_error CHPE_STRICT x else k)"

definition assert_that :: "bool \<Rightarrow> 'c outcome \<Rightarrow> 'c outcome" where
  "assert_that cond k = (if cond then k else Abort)"

definition callback_notify ::
    "('c http_parser \<Rightarrow> 'c http_parser) \<Rightarrow> nat \<Rightarrow> 'c execution \<Rightarrow> ('c execution \<Rightarrow> 'c outcome) \<Rightarrow> 'c outcome" where
  "callback_notify f er x k =
     assert_that (hp_errno (prs x) = CHPE_OK)
       (let y = put_prs f x in if hp_errno (prs y) \<noteq> CHPE_OK then Return er (prs y) else k y)"

text \<open>The callback gets the \<open>n\<close> bytes at the mark.\<close>

definition callback_data ::
    "('c execution \<Rightarrow> nat option) \<Rightarrow> ('c execution \<Rightarrow> 'c execution) \<Rightarrow> (string \<Rightarrow> 'c http_parser \<Rightarrow> 'c http_parser) \<Rightarrow>
     string \<Rightarrow> nat \<Rightarrow> nat \<Rightarrow> 'c execution \<Rightarrow> ('c execution \<Rightarrow> 'c outcome) \<Rightarrow> 'c outcome" where
  "callback_data mark unmark f buf extra er x k =
     assert_that (hp_errno (prs x) = CHPE_OK)
       (case mark x of
          None \<Rightarrow> k x
        | Some m \<Rightarrow>
            let y = put_prs (f (take (p_pos x + extra - m) (drop m buf))) x
            in if hp_errno (prs y) \<noteq> CHPE_OK then Return er (prs y) else k (unmark y))"

definition callback_url :: "'c execution_env \<Rightarrow> nat \<Rightarrow> 'c execution \<Rightarrow> ('c execution \<Rightarrow> 'c outcome) \<Rightarrow> 'c outcome" where
  "callback_url e = callback_data url_mark (url_mark_update (\<lambda>_. None)) (on_url (env_handlers e)) (buffer_data e) 0"

definition callback_field :: "'c execution_env \<Rightarrow> nat \<Rightarrow> 'c execution \<Rightarrow> ('c execution \<Rightarrow> 'c outcome) \<Rightarrow> 'c outcome" where
  "callback_field e = callback_data field_mark (field_mark_update (\<lambda>_. None)) on_header_field (buffer_data e) 0"

definition callback_value :: "'c execution_env \<Rightarrow> nat \<Rightarrow> 'c execution \<Rightarrow> ('c execution \<Rightarrow> 'c outcome) \<Rightarrow> 'c outcome" where
  "callback_value e = callback_data value_mark (value_mark_update (\<lambda>_. None)) on_header_value (buffer_data e) 0"

definition callback_body :: "'c execution_env \<Rightarrow> nat \<Rightarrow> nat \<Rightarrow> 'c execution \<Rightarrow> ('c execution \<Rightarrow> 'c outcome) \<Rightarrow> 'c outcome" where
  "callback_body e = callback_data body_mark (body_mark_update (\<lambda>_. None)) on_body (buffer_data e)"

definition set_mark :: "nat option \<Rightarrow> nat \<Rightarrow> nat option" where
  "set_mark m p = (case m of None \<Rightarrow> Some p | Some q \<Rightarrow> Some q)"

definition count_header_size :: "nat \<Rightarrow> 'c execution \<Rightarrow> ('c execution \<Rightarrow> 'c outcome) \<Rightarrow> 'c outcome" where
  "count_header_size v x k =
     (let n = (local_nread x + v) mod 2 ^ 32; y = x\<lparr>local_nread := n\<rparr>
      in if max_header_size < n then exec_error CHPE_HEADER_OVERFLOW y else k y)"

subsection \<open>The request line\<close>

definition first_method :: "char \<Rightarrow> http_method option" where
  "first_method ch =
     map_of [(CHR ''A'', Acl), (CHR ''B'', Bind), (CHR ''C'', Connect), (CHR ''D'', Delete), (CHR ''G'', Get),
             (CHR ''H'', Head), (CHR ''L'', Lock), (CHR ''M'', MkCol), (CHR ''N'', Notify), (CHR ''O'', Options),
             (CHR ''P'', Post), (CHR ''R'', Report), (CHR ''S'', Subscribe), (CHR ''T'', Trace), (CHR ''U'', Unlock)] ch"

definition exec_start_req :: "char \<Rightarrow> 'c execution \<Rightarrow> 'c outcome" where
  "exec_start_req ch x =
     (if ch = cr \<or> ch = lf then Next x
      else
        let y = put_prs (\<lambda>a. a\<lparr>hp_flags := {}, uses_transfer_encoding := False, hp_content_length := ullong_max\<rparr>) x
        in if \<not> is_alpha_char ch then exec_error CHPE_INVALID_METHOD y
           else case first_method ch of
               None \<Rightarrow> exec_error CHPE_INVALID_METHOD (put_prs (\<lambda>a. a\<lparr>hp_method := Delete, hp_index := 1\<rparr>) y)
             | Some m \<Rightarrow>
                 callback_notify on_message_begin (p_pos x + 1)
                   (put_prs (\<lambda>a. a\<lparr>hp_method := m, hp_index := 1, hp_state := S_req_method\<rparr>) y) Next)"

definition method_switch :: "((http_method \<times> nat \<times> char) \<times> http_method) list" where
  "method_switch =
     [((Post, 1, CHR ''U''), Put), ((Post, 1, CHR ''A''), Patch), ((Post, 1, CHR ''R''), Propfind),
      ((Put, 2, CHR ''R''), Purge), ((Connect, 1, CHR ''H''), Checkout), ((Connect, 2, CHR ''P''), Copy),
      ((MkCol, 1, CHR ''O''), Move), ((MkCol, 1, CHR ''E''), Merge), ((MkCol, 1, CHR ''-''), MSearch),
      ((MkCol, 2, CHR ''A''), MkActivity), ((MkCol, 3, CHR ''A''), MkCalendar), ((Subscribe, 1, CHR ''E''), Search),
      ((Subscribe, 1, CHR ''O''), Source), ((Report, 2, CHR ''B''), Rebind), ((Propfind, 4, CHR ''P''), Proppatch),
      ((Lock, 1, CHR ''I''), Link), ((Unlock, 2, CHR ''S''), Unsubscribe), ((Unlock, 2, CHR ''B''), Unbind),
      ((Unlock, 3, CHR ''I''), Unlink)]"

text \<open>What a byte makes of the method and the state: \<open>None\<close> is the error.\<close>

definition method_char :: "char \<Rightarrow> http_method \<Rightarrow> nat \<Rightarrow> (http_method \<times> parser_state) option" where
  "method_char ch m i =
     (let matcher = char_at (method_strings ! method_index m) i in
      if ch = nul then None
      else if ch = CHR '' '' \<and> matcher = nul then Some (m, S_req_spaces_before_url)
      else if ch = matcher then Some (m, S_req_method)
      else if (65 \<le> byte ch \<and> byte ch \<le> 90) \<or> ch = CHR ''-'' then
        map_option (\<lambda>m'. (m', S_req_method)) (map_of method_switch (m, i, ch))
      else None)"

definition exec_req_method :: "char \<Rightarrow> 'c execution \<Rightarrow> 'c outcome" where
  "exec_req_method ch x =
     (case method_char ch (hp_method (prs x)) (hp_index (prs x)) of
        None \<Rightarrow> exec_error CHPE_INVALID_METHOD x
      | Some (m, s) \<Rightarrow>
          callback_notify on_method (p_pos x) (put_prs (\<lambda>a. a\<lparr>hp_method := m, hp_state := s\<rparr>) x)
            (\<lambda>y. Next (put_prs (\<lambda>a. a\<lparr>hp_index := (hp_index a + 1) mod 32\<rparr>) y)))"

text \<open>\<open>parser->state = parse_url_char(...)\<close> with the test that follows it.\<close>

definition exec_url_char :: "'c execution_env \<Rightarrow> char \<Rightarrow> 'c execution \<Rightarrow> 'c outcome" where
  "exec_url_char e ch x =
     (case parse_url_char (buffer_address e) (hp_state (prs x)) ch (url_start_mark x) (p_pos x) of
        (s, qs) \<Rightarrow>
          let y = put_prs (\<lambda>a. a\<lparr>hp_state := s, qs_point := (case qs of Some q \<Rightarrow> q | None \<Rightarrow> qs_point a)\<rparr>) x
          in if s = S_dead then exec_error CHPE_INVALID_URL y else Next y)"

definition exec_req_spaces_before_url :: "'c execution_env \<Rightarrow> char \<Rightarrow> 'c execution \<Rightarrow> 'c outcome" where
  "exec_req_spaces_before_url e ch x =
     (if ch = CHR '' '' then Next x
      else
        let y = x\<lparr>url_mark := set_mark (url_mark x) (p_pos x), url_start_mark := set_mark (url_start_mark x) (p_pos x)\<rparr>
        in exec_url_char e ch (if hp_method (prs y) = Connect then goto_state S_req_server_start y else y))"

definition exec_req_schema :: "'c execution_env \<Rightarrow> char \<Rightarrow> 'c execution \<Rightarrow> 'c outcome" where
  "exec_req_schema e ch x =
     (if ch = CHR '' '' \<or> ch = cr \<or> ch = lf then exec_error CHPE_INVALID_URL x else exec_url_char e ch x)"

definition exec_req_url :: "'c execution_env \<Rightarrow> char \<Rightarrow> 'c execution \<Rightarrow> 'c outcome" where
  "exec_req_url e ch x =
     (if ch = CHR '' '' then callback_url e (p_pos x + 1) (goto_state S_req_http_start x) Next
      else if ch = cr \<or> ch = lf then
        (if hp_method (prs x) \<noteq> Get then exec_error CHPE_INVALID_VERSION (goto_state S_dead x)
         else callback_url e (p_pos x + 1)
                (put_prs (\<lambda>a. a\<lparr>http_major := 0, http_minor := 9,
                               hp_state := (if ch = cr then S_req_line_almost_done else S_header_field_start)\<rparr>) x) Next)
      else exec_url_char e ch x)"

definition exec_req_http_start :: "char \<Rightarrow> 'c execution \<Rightarrow> 'c outcome" where
  "exec_req_http_start ch x =
     (if ch = CHR '' '' then Next x
      else if ch = CHR ''H'' then Next (goto_state S_req_http_H x)
      else if ch = CHR ''I'' \<and> hp_method (prs x) = Source then Next (goto_state S_req_http_I x)
      else exec_error CHPE_INVALID_CONSTANT x)"

text \<open>The states that want one character: \<open>HTTP/\<close> and \<open>ICE/\<close>.\<close>

definition exec_constant :: "char \<Rightarrow> parser_state \<Rightarrow> char \<Rightarrow> 'c execution \<Rightarrow> 'c outcome" where
  "exec_constant wanted s ch x = strict_check (ch \<noteq> wanted) x (Next (goto_state s x))"

definition exec_req_http_major :: "char \<Rightarrow> 'c execution \<Rightarrow> 'c outcome" where
  "exec_req_http_major ch x =
     (if \<not> is_digit ch then exec_error CHPE_INVALID_VERSION x
      else Next (put_prs (\<lambda>a. a\<lparr>http_major := byte ch - 48, hp_state := S_req_http_dot\<rparr>) x))"

definition exec_req_http_dot :: "char \<Rightarrow> 'c execution \<Rightarrow> 'c outcome" where
  "exec_req_http_dot ch x =
     (if ch \<noteq> CHR ''.'' then exec_error CHPE_INVALID_VERSION x else Next (goto_state S_req_http_minor x))"

definition exec_req_http_minor :: "char \<Rightarrow> 'c execution \<Rightarrow> 'c outcome" where
  "exec_req_http_minor ch x =
     (if \<not> is_digit ch then exec_error CHPE_INVALID_VERSION x
      else Next (put_prs (\<lambda>a. a\<lparr>http_minor := byte ch - 48, hp_state := S_req_http_end\<rparr>) x))"

definition exec_req_http_end :: "char \<Rightarrow> 'c execution \<Rightarrow> 'c outcome" where
  "exec_req_http_end ch x =
     (if ch = cr then Next (goto_state S_req_line_almost_done x)
      else if ch = lf then Next (goto_state S_header_field_start x)
      else exec_error CHPE_INVALID_VERSION x)"

definition exec_req_line_almost_done :: "char \<Rightarrow> 'c execution \<Rightarrow> 'c outcome" where
  "exec_req_line_almost_done ch x =
     (if ch \<noteq> lf then exec_error CHPE_LF_EXPECTED x else Next (goto_state S_header_field_start x))"

subsection \<open>Header names\<close>

text \<open>
  One more character of a known word: the header state it leads to is \<open>done\<close> at the last character, \<open>other\<close> when
  the word is not matched, and the same as before in between. The index is a bit field of 5 bits.
\<close>

definition next_index :: "'c http_parser \<Rightarrow> nat" where
  "next_index a = (hp_index a + 1) mod 32"

definition match_word :: "string \<Rightarrow> nat \<Rightarrow> char \<Rightarrow> header_state \<Rightarrow> header_state \<Rightarrow> header_state \<Rightarrow> header_state" where
  "match_word w i c finish other same =
     (if length w < i \<or> c \<noteq> char_at w i then other else if i = length w - 1 then finish else same)"

text \<open>The \<open>switch\<close> on the header state for a character of a name other than in \<open>h_general\<close>.\<close>

definition field_char :: "char \<Rightarrow> 'c http_parser \<Rightarrow> 'c http_parser option" where
  "field_char ch a =
     (let c = token ch; i = next_index a;
          step = (\<lambda>h. Some (a\<lparr>hp_index := i, hp_header_state := h\<rparr>))
      in case hp_header_state a of
        H_general \<Rightarrow> Some a
      | H_C \<Rightarrow> step (if c = CHR ''o'' then H_CO else H_general)
      | H_CO \<Rightarrow> step (if c = CHR ''n'' then H_CON else H_general)
      | H_CON \<Rightarrow> step (if c = CHR ''n'' then H_matching_connection
                       else if c = CHR ''t'' then H_matching_content_length else H_general)
      | H_matching_connection \<Rightarrow> step (match_word ''connection'' i c H_connection H_general H_matching_connection)
      | H_matching_proxy_connection \<Rightarrow>
          step (match_word ''proxy-connection'' i c H_connection H_general H_matching_proxy_connection)
      | H_matching_content_length \<Rightarrow>
          step (match_word ''content-length'' i c H_content_length H_general H_matching_content_length)
      | H_matching_transfer_encoding \<Rightarrow>
          (let h = match_word ''transfer-encoding'' i c H_transfer_encoding H_general H_matching_transfer_encoding
           in Some (a\<lparr>hp_index := i, hp_header_state := h,
                      uses_transfer_encoding := (h = H_transfer_encoding \<or> uses_transfer_encoding a)\<rparr>))
      | H_matching_upgrade \<Rightarrow> step (match_word ''upgrade'' i c H_upgrade H_general H_matching_upgrade)
      | H_connection \<Rightarrow> Some (if ch \<noteq> CHR '' '' then a\<lparr>hp_header_state := H_general\<rparr> else a)
      | H_content_length \<Rightarrow> Some (if ch \<noteq> CHR '' '' then a\<lparr>hp_header_state := H_general\<rparr> else a)
      | H_transfer_encoding \<Rightarrow> Some (if ch \<noteq> CHR '' '' then a\<lparr>hp_header_state := H_general\<rparr> else a)
      | H_upgrade \<Rightarrow> Some (if ch \<noteq> CHR '' '' then a\<lparr>hp_header_state := H_general\<rparr> else a)
      | _ \<Rightarrow> None)"

text \<open>
  The loop over a name. The list is what is left of the buffer at \<open>p\<close>; in \<open>h_general\<close> the rest of the name is
  skipped. The result has the character that is not part of a name, if there is one.
\<close>

function field_loop :: "string \<Rightarrow> nat \<Rightarrow> 'c http_parser \<Rightarrow> ('c http_parser \<times> nat \<times> char option) option" where
  "field_loop [] p a = Some (a, p, None)"
| "field_loop (ch # rest) p a =
     (if token ch = nul then Some (a, p, Some ch)
      else case field_char ch a of
          None \<Rightarrow> None
        | Some b \<Rightarrow>
            let k = (if hp_header_state a = H_general
                     then length (takeWhile (\<lambda>c. token c \<noteq> nul) (take (min (length (ch # rest)) max_header_size - 1) rest))
                     else 0)
            in field_loop (drop k rest) (p + k + 1) b)"
  by pat_completeness auto
termination by (relation "measure (\<lambda>(s, p, a). length s)") auto

definition exec_header_field :: "'c execution_env \<Rightarrow> 'c execution \<Rightarrow> 'c outcome" where
  "exec_header_field e x =
     (case field_loop (drop (p_pos x) (buffer_data e)) (p_pos x) (prs x) of
        None \<Rightarrow> Abort
      | Some (a, p, None) \<Rightarrow>
          count_header_size (p - 1 - p_pos x) (x\<lparr>prs := a, p_pos := p - 1\<rparr>) Next
      | Some (a, p, Some ch) \<Rightarrow>
          count_header_size (p - p_pos x) (x\<lparr>prs := a, p_pos := p\<rparr>)
            (\<lambda>y. if ch = CHR '':'' then callback_field e (p + 1) (goto_state S_header_value_discard_ws y) Next
                 else exec_error CHPE_INVALID_HEADER_TOKEN y))"

subsection \<open>Header values\<close>

text \<open>The character after \<open>p\<close>, if the buffer has one.\<close>

definition peek :: "'c execution_env \<Rightarrow> nat \<Rightarrow> char option" where
  "peek e i = (if i < length (buffer_data e) then Some (buffer_data e ! i) else None)"

definition exec_header_value_start :: "'c execution_env \<Rightarrow> char \<Rightarrow> 'c execution \<Rightarrow> 'c outcome" where
  "exec_header_value_start e ch x =
     (let y = (put_prs (\<lambda>a. a\<lparr>hp_state := S_header_value, hp_index := 0\<rparr>) x)
                \<lparr>value_mark := set_mark (value_mark x) (p_pos x)\<rparr>;
          c = lower_char ch;
          to = (\<lambda>h. Next (put_prs (\<lambda>a. a\<lparr>hp_header_state := h\<rparr>) y))
      in case hp_header_state (prs x) of
        H_upgrade \<Rightarrow>
          Next (put_prs (\<lambda>a. a\<lparr>hp_flags := (if ch \<noteq> CHR ''h'' \<or> peek e (p_pos x + 1) \<noteq> Some CHR ''2''
                                         then insert F_UPGRADE (hp_flags a) else hp_flags a),
                              hp_header_state := H_general\<rparr>) y)
      | H_transfer_encoding \<Rightarrow>
          to (if c = CHR ''c'' then H_matching_transfer_encoding_chunked else H_matching_transfer_encoding_token)
      | H_matching_transfer_encoding_token_start \<Rightarrow> Next y
      | H_content_length \<Rightarrow>
          (if \<not> is_digit ch then exec_error CHPE_INVALID_CONTENT_LENGTH y
           else if F_CONTENTLENGTH \<in> hp_flags (prs x) then exec_error CHPE_UNEXPECTED_CONTENT_LENGTH y
           else Next (put_prs (\<lambda>a. a\<lparr>hp_flags := insert F_CONTENTLENGTH (hp_flags a),
                                   hp_content_length := byte ch - 48, hp_header_state := H_content_length_num\<rparr>) y))
      | H_content_length_ws \<Rightarrow> Next y
      | H_connection \<Rightarrow>
          (if c = CHR ''k'' then to H_matching_connection_keep_alive
           else if c = CHR ''c'' then to H_matching_connection_close
           else if c = CHR '' '' \<or> c = tab then Next y
           else to H_general)
      | _ \<Rightarrow> to H_general)"

definition exec_header_value_discard_ws :: "'c execution_env \<Rightarrow> char \<Rightarrow> 'c execution \<Rightarrow> 'c outcome" where
  "exec_header_value_discard_ws e ch x =
     (if ch = CHR '' '' \<or> ch = tab then Next x
      else if ch = cr then Next (goto_state S_header_value_discard_ws_almost_done x)
      else if ch = lf then Next (goto_state S_header_value_discard_lws x)
      else exec_header_value_start e ch x)"

text \<open>
  The \<open>switch\<close> of the loop over a value: the new \<open>h_state\<close> and parser, an invalid content length (which stores
  \<open>h_state\<close>), or a failed assertion.
\<close>

datatype 'c value_step = Step header_state "'c http_parser" | Bad_length header_state | Broken

definition ends_with_space :: "char \<Rightarrow> header_state \<Rightarrow> header_state \<Rightarrow> header_state" where
  "ends_with_space ch s other = (if ch \<noteq> CHR '' '' then other else s)"

definition content_length_char :: "char \<Rightarrow> 'c http_parser \<Rightarrow> 'c value_step" where
  "content_length_char ch a =
     (if ch = CHR '' '' then Step H_content_length_ws a
      else if \<not> is_digit ch then Bad_length H_content_length_num
      else if (ullong_max - 10) div 10 < hp_content_length a then Bad_length H_content_length_num
      else Step H_content_length_num (a\<lparr>hp_content_length := (hp_content_length a * 10 + (byte ch - 48)) mod 2 ^ 64\<rparr>))"

definition value_char :: "char \<Rightarrow> header_state \<Rightarrow> 'c http_parser \<Rightarrow> 'c value_step" where
  "value_char ch h a =
     (let c = lower_char ch; i = next_index a; b = a\<lparr>hp_index := i\<rparr> in
      case h of
        H_connection \<Rightarrow> Broken
      | H_transfer_encoding \<Rightarrow> Broken
      | H_content_length \<Rightarrow> if ch = CHR '' '' then Step h a else content_length_char ch a
      | H_content_length_num \<Rightarrow> content_length_char ch a
      | H_content_length_ws \<Rightarrow> if ch = CHR '' '' then Step h a else Bad_length h
      | H_matching_transfer_encoding_token_start \<Rightarrow>
          (if c = CHR ''c'' then Step H_matching_transfer_encoding_chunked a
           else if token c \<noteq> nul then Step H_matching_transfer_encoding_token a
           else if c = CHR '' '' \<or> c = tab then Step h a
           else Step H_general a)
      | H_matching_transfer_encoding_chunked \<Rightarrow>
          Step (match_word ''chunked'' i c H_transfer_encoding_chunked H_matching_transfer_encoding_token h) b
      | H_matching_transfer_encoding_token \<Rightarrow>
          (if ch = CHR '','' then Step H_matching_transfer_encoding_token_start (a\<lparr>hp_index := 0\<rparr>) else Step h a)
      | H_matching_connection_keep_alive \<Rightarrow>
          Step (match_word ''keep-alive'' i c H_connection_keep_alive H_general h) b
      | H_matching_connection_close \<Rightarrow> Step (match_word ''close'' i c H_connection_close H_general h) b
      | H_transfer_encoding_chunked \<Rightarrow> Step (ends_with_space ch h H_matching_transfer_encoding_token) a
      | H_connection_keep_alive \<Rightarrow> Step (ends_with_space ch h H_general) a
      | H_connection_close \<Rightarrow> Step (ends_with_space ch h H_general) a
      | _ \<Rightarrow> Step H_general (a\<lparr>hp_state := S_header_value\<rparr>))"

text \<open>How the loop over a value ends, with \<open>p\<close>, the parser and \<open>h_state\<close>.\<close>

datatype value_end = V_end | V_cr | V_lf | V_token_error | V_length_error

definition value_ok :: "'c http_parser \<Rightarrow> char \<Rightarrow> bool" where
  "value_ok a ch \<longleftrightarrow> lenient_http_headers a \<or> is_header_char ch"

text \<open>In \<open>h_general\<close> the rest of the line is skipped, up to \<open>max_header_size\<close> bytes.\<close>

function value_loop :: "string \<Rightarrow> nat \<Rightarrow> header_state \<Rightarrow> 'c http_parser \<Rightarrow>
    (value_end \<times> nat \<times> header_state \<times> 'c http_parser) option" where
  "value_loop [] p h a = Some (V_end, p, h, a)"
| "value_loop (ch # rest) p h a =
     (if ch = cr then Some (V_cr, p, h, a)
      else if ch = lf then Some (V_lf, p, h, a)
      else if \<not> value_ok a ch then Some (V_token_error, p, h, a)
      else if h = H_general then
        (let window = take max_header_size (ch # rest);
             k = length (takeWhile (\<lambda>c. c \<noteq> cr \<and> c \<noteq> lf \<and> value_ok a c) window)
         in if k < length window then
              (if window ! k = cr \<or> window ! k = lf then value_loop (drop k (ch # rest)) (p + k) h a
               else Some (V_token_error, p + k, h, a))
            else if k = length (ch # rest) then Some (V_end, p + k, h, a)
            else value_loop (drop (k + 1) (ch # rest)) (p + k + 1) h a)
      else case value_char ch h a of
          Broken \<Rightarrow> None
        | Bad_length h' \<Rightarrow> Some (V_length_error, p, h', a)
        | Step h' b \<Rightarrow> value_loop rest (p + 1) h' b)"
  by pat_completeness auto
termination
proof (relation "measure (\<lambda>(s, p, h, a). length s)", goal_cases)
  case (2 ch rest p h a window k)
  then have "0 < k" by (auto simp: max_header_size_def take_Cons')
  with 2 show ?case by simp
qed auto

subsection \<open>The end of a header and of the headers\<close>

definition exec_header_almost_done :: "char \<Rightarrow> 'c execution \<Rightarrow> 'c outcome" where
  "exec_header_almost_done ch x =
     (if ch \<noteq> lf then exec_error CHPE_LF_EXPECTED x else Next (goto_state S_header_value_lws x))"

text \<open>After \<open>\r\<close> the value is reported before its bytes are counted, after \<open>\n\<close> it is the other way round.\<close>

definition exec_header_value :: "'c execution_env \<Rightarrow> 'c execution \<Rightarrow> 'c outcome" where
  "exec_header_value e x =
     (case value_loop (drop (p_pos x) (buffer_data e)) (p_pos x) (hp_header_state (prs x)) (prs x) of
        None \<Rightarrow> Abort
      | Some (end_kind, p, h, a) \<Rightarrow>
          let n = p - p_pos x; y = x\<lparr>prs := a, p_pos := p\<rparr>;
              store = put_prs (\<lambda>a. a\<lparr>hp_header_state := h\<rparr>)
          in case end_kind of
               V_end \<Rightarrow> count_header_size (n - 1) (store (y\<lparr>p_pos := p - 1\<rparr>)) Next
             | V_cr \<Rightarrow>
                 callback_value e (p + 1) (goto_state S_header_almost_done (store y))
                   (\<lambda>z. count_header_size n (store z) Next)
             | V_lf \<Rightarrow>
                 count_header_size n (goto_state S_header_almost_done y)
                   (\<lambda>z. callback_value e p (store z) (exec_header_almost_done lf))
             | V_token_error \<Rightarrow> exec_error CHPE_INVALID_HEADER_TOKEN y
             | V_length_error \<Rightarrow> exec_error CHPE_INVALID_CONTENT_LENGTH (store y))"

definition exec_headers_done :: "'c execution_env \<Rightarrow> char \<Rightarrow> 'c execution \<Rightarrow> 'c outcome" where
  "exec_headers_done e ch x =
     strict_check (ch \<noteq> lf) x
       (let y = (put_prs (\<lambda>a. a\<lparr>hp_nread := 0\<rparr>) x)\<lparr>local_nread := 0\<rparr>; a = prs x;
            complete = callback_notify (on_message_complete (env_handlers e)) (p_pos x + 1) y
        in if hp_upgrade a then
             complete (\<lambda>z. Return (p_pos z + 1) ((prs z)\<lparr>hp_nread := local_nread z\<rparr>))
           else if F_SKIPBODY \<in> hp_flags a then complete Next
           else if F_CHUNKED \<in> hp_flags a then Next (goto_state S_chunk_size_start y)
           else if uses_transfer_encoding a then
             (if \<not> lenient_http_headers a
              then Return (p_pos y) ((prs y)\<lparr>hp_errno := CHPE_INVALID_TRANSFER_ENCODING, hp_nread := local_nread y\<rparr>)
              else Next (goto_state S_body_identity_eof y))
           else if hp_content_length a = 0 then complete Next
           else if hp_content_length a \<noteq> ullong_max then Next (goto_state S_body_identity y)
           else complete Next)"

text \<open>
  \<open>on_headers_complete\<close> returns 0. The state that is executed after it is \<open>s_headers_done\<close>, or \<open>s_start_req\<close> when
  the handler has cleared the parser.
\<close>

definition exec_headers_almost_done :: "'c execution_env \<Rightarrow> char \<Rightarrow> 'c execution \<Rightarrow> 'c outcome" where
  "exec_headers_almost_done e ch x =
     strict_check (ch \<noteq> lf) x
       (let a = prs x in
        if F_TRAILING \<in> hp_flags a then
          callback_notify (on_message_complete (env_handlers e)) (p_pos x + 1) x Next
        else if uses_transfer_encoding a \<and> F_CONTENTLENGTH \<in> hp_flags a \<and>
                (if F_CHUNKED \<in> hp_flags a then \<not> allow_chunked_length a else \<not> lenient_http_headers a) then
          exec_error CHPE_UNEXPECTED_CONTENT_LENGTH x
        else
          let y = put_prs (\<lambda>a. a\<lparr>hp_state := S_headers_done,
                                 hp_upgrade := (F_UPGRADE \<in> hp_flags a \<or> hp_method a = Connect)\<rparr>) x;
              z = put_prs (on_headers_complete (env_handlers e)) y
          in if hp_errno (prs z) \<noteq> CHPE_OK then Return (p_pos z) ((prs z)\<lparr>hp_nread := local_nread z\<rparr>)
             else if hp_state (prs z) = S_start_req then exec_start_req ch z
             else exec_headers_done e ch z)"

definition exec_header_field_start :: "'c execution_env \<Rightarrow> char \<Rightarrow> 'c execution \<Rightarrow> 'c outcome" where
  "exec_header_field_start e ch x =
     (if ch = cr then Next (goto_state S_headers_almost_done x)
      else if ch = lf then exec_headers_almost_done e ch (goto_state S_headers_almost_done x)
      else if token ch = nul then exec_error CHPE_INVALID_HEADER_TOKEN x
      else
        let c = token ch;
            h = (if c = CHR ''c'' then H_C else if c = CHR ''p'' then H_matching_proxy_connection
                 else if c = CHR ''t'' then H_matching_transfer_encoding
                 else if c = CHR ''u'' then H_matching_upgrade else H_general)
        in Next ((put_prs (\<lambda>a. a\<lparr>hp_index := 0, hp_state := S_header_field, hp_header_state := h\<rparr>) x)
                   \<lparr>field_mark := set_mark (field_mark x) (p_pos x)\<rparr>))"

definition finish_header :: "'c http_parser \<Rightarrow> 'c http_parser" where
  "finish_header a =
     a\<lparr>hp_flags :=
         (case hp_header_state a of
            H_connection_keep_alive \<Rightarrow> insert F_CONNECTION_KEEP_ALIVE (hp_flags a)
          | H_connection_close \<Rightarrow> insert F_CONNECTION_CLOSE (hp_flags a)
          | H_transfer_encoding_chunked \<Rightarrow> insert F_CHUNKED (hp_flags a)
          | _ \<Rightarrow> hp_flags a)\<rparr>"

definition exec_header_value_lws :: "'c execution_env \<Rightarrow> char \<Rightarrow> 'c execution \<Rightarrow> 'c outcome" where
  "exec_header_value_lws e ch x =
     (if ch = CHR '' '' \<or> ch = tab then
        exec_header_value_start e ch
          (put_prs (\<lambda>a. a\<lparr>hp_header_state := (if hp_header_state a = H_content_length_num then H_content_length_ws
                                              else hp_header_state a),
                          hp_state := S_header_value_start\<rparr>) x)
      else exec_header_field_start e ch (goto_state S_header_field_start (put_prs finish_header x)))"

definition exec_header_value_discard_ws_almost_done :: "char \<Rightarrow> 'c execution \<Rightarrow> 'c outcome" where
  "exec_header_value_discard_ws_almost_done ch x =
     strict_check (ch \<noteq> lf) x (Next (goto_state S_header_value_discard_lws x))"

definition exec_header_value_discard_lws :: "'c execution_env \<Rightarrow> char \<Rightarrow> 'c execution \<Rightarrow> 'c outcome" where
  "exec_header_value_discard_lws e ch x =
     (if ch = CHR '' '' \<or> ch = tab then Next (goto_state S_header_value_discard_ws x)
      else callback_value e (p_pos x)
             (goto_state S_header_field_start (x\<lparr>value_mark := set_mark (value_mark x) (p_pos x)\<rparr>))
             (exec_header_field_start e ch))"

subsection \<open>The body\<close>

definition exec_message_done :: "'c execution_env \<Rightarrow> 'c execution \<Rightarrow> 'c outcome" where
  "exec_message_done e x = callback_notify (on_message_complete (env_handlers e)) (p_pos x + 1) x Next"

text \<open>The part of \<open>s_body_identity\<close> and \<open>s_chunk_data\<close> that takes the bytes at hand.\<close>

definition take_body :: "'c execution_env \<Rightarrow> 'c execution \<Rightarrow> 'c execution" where
  "take_body e x =
     (let to_read = min (hp_content_length (prs x)) (length (buffer_data e) - p_pos x)
      in (put_prs (\<lambda>a. a\<lparr>hp_content_length := hp_content_length a - to_read\<rparr>) x)
           \<lparr>body_mark := set_mark (body_mark x) (p_pos x), p_pos := p_pos x + to_read - 1\<rparr>)"

definition exec_body_identity :: "'c execution_env \<Rightarrow> 'c execution \<Rightarrow> 'c outcome" where
  "exec_body_identity e x =
     assert_that (hp_content_length (prs x) \<noteq> 0 \<and> hp_content_length (prs x) \<noteq> ullong_max)
       (let y = take_body e x
        in if hp_content_length (prs y) = 0
           then callback_body e 1 (p_pos y) (goto_state S_message_done y) (exec_message_done e)
           else Next y)"

definition exec_body_identity_eof :: "'c execution_env \<Rightarrow> 'c execution \<Rightarrow> 'c outcome" where
  "exec_body_identity_eof e x =
     Next (x\<lparr>body_mark := set_mark (body_mark x) (p_pos x), p_pos := length (buffer_data e) - 1\<rparr>)"

definition exec_chunk_size_start :: "char \<Rightarrow> 'c execution \<Rightarrow> 'c outcome" where
  "exec_chunk_size_start ch x =
     assert_that (local_nread x = 1 \<and> F_CHUNKED \<in> hp_flags (prs x))
       (if unhex ch = -1 then exec_error CHPE_INVALID_CHUNK_SIZE x
        else Next (put_prs (\<lambda>a. a\<lparr>hp_content_length := nat (unhex ch), hp_state := S_chunk_size\<rparr>) x))"

definition exec_chunk_size :: "char \<Rightarrow> 'c execution \<Rightarrow> 'c outcome" where
  "exec_chunk_size ch x =
     assert_that (F_CHUNKED \<in> hp_flags (prs x))
       (if ch = cr then Next (goto_state S_chunk_size_almost_done x)
        else if unhex ch = -1 then
          (if ch = CHR '';'' \<or> ch = CHR '' '' then Next (goto_state S_chunk_parameters x)
           else exec_error CHPE_INVALID_CHUNK_SIZE x)
        else if (ullong_max - 16) div 16 < hp_content_length (prs x) then exec_error CHPE_INVALID_CONTENT_LENGTH x
        else Next (put_prs (\<lambda>a. a\<lparr>hp_content_length := (hp_content_length a * 16 + nat (unhex ch)) mod 2 ^ 64\<rparr>) x))"

definition exec_chunk_parameters :: "char \<Rightarrow> 'c execution \<Rightarrow> 'c outcome" where
  "exec_chunk_parameters ch x =
     assert_that (F_CHUNKED \<in> hp_flags (prs x))
       (if ch = cr then Next (goto_state S_chunk_size_almost_done x) else Next x)"

definition exec_chunk_size_almost_done :: "char \<Rightarrow> 'c execution \<Rightarrow> 'c outcome" where
  "exec_chunk_size_almost_done ch x =
     assert_that (F_CHUNKED \<in> hp_flags (prs x))
       (strict_check (ch \<noteq> lf) x
          (Next ((put_prs (\<lambda>a. if hp_content_length a = 0
                               then a\<lparr>hp_nread := 0, hp_flags := insert F_TRAILING (hp_flags a), hp_state := S_header_field_start\<rparr>
                               else a\<lparr>hp_nread := 0, hp_state := S_chunk_data\<rparr>) x)\<lparr>local_nread := 0\<rparr>)))"

definition exec_chunk_data :: "'c execution_env \<Rightarrow> 'c execution \<Rightarrow> 'c outcome" where
  "exec_chunk_data e x =
     assert_that (F_CHUNKED \<in> hp_flags (prs x) \<and> hp_content_length (prs x) \<noteq> 0 \<and> hp_content_length (prs x) \<noteq> ullong_max)
       (let y = take_body e x
        in Next (if hp_content_length (prs y) = 0 then goto_state S_chunk_data_almost_done y else y))"

definition exec_chunk_data_almost_done :: "'c execution_env \<Rightarrow> char \<Rightarrow> 'c execution \<Rightarrow> 'c outcome" where
  "exec_chunk_data_almost_done e ch x =
     assert_that (F_CHUNKED \<in> hp_flags (prs x) \<and> hp_content_length (prs x) = 0)
       (strict_check (ch \<noteq> cr) x (callback_body e 0 (p_pos x + 1) (goto_state S_chunk_data_done x) Next))"

definition exec_chunk_data_done :: "char \<Rightarrow> 'c execution \<Rightarrow> 'c outcome" where
  "exec_chunk_data_done ch x =
     assert_that (F_CHUNKED \<in> hp_flags (prs x))
       (strict_check (ch \<noteq> lf) x
          (Next ((put_prs (\<lambda>a. a\<lparr>hp_nread := 0, hp_state := S_chunk_size_start\<rparr>) x)\<lparr>local_nread := 0\<rparr>)))"

subsection \<open>The loop\<close>

definition exec_dead :: "char \<Rightarrow> 'c execution \<Rightarrow> 'c outcome" where
  "exec_dead ch x = (if ch = cr \<or> ch = lf then Next x else exec_error CHPE_CLOSED_CONNECTION x)"

definition exec_state :: "'c execution_env \<Rightarrow> char \<Rightarrow> 'c execution \<Rightarrow> 'c outcome" where
  "exec_state e ch x =
     (case hp_state (prs x) of
        S_dead \<Rightarrow> exec_dead ch x
      | S_start_req \<Rightarrow> exec_start_req ch x
      | S_req_method \<Rightarrow> exec_req_method ch x
      | S_req_spaces_before_url \<Rightarrow> exec_req_spaces_before_url e ch x
      | S_req_schema \<Rightarrow> exec_req_schema e ch x
      | S_req_schema_slash \<Rightarrow> exec_req_schema e ch x
      | S_req_schema_slash_slash \<Rightarrow> exec_req_schema e ch x
      | S_req_server_start \<Rightarrow> exec_req_schema e ch x
      | S_req_server \<Rightarrow> exec_req_url e ch x
      | S_req_server_with_at \<Rightarrow> exec_req_url e ch x
      | S_req_path \<Rightarrow> exec_req_url e ch x
      | S_req_query_string_start \<Rightarrow> exec_req_url e ch x
      | S_req_query_string \<Rightarrow> exec_req_url e ch x
      | S_req_http_start \<Rightarrow> exec_req_http_start ch x
      | S_req_http_H \<Rightarrow> exec_constant CHR ''T'' S_req_http_HT ch x
      | S_req_http_HT \<Rightarrow> exec_constant CHR ''T'' S_req_http_HTT ch x
      | S_req_http_HTT \<Rightarrow> exec_constant CHR ''P'' S_req_http_HTTP ch x
      | S_req_http_I \<Rightarrow> exec_constant CHR ''C'' S_req_http_IC ch x
      | S_req_http_IC \<Rightarrow> exec_constant CHR ''E'' S_req_http_HTTP ch x
      | S_req_http_HTTP \<Rightarrow> exec_constant CHR ''/'' S_req_http_major ch x
      | S_req_http_major \<Rightarrow> exec_req_http_major ch x
      | S_req_http_dot \<Rightarrow> exec_req_http_dot ch x
      | S_req_http_minor \<Rightarrow> exec_req_http_minor ch x
      | S_req_http_end \<Rightarrow> exec_req_http_end ch x
      | S_req_line_almost_done \<Rightarrow> exec_req_line_almost_done ch x
      | S_header_field_start \<Rightarrow> exec_header_field_start e ch x
      | S_header_field \<Rightarrow> exec_header_field e x
      | S_header_value_discard_ws \<Rightarrow> exec_header_value_discard_ws e ch x
      | S_header_value_start \<Rightarrow> exec_header_value_start e ch x
      | S_header_value \<Rightarrow> exec_header_value e x
      | S_header_almost_done \<Rightarrow> exec_header_almost_done ch x
      | S_header_value_lws \<Rightarrow> exec_header_value_lws e ch x
      | S_header_value_discard_ws_almost_done \<Rightarrow> exec_header_value_discard_ws_almost_done ch x
      | S_header_value_discard_lws \<Rightarrow> exec_header_value_discard_lws e ch x
      | S_headers_almost_done \<Rightarrow> exec_headers_almost_done e ch x
      | S_headers_done \<Rightarrow> exec_headers_done e ch x
      | S_body_identity \<Rightarrow> exec_body_identity e x
      | S_body_identity_eof \<Rightarrow> exec_body_identity_eof e x
      | S_message_done \<Rightarrow> exec_message_done e x
      | S_chunk_size_start \<Rightarrow> exec_chunk_size_start ch x
      | S_chunk_size \<Rightarrow> exec_chunk_size ch x
      | S_chunk_parameters \<Rightarrow> exec_chunk_parameters ch x
      | S_chunk_size_almost_done \<Rightarrow> exec_chunk_size_almost_done ch x
      | S_chunk_data \<Rightarrow> exec_chunk_data e x
      | S_chunk_data_almost_done \<Rightarrow> exec_chunk_data_almost_done e ch x
      | S_chunk_data_done \<Rightarrow> exec_chunk_data_done ch x)"

definition exec_byte :: "'c execution_env \<Rightarrow> 'c execution \<Rightarrow> 'c outcome" where
  "exec_byte e x =
     (let ch = buffer_data e ! p_pos x in
      if parsing_header (hp_state (prs x)) then count_header_size 1 x (exec_state e ch) else exec_state e ch x)"

text \<open>What follows the loop: the callbacks of the marks that are left over.\<close>

definition exec_leftover :: "'c execution_env \<Rightarrow> 'c execution \<Rightarrow> 'c outcome" where
  "exec_leftover e x =
     (let n = length (buffer_data e) in
      assert_that (length (filter (\<lambda>m. m \<noteq> None) [field_mark x, value_mark x, url_mark x, body_mark x]) \<le> 1)
       (callback_field e n x (\<lambda>x. callback_value e n x (\<lambda>x. callback_url e n x (\<lambda>x. callback_body e 0 n x (\<lambda>x.
          Return n ((prs x)\<lparr>hp_nread := local_nread x\<rparr>)))))))"

text \<open>
  \<open>outcome_ok N R\<close>: the state the loop goes on with satisfies \<open>N\<close> and what is returned satisfies \<open>R\<close>.
\<close>

fun outcome_ok :: "('c execution \<Rightarrow> bool) \<Rightarrow> (nat \<Rightarrow> 'c http_parser \<Rightarrow> bool) \<Rightarrow> 'c outcome \<Rightarrow> bool" where
  "outcome_ok N R (Next y) = N y"
| "outcome_ok N R (Return n a) = R n a"
| "outcome_ok N R Abort = True"

text \<open>The loop does not move backwards, and it stays in the buffer.\<close>

abbreviation moves :: "'c execution_env \<Rightarrow> nat \<Rightarrow> 'c outcome \<Rightarrow> bool" where
  "moves e p \<equiv> outcome_ok (\<lambda>y. p \<le> p_pos y \<and> p_pos y < length (buffer_data e)) (\<lambda>_ _. True)"

lemma p_pos_goto [simp]: "p_pos (goto_state s x) = p_pos x"
  by (simp add: goto_state_def)

lemma moves_error [simp]: "moves e p (exec_error err x)"
  by (simp add: exec_error_def)

lemma moves_assert [simp]: "moves e p (assert_that c k) \<longleftrightarrow> (c \<longrightarrow> moves e p k)"
  by (simp add: assert_that_def)

lemma moves_strict [simp]: "moves e p (strict_check c x k) \<longleftrightarrow> (\<not> c \<longrightarrow> moves e p k)"
  by (simp add: strict_check_def)

lemma moves_notify: "(\<And>y. p_pos y = p_pos x \<Longrightarrow> moves e p (k y)) \<Longrightarrow> moves e p (callback_notify f er x k)"
  by (simp add: callback_notify_def Let_def)

lemma moves_count: "(\<And>y. p_pos y = p_pos x \<Longrightarrow> moves e p (k y)) \<Longrightarrow> moves e p (count_header_size v x k)"
  by (simp add: count_header_size_def Let_def)

lemma moves_url: "(\<And>y. p_pos y = p_pos x \<Longrightarrow> moves e p (k y)) \<Longrightarrow> moves e p (callback_url e er x k)"
  by (simp add: callback_url_def callback_data_def Let_def split: option.split)

lemma moves_field: "(\<And>y. p_pos y = p_pos x \<Longrightarrow> moves e p (k y)) \<Longrightarrow> moves e p (callback_field e er x k)"
  by (simp add: callback_field_def callback_data_def Let_def split: option.split)

lemma moves_value: "(\<And>y. p_pos y = p_pos x \<Longrightarrow> moves e p (k y)) \<Longrightarrow> moves e p (callback_value e er x k)"
  by (simp add: callback_value_def callback_data_def Let_def split: option.split)

lemma moves_body: "(\<And>y. p_pos y = p_pos x \<Longrightarrow> moves e p (k y)) \<Longrightarrow> moves e p (callback_body e extra er x k)"
  by (simp add: callback_body_def callback_data_def Let_def split: option.split)

lemmas moves_rules = moves_notify moves_count moves_url moves_field moves_value moves_body

lemma field_loop_pos: "field_loop s p a = Some (b, q, r) \<Longrightarrow>
    p \<le> q \<and> (r = None \<longrightarrow> q = p + length s) \<and> (r \<noteq> None \<longrightarrow> q < p + length s)"
proof (induction s p a arbitrary: b q r rule: field_loop.induct)
  case (2 ch rest p a)
  have k: "length (takeWhile P (take n rest)) \<le> length rest" for P n
    using length_takeWhile_le[of P "take n rest"] by simp
  show ?case
  proof (cases "token ch = nul")
    case False
    with "2.prems" obtain c where c: "field_char ch a = Some c"
      by (cases "field_char ch a") auto
    define k where "k = (if hp_header_state a = H_general
                     then length (takeWhile (\<lambda>c. token c \<noteq> nul) (take (min (length (ch # rest)) max_header_size - 1) rest))
                     else 0)"
    have "k \<le> length rest" unfolding k_def using k by auto
    with False c "2.prems" "2.IH"[OF False c k_def] show ?thesis
      by (auto simp: k_def[symmetric] simp del: length_Cons)
  qed (use "2.prems" in auto)
qed auto

lemma value_loop_pos: "value_loop s p h a = Some (kind, q, h', b) \<Longrightarrow>
    p \<le> q \<and> (kind = V_end \<longrightarrow> q = p + length s) \<and> (kind \<noteq> V_end \<longrightarrow> q < p + length s)"
proof (induction s p h a arbitrary: kind q h' b rule: value_loop.induct)
  case (2 ch rest p h a)
  define window where "window = take max_header_size (ch # rest)"
  define k where "k = length (takeWhile (\<lambda>c. c \<noteq> cr \<and> c \<noteq> lf \<and> value_ok a c) window)"
  have k: "k \<le> length window" "length window \<le> length (ch # rest)"
    unfolding k_def by (rule length_takeWhile_le) (simp add: window_def)
  show ?case
  proof (cases "ch = cr \<or> ch = lf \<or> \<not> value_ok a ch")
    case True
    with "2.prems" show ?thesis by (auto split: if_splits)
  next
    case ok: False
    show ?thesis
    proof (cases "h = H_general")
      case True
      note IH1 = "2.IH"(1)[OF _ _ _ True window_def k_def]
      note IH2 = "2.IH"(2)[OF _ _ _ True window_def k_def]
      have eq: "value_loop (ch # rest) p h a =
        (if k < length window then
              (if window ! k = cr \<or> window ! k = lf then value_loop (drop k (ch # rest)) (p + k) h a
               else Some (V_token_error, p + k, h, a))
            else if k = length (ch # rest) then Some (V_end, p + k, h, a)
            else value_loop (drop (k + 1) (ch # rest)) (p + k + 1) h a)"
        using ok True by (simp add: window_def[symmetric] k_def[symmetric] Let_def del: drop_Suc_Cons)
      consider "k < length window" "window ! k = cr \<or> window ! k = lf" | "k < length window" "\<not> (window ! k = cr \<or> window ! k = lf)"
        | "k = length window" "k = length (ch # rest)" | "k = length window" "k \<noteq> length (ch # rest)"
        using k by linarith
      then show ?thesis
      proof cases
        case 1
        with "2.prems" eq have "value_loop (drop k (ch # rest)) (p + k) h a = Some (kind, q, h', b)" by simp
        from IH1[OF _ _ _ 1 this] ok k 1 show ?thesis by auto
      next
        case 4
        with "2.prems" eq k have "value_loop (drop (k + 1) (ch # rest)) (p + k + 1) h a = Some (kind, q, h', b)" by simp
        from IH2[OF _ _ _ _ _ this] ok k 4 show ?thesis by auto
      qed (use "2.prems" eq k in auto)
    next
      case False
      with ok "2.prems" "2.IH"(3) show ?thesis
        by (auto split: value_step.splits) (fastforce+)
    qed
  qed
qed auto

lemma moves_start_req: "p \<le> p_pos x \<Longrightarrow> p_pos x < length (buffer_data e) \<Longrightarrow> moves e p (exec_start_req ch x)"
  by (auto simp: exec_start_req_def Let_def intro!: moves_rules split: option.split)

lemma moves_headers_done: "p \<le> p_pos x \<Longrightarrow> p_pos x < length (buffer_data e) \<Longrightarrow> moves e p (exec_headers_done e ch x)"
  by (auto simp: exec_headers_done_def Let_def intro!: moves_rules)

lemma moves_headers_almost_done:
  "p \<le> p_pos x \<Longrightarrow> p_pos x < length (buffer_data e) \<Longrightarrow> moves e p (exec_headers_almost_done e ch x)"
  unfolding exec_headers_almost_done_def Let_def
  by (auto intro!: moves_rules moves_start_req moves_headers_done)

lemma moves_header_field_start:
  "p \<le> p_pos x \<Longrightarrow> p_pos x < length (buffer_data e) \<Longrightarrow> moves e p (exec_header_field_start e ch x)"
  by (simp add: exec_header_field_start_def Let_def moves_headers_almost_done)

lemma moves_header_value_start:
  "p \<le> p_pos x \<Longrightarrow> p_pos x < length (buffer_data e) \<Longrightarrow> moves e p (exec_header_value_start e ch x)"
  by (simp add: exec_header_value_start_def Let_def split: header_state.split)

lemma moves_header_field:
  assumes "p \<le> p_pos x" and "p_pos x < length (buffer_data e)"
  shows "moves e p (exec_header_field e x)"
proof (cases "field_loop (drop (p_pos x) (buffer_data e)) (p_pos x) (prs x)")
  case (Some t)
  obtain a q r where t: "t = (a, q, r)" by (cases t)
  from Some t assms field_loop_pos[of "drop (p_pos x) (buffer_data e)" "p_pos x" "prs x" a q r]
  show ?thesis
    by (cases r) (auto simp: exec_header_field_def intro!: moves_rules)
qed (simp add: exec_header_field_def)

lemma moves_header_value:
  assumes "p \<le> p_pos x" and "p_pos x < length (buffer_data e)"
  shows "moves e p (exec_header_value e x)"
proof (cases "value_loop (drop (p_pos x) (buffer_data e)) (p_pos x) (hp_header_state (prs x)) (prs x)")
  case (Some t)
  obtain kind q h a where t: "t = (kind, q, h, a)" by (cases t)
  from Some t assms
    value_loop_pos[of "drop (p_pos x) (buffer_data e)" "p_pos x" "hp_header_state (prs x)" "prs x" kind q h a]
  show ?thesis
    by (cases kind) (auto simp: exec_header_value_def exec_header_almost_done_def Let_def intro!: moves_rules)
qed (simp add: exec_header_value_def)

lemma moves_url_char: "p \<le> p_pos x \<Longrightarrow> p_pos x < length (buffer_data e) \<Longrightarrow> moves e p (exec_url_char e ch x)"
  by (simp add: exec_url_char_def Let_def split: prod.split)

lemma p_pos_take_body:
  "p_pos x < length (buffer_data e) \<Longrightarrow> hp_content_length (prs x) \<noteq> 0 \<Longrightarrow>
   p_pos x \<le> p_pos (take_body e x) \<and> p_pos (take_body e x) < length (buffer_data e)"
  by (auto simp: take_body_def Let_def)

lemma moves_exec_state:
  assumes "p_pos x < length (buffer_data e)"
  shows "moves e (p_pos x) (exec_state e ch x)"
proof -
  note defs = exec_dead_def exec_req_method_def exec_req_spaces_before_url_def exec_req_schema_def exec_req_url_def
    exec_req_http_start_def exec_constant_def exec_req_http_major_def exec_req_http_dot_def exec_req_http_minor_def
    exec_req_http_end_def exec_req_line_almost_done_def exec_header_value_discard_ws_def exec_header_almost_done_def
    exec_header_value_lws_def exec_header_value_discard_ws_almost_done_def exec_header_value_discard_lws_def
    exec_body_identity_def exec_body_identity_eof_def exec_message_done_def exec_chunk_size_start_def exec_chunk_size_def
    exec_chunk_parameters_def exec_chunk_size_almost_done_def exec_chunk_data_def exec_chunk_data_almost_done_def
    exec_chunk_data_done_def
  note rules = moves_rules moves_start_req moves_headers_done moves_headers_almost_done moves_header_field_start
    moves_header_value_start moves_header_field moves_header_value moves_url_char
  from assms p_pos_take_body[OF assms] show ?thesis
    by (cases "hp_state (prs x)"; simp only: exec_state_def parser_state.case)
      (auto simp: defs Let_def intro!: rules split: option.split)
qed

lemma moves_exec_byte: "p_pos x < length (buffer_data e) \<Longrightarrow> moves e (p_pos x) (exec_byte e x)"
proof -
  assume x: "p_pos x < length (buffer_data e)"
  have "moves e (p_pos x) (exec_state e ch y)" if "p_pos y = p_pos x" for y ch
    using moves_exec_state[of y e ch] that x by simp
  then show ?thesis by (simp add: exec_byte_def Let_def moves_count)
qed

text \<open>
  The loop. \<open>p\<close> never passes the end of the buffer, so the test is \<open>p != data + len\<close>.
\<close>

function exec_loop :: "'c execution_env \<Rightarrow> 'c execution \<Rightarrow> 'c outcome" where
  "exec_loop e x =
     (if length (buffer_data e) \<le> p_pos x then exec_leftover e x
      else case exec_byte e x of
          Next y \<Rightarrow> exec_loop e (y\<lparr>p_pos := p_pos y + 1\<rparr>)
        | Return n a \<Rightarrow> Return n a
        | Abort \<Rightarrow> Abort)"
  by pat_completeness auto
termination
proof (relation "measure (\<lambda>(e, x). length (buffer_data e) - p_pos x)", goal_cases)
  case (2 e x y)
  with moves_exec_byte[of x e] show ?case by simp arith
qed simp

declare exec_loop.simps [simp del]

definition url_states :: "parser_state set" where
  "url_states =
     {S_req_path, S_req_schema, S_req_schema_slash, S_req_schema_slash_slash, S_req_server_start, S_req_server,
      S_req_server_with_at, S_req_query_string_start, S_req_query_string}"

definition start_execution :: "'c http_parser \<Rightarrow> 'c execution" where
  "start_execution a =
     \<lparr>prs = a, p_pos = 0, local_nread = hp_nread a,
      field_mark = (if hp_state a = S_header_field then Some 0 else None),
      value_mark = (if hp_state a = S_header_value then Some 0 else None),
      url_mark = (if hp_state a \<in> url_states then Some 0 else None),
      url_start_mark = None, body_mark = None\<rparr>"

definition http_parser_execute :: "'c execution_env \<Rightarrow> 'c http_parser \<Rightarrow> 'c outcome" where
  "http_parser_execute e a =
     (let x = start_execution a in
      if hp_errno a \<noteq> CHPE_OK then Return 0 a
      else if buffer_data e = [] then
        (if hp_state a = S_body_identity_eof then
           callback_notify (on_message_complete (env_handlers e)) 0 x (\<lambda>y. Return 0 (prs y))
         else if hp_state a = S_dead \<or> hp_state a = S_start_req then Return 0 a
         else Return 1 (a\<lparr>hp_nread := local_nread x, hp_errno := CHPE_INVALID_EOF_STATE\<rparr>))
      else exec_loop e x)"

text \<open>
  \<open>None\<close> is a failed assertion. The length of the buffer is an \<open>int\<close> in the source; a connection reads into
  a buffer of 4096 bytes (\<open>buffer_\<close> in \<open>crow/http_connection.h\<close>), so the length of the list is that number.
\<close>

definition feed :: "'c execution_env \<Rightarrow> 'c http_parser \<Rightarrow> (bool \<times> 'c http_parser) option" where
  "feed e a =
     (if message_complete a then Some (True, a)
      else case http_parser_execute e a of
          Return n b \<Rightarrow> Some (hp_errno b = CHPE_OK \<and> n = length (buffer_data e), b)
        | _ \<Rightarrow> None)"

definition parser_done :: "'c execution_env \<Rightarrow> 'c http_parser \<Rightarrow> (bool \<times> 'c http_parser) option" where
  "parser_done e a = feed (e\<lparr>buffer_data := []\<rparr>) a"

definition http_body_is_final :: "'c http_parser \<Rightarrow> bool" where
  "http_body_is_final a \<longleftrightarrow> hp_state a = S_message_done"

subsection \<open>The limit on the size of a head\<close>

text \<open>The states in which the head of a request, that is its first line and its headers, is not complete.\<close>

definition head_state :: "parser_state \<Rightarrow> bool" where
  "head_state s \<longleftrightarrow> parsing_header s \<and>
     s \<notin> {S_chunk_size_start, S_chunk_size, S_chunk_parameters, S_chunk_size_almost_done, S_headers_done}"

definition in_head :: "'c http_parser \<Rightarrow> bool" where
  "in_head a \<longleftrightarrow> head_state (hp_state a) \<and> \<not> message_complete a \<and>
     (hp_state a = S_start_req \<or> F_TRAILING \<notin> hp_flags a)"

text \<open>A number in the state of the connection that grows with every complete head and never falls.\<close>

definition counts_heads :: "('c \<Rightarrow> nat) \<Rightarrow> 'c handlers \<Rightarrow> bool" where
  "counts_heads n h \<longleftrightarrow> (\<forall>r c. n c \<le> n (fst (handle_url h r c))) \<and> (\<forall>r c. n c < n (fst (handle_header h r c)))
     \<and> (\<forall>r c. n c \<le> n (fst (handle_message h r c)))"

subsubsection \<open>The number never falls\<close>

lemma local_nread_goto [simp]: "local_nread (goto_state s x) = local_nread x"
  by (simp add: goto_state_def)

abbreviation keeps_heads :: "('c \<Rightarrow> nat) \<Rightarrow> nat \<Rightarrow> 'c outcome \<Rightarrow> bool" where
  "keeps_heads n m \<equiv> outcome_ok (\<lambda>y. m \<le> n (connection (prs y))) (\<lambda>_ b. m \<le> n (connection b))"

lemma connection_run_calls [simp]: "connection (run_calls cs a) = connection a"
  by (induction cs a rule: run_calls.induct) (simp_all add: nested_done_def parser_clear_def)

lemma connection_run_handler [simp]: "connection (run_handler f a) = fst (f (hp_req a) (connection a))"
  by (simp add: run_handler_def split: prod.split)

lemma connection_goto [simp]: "connection (prs (goto_state s x)) = connection (prs x)"
  by (simp add: goto_state_def)

lemma connection_on_field [simp]: "connection (on_header_field s a) = connection a"
  by (simp add: on_header_field_def emplace_header_def Let_def)

lemma connection_on_value [simp]: "connection (on_header_value s a) = connection a"
  by (simp add: on_header_value_def)

lemma connection_on_simple [simp]:
  "connection (on_message_begin a) = connection a" "connection (on_method a) = connection a"
  "connection (on_body s a) = connection a" "connection (finish_header a) = connection a"
  by (simp_all add: on_message_begin_def on_method_def on_body_def finish_header_def)

lemma heads_on_url: "counts_heads n h \<Longrightarrow> n (connection a) \<le> n (connection (on_url h s a))"
  by (simp add: on_url_def Let_def counts_heads_def)

lemma heads_on_complete: "counts_heads n h \<Longrightarrow> n (connection a) \<le> n (connection (on_message_complete h a))"
  by (simp add: on_message_complete_def counts_heads_def)

lemma heads_on_headers: "counts_heads n h \<Longrightarrow> n (connection a) < n (connection (on_headers_complete h a))"
  by (simp add: on_headers_complete_def set_connection_parameters_def emplace_header_def counts_heads_def)

lemma keeps_error [simp]: "keeps_heads n m (exec_error err x) \<longleftrightarrow> m \<le> n (connection (prs x))"
  by (simp add: exec_error_def)

lemma keeps_assert: "keeps_heads n m k \<Longrightarrow> keeps_heads n m (assert_that c k)"
  by (simp add: assert_that_def)

lemma keeps_strict: "m \<le> n (connection (prs x)) \<Longrightarrow> keeps_heads n m k \<Longrightarrow> keeps_heads n m (strict_check c x k)"
  by (simp add: strict_check_def)

lemma keeps_count:
  "m \<le> n (connection (prs x)) \<Longrightarrow> (\<And>y. m \<le> n (connection (prs y)) \<Longrightarrow> keeps_heads n m (k y))
     \<Longrightarrow> keeps_heads n m (count_header_size v x k)"
  by (simp add: count_header_size_def Let_def)

lemma keeps_notify:
  "m \<le> n (connection (f (prs x))) \<Longrightarrow> (\<And>y. m \<le> n (connection (prs y)) \<Longrightarrow> keeps_heads n m (k y))
     \<Longrightarrow> keeps_heads n m (callback_notify f er x k)"
  by (simp add: callback_notify_def Let_def assert_that_def)

lemma keeps_data:
  assumes "m \<le> n (connection (prs x))" "\<And>s. m \<le> n (connection (f s (prs x)))" "\<And>y. prs (un y) = prs y"
    "\<And>y. m \<le> n (connection (prs y)) \<Longrightarrow> keeps_heads n m (k y)"
  shows "keeps_heads n m (callback_data mark un f buf extra er x k)"
  using assms by (simp add: callback_data_def Let_def assert_that_def split: option.split)

lemma keeps_url:
  "counts_heads n (env_handlers e) \<Longrightarrow> m \<le> n (connection (prs x)) \<Longrightarrow>
     (\<And>y. m \<le> n (connection (prs y)) \<Longrightarrow> keeps_heads n m (k y)) \<Longrightarrow> keeps_heads n m (callback_url e er x k)"
  unfolding callback_url_def by (rule keeps_data) (auto intro: order_trans [OF _ heads_on_url])

lemma keeps_field:
  "m \<le> n (connection (prs x)) \<Longrightarrow>
     (\<And>y. m \<le> n (connection (prs y)) \<Longrightarrow> keeps_heads n m (k y)) \<Longrightarrow> keeps_heads n m (callback_field e er x k)"
  unfolding callback_field_def by (rule keeps_data) simp_all

lemma keeps_value:
  "m \<le> n (connection (prs x)) \<Longrightarrow>
     (\<And>y. m \<le> n (connection (prs y)) \<Longrightarrow> keeps_heads n m (k y)) \<Longrightarrow> keeps_heads n m (callback_value e er x k)"
  unfolding callback_value_def by (rule keeps_data) simp_all

lemma keeps_body:
  "m \<le> n (connection (prs x)) \<Longrightarrow>
     (\<And>y. m \<le> n (connection (prs y)) \<Longrightarrow> keeps_heads n m (k y)) \<Longrightarrow> keeps_heads n m (callback_body e extra er x k)"
  unfolding callback_body_def by (rule keeps_data) simp_all

lemma keeps_complete:
  "counts_heads n (env_handlers e) \<Longrightarrow> m \<le> n (connection (prs x)) \<Longrightarrow>
     (\<And>y. m \<le> n (connection (prs y)) \<Longrightarrow> keeps_heads n m (k y))
     \<Longrightarrow> keeps_heads n m (callback_notify (on_message_complete (env_handlers e)) er x k)"
  by (rule keeps_notify) (auto intro: order_trans [OF _ heads_on_complete])

lemmas keeps_rules = keeps_assert keeps_strict keeps_count keeps_url keeps_field keeps_value keeps_body keeps_complete

lemma keeps_start_req: "m \<le> n (connection (prs x)) \<Longrightarrow> keeps_heads n m (exec_start_req ch x)"
  by (auto simp: exec_start_req_def Let_def intro!: keeps_notify split: option.split)

lemma keeps_headers_done:
  "counts_heads n (env_handlers e) \<Longrightarrow> m \<le> n (connection (prs x)) \<Longrightarrow> keeps_heads n m (exec_headers_done e ch x)"
  by (auto simp: exec_headers_done_def Let_def intro!: keeps_rules)

lemma keeps_headers_almost_done:
  "counts_heads n (env_handlers e) \<Longrightarrow> m \<le> n (connection (prs x)) \<Longrightarrow> keeps_heads n m (exec_headers_almost_done e ch x)"
  using heads_on_headers [of n "env_handlers e" "(prs x)\<lparr>hp_state := S_headers_done,
      hp_upgrade := (F_UPGRADE \<in> hp_flags (prs x) \<or> hp_method (prs x) = Connect)\<rparr>"]
  by (auto simp: exec_headers_almost_done_def Let_def intro!: keeps_rules keeps_start_req keeps_headers_done)

lemma keeps_header_field_start:
  "counts_heads n (env_handlers e) \<Longrightarrow> m \<le> n (connection (prs x)) \<Longrightarrow> keeps_heads n m (exec_header_field_start e ch x)"
  by (simp add: exec_header_field_start_def Let_def keeps_headers_almost_done)

lemma keeps_header_value_start:
  "m \<le> n (connection (prs x)) \<Longrightarrow> keeps_heads n m (exec_header_value_start e ch x)"
  by (simp add: exec_header_value_start_def Let_def split: header_state.split)

text \<open>What the loops over a name and over a value leave as it is.\<close>

definition same_head :: "'c http_parser \<Rightarrow> 'c http_parser \<Rightarrow> bool" where
  "same_head a b \<longleftrightarrow> connection b = connection a \<and> hp_state b = hp_state a \<and> hp_flags b = hp_flags a
     \<and> message_complete b = message_complete a"

lemma field_char_same: "field_char ch a = Some b \<Longrightarrow> same_head a b"
  by (auto simp: field_char_def same_head_def Let_def split: header_state.splits if_splits)

lemma same_head_trans: "same_head a b \<Longrightarrow> same_head b c \<Longrightarrow> same_head a c"
  by (simp add: same_head_def)

lemma same_head_refl [simp]: "same_head a a"
  by (simp add: same_head_def)

lemma field_loop_same: "field_loop s p a = Some (b, q, r) \<Longrightarrow> same_head a b"
proof (induction s p a arbitrary: b q r rule: field_loop.induct)
  case (2 ch rest p a)
  show ?case
  proof (cases "token ch = nul")
    case False
    with "2.prems" obtain c where c: "field_char ch a = Some c"
      by (cases "field_char ch a") auto
    define k where "k = (if hp_header_state a = H_general
                     then length (takeWhile (\<lambda>c. token c \<noteq> nul) (take (min (length (ch # rest)) max_header_size - 1) rest))
                     else 0)"
    have "field_loop (drop k rest) (p + k + 1) c = Some (b, q, r)"
      using False c "2.prems" by (simp add: k_def [symmetric] del: length_Cons)
    from "2.IH" [OF False c k_def this] field_char_same [OF c] show ?thesis by (rule same_head_trans [rotated])
  qed (use "2.prems" in simp)
qed simp

lemma value_char_same: "value_char ch h a = Step h' b \<Longrightarrow> hp_state a = S_header_value \<Longrightarrow> same_head a b"
  by (auto simp: value_char_def content_length_char_def same_head_def Let_def split: header_state.splits if_splits)

lemma value_loop_same: "value_loop s p h a = Some (kind, q, h', b) \<Longrightarrow> hp_state a = S_header_value \<Longrightarrow> same_head a b"
proof (induction s p h a arbitrary: kind q h' b rule: value_loop.induct)
  case (2 ch rest p h a)
  define window where "window = take max_header_size (ch # rest)"
  define k where "k = length (takeWhile (\<lambda>c. c \<noteq> cr \<and> c \<noteq> lf \<and> value_ok a c) window)"
  show ?case
  proof (cases "ch = cr \<or> ch = lf \<or> \<not> value_ok a ch")
    case True
    with "2.prems" show ?thesis by (auto split: if_splits)
  next
    case ok: False
    show ?thesis
    proof (cases "h = H_general")
      case True
      note IH1 = "2.IH"(1) [OF _ _ _ True window_def k_def]
      note IH2 = "2.IH"(2) [OF _ _ _ True window_def k_def]
      have eq: "value_loop (ch # rest) p h a =
        (if k < length window then
              (if window ! k = cr \<or> window ! k = lf then value_loop (drop k (ch # rest)) (p + k) h a
               else Some (V_token_error, p + k, h, a))
            else if k = length (ch # rest) then Some (V_end, p + k, h, a)
            else value_loop (drop (k + 1) (ch # rest)) (p + k + 1) h a)"
        using ok True by (simp add: window_def [symmetric] k_def [symmetric] Let_def del: drop_Suc_Cons)
      show ?thesis
        using "2.prems" ok IH1 [of kind q h' b] IH2 [of kind q h' b] unfolding eq
        by (auto split: if_splits simp del: drop_Suc_Cons)
    next
      case False
      with ok "2.prems" consider h2 c where "value_char ch h a = Step h2 c" "value_loop rest (p + 1) h2 c = Some (kind, q, h', b)"
        | "b = a" by (auto split: value_step.splits)
      then show ?thesis
      proof cases
        case 1
        from value_char_same [OF 1(1) "2.prems"(2)] have a: "same_head a c" .
        with "2.prems"(2) have "hp_state c = S_header_value" by (simp add: same_head_def)
        from "2.IH"(3) [OF _ _ _ False 1(1) 1(2) this] ok have "same_head c b" by blast
        with a show ?thesis by (rule same_head_trans)
      qed simp
    qed
  qed
qed simp

lemma keeps_header_field: "m \<le> n (connection (prs x)) \<Longrightarrow> keeps_heads n m (exec_header_field e x)"
  by (auto simp: exec_header_field_def same_head_def intro!: keeps_rules dest!: field_loop_same
      split: option.split prod.split)

lemma keeps_header_value:
  assumes "m \<le> n (connection (prs x))" "hp_state (prs x) = S_header_value"
  shows "keeps_heads n m (exec_header_value e x)"
proof (cases "value_loop (drop (p_pos x) (buffer_data e)) (p_pos x) (hp_header_state (prs x)) (prs x)")
  case (Some t)
  obtain kind q h a where t: "t = (kind, q, h, a)" by (cases t)
  with Some have "same_head (prs x) a" using assms(2) by (auto intro: value_loop_same)
  with assms(1) Some t show ?thesis
    by (cases kind) (auto simp: exec_header_value_def exec_header_almost_done_def Let_def same_head_def intro!: keeps_rules)
qed (simp add: exec_header_value_def)

lemma keeps_url_char: "m \<le> n (connection (prs x)) \<Longrightarrow> keeps_heads n m (exec_url_char e ch x)"
  by (simp add: exec_url_char_def Let_def split: prod.split)

lemma connection_take_body [simp]: "connection (prs (take_body e x)) = connection (prs x)"
  by (simp add: take_body_def Let_def)

lemma keeps_req_method: "m \<le> n (connection (prs x)) \<Longrightarrow> keeps_heads n m (exec_req_method ch x)"
  by (auto simp: exec_req_method_def intro!: keeps_notify split: option.split)

lemmas exec_defs = exec_dead_def exec_req_spaces_before_url_def exec_req_schema_def exec_req_url_def
  exec_req_http_start_def exec_constant_def exec_req_http_major_def exec_req_http_dot_def exec_req_http_minor_def
  exec_req_http_end_def exec_req_line_almost_done_def exec_header_value_discard_ws_def exec_header_almost_done_def
  exec_header_value_lws_def exec_header_value_discard_ws_almost_done_def exec_header_value_discard_lws_def
  exec_body_identity_def exec_body_identity_eof_def exec_message_done_def exec_chunk_size_start_def exec_chunk_size_def
  exec_chunk_parameters_def exec_chunk_size_almost_done_def exec_chunk_data_def exec_chunk_data_almost_done_def
  exec_chunk_data_done_def

lemma keeps_exec_state:
  assumes "counts_heads n (env_handlers e)" "m \<le> n (connection (prs x))"
  shows "keeps_heads n m (exec_state e ch x)"
proof -
  note rules = keeps_rules keeps_start_req keeps_req_method keeps_headers_done keeps_headers_almost_done keeps_header_field_start
    keeps_header_value_start keeps_header_field keeps_header_value keeps_url_char
  from assms show ?thesis
    by (cases "hp_state (prs x)"; simp only: exec_state_def parser_state.case)
      (auto simp: exec_defs Let_def intro!: rules split: option.split)
qed

lemma keeps_exec_byte:
  "counts_heads n (env_handlers e) \<Longrightarrow> m \<le> n (connection (prs x)) \<Longrightarrow> keeps_heads n m (exec_byte e x)"
  by (auto simp: exec_byte_def Let_def intro!: keeps_count keeps_exec_state)

lemma keeps_leftover:
  "counts_heads n (env_handlers e) \<Longrightarrow> m \<le> n (connection (prs x)) \<Longrightarrow> keeps_heads n m (exec_leftover e x)"
  unfolding exec_leftover_def Let_def by (auto intro!: keeps_rules)

lemma keeps_exec_loop:
  "counts_heads n (env_handlers e) \<Longrightarrow> m \<le> n (connection (prs x)) \<Longrightarrow> keeps_heads n m (exec_loop e x)"
proof (induction e x rule: exec_loop.induct)
  case (1 e x)
  show ?case
  proof (cases "length (buffer_data e) \<le> p_pos x")
    case True
    with 1 show ?thesis by (subst exec_loop.simps) (simp add: keeps_leftover)
  next
    case False
    with 1 keeps_exec_byte [OF 1(2,3)] show ?thesis
      by (subst exec_loop.simps) (auto split: outcome.split)
  qed
qed

subsubsection \<open>In a head every byte is counted\<close>

text \<open>A pass through the loop ends behind byte \<open>p\<close> with all bytes counted, or a head has been completed.\<close>

definition byte_counted :: "('c \<Rightarrow> nat) \<Rightarrow> nat \<Rightarrow> nat \<Rightarrow> 'c outcome \<Rightarrow> bool" where
  "byte_counted n m base = outcome_ok
     (\<lambda>y. m < n (connection (prs y)) \<or>
          in_head (prs y) \<and> m \<le> n (connection (prs y)) \<and> local_nread y = base + Suc (p_pos y) \<and> local_nread y \<le> max_header_size)
     (\<lambda>_ b. hp_errno b = CHPE_OK \<longrightarrow> m < n (connection b))"

lemma bc_Next:
  "in_head (prs y) \<Longrightarrow> m \<le> n (connection (prs y)) \<Longrightarrow> local_nread y = base + Suc (p_pos y) \<Longrightarrow> local_nread y \<le> max_header_size
     \<Longrightarrow> byte_counted n m base (Next y)"
  by (simp add: byte_counted_def)

lemma bc_error [simp]: "err \<noteq> CHPE_OK \<Longrightarrow> byte_counted n m base (exec_error err x)"
  by (simp add: byte_counted_def exec_error_def)

lemma bc_strict: "byte_counted n m base k \<Longrightarrow> byte_counted n m base (strict_check c x k)"
  by (simp add: strict_check_def)

lemma bc_keeps: "keeps_heads n (Suc m) t \<Longrightarrow> byte_counted n m base t"
  by (cases t) (auto simp: byte_counted_def)

lemma bc_count:
  assumes "local_nread x + v < 2 ^ 32"
    "local_nread x + v \<le> max_header_size \<Longrightarrow> byte_counted n m base (k (x\<lparr>local_nread := local_nread x + v\<rparr>))"
  shows "byte_counted n m base (count_header_size v x k)"
  using assms by (simp add: count_header_size_def Let_def)

lemma in_head_goto: "in_head (prs x) \<Longrightarrow> hp_state (prs x) \<noteq> S_start_req \<Longrightarrow> head_state s \<Longrightarrow> in_head (prs (goto_state s x))"
  by (simp add: in_head_def goto_state_def)

lemma in_head_run_calls: "in_head a \<Longrightarrow> in_head (run_calls cs a)"
proof (induction cs a rule: run_calls.induct)
  case (2 cs a)
  have "in_head (nested_done a)" using 2(2) by (auto simp: nested_done_def in_head_def head_state_def)
  with 2 show ?case by simp
next
  case (3 cs a)
  have "in_head (parser_clear a)" by (simp add: parser_clear_def in_head_def head_state_def)
  with 3 show ?case by simp
qed simp

lemma in_head_on_url: "in_head a \<Longrightarrow> in_head (on_url h s a)"
  by (auto simp: on_url_def Let_def run_handler_def in_head_def split: prod.split
      intro!: in_head_run_calls [unfolded in_head_def])

lemma same_head_on_field: "same_head a (on_header_field s a)"
  by (simp add: same_head_def on_header_field_def emplace_header_def Let_def)

lemma same_head_on_value: "same_head a (on_header_value s a)"
  by (simp add: same_head_def on_header_value_def)

lemma same_head_on_body: "same_head a (on_body s a)"
  by (simp add: same_head_def on_body_def)

lemma in_head_same: "same_head a b \<Longrightarrow> in_head b = in_head a"
  by (simp add: same_head_def in_head_def)

lemmas in_head_on_data [simp] =
  in_head_same [OF same_head_on_field] in_head_same [OF same_head_on_value] in_head_same [OF same_head_on_body]

lemma bc_url:
  assumes "counts_heads n (env_handlers e)" "in_head (prs x)" "m \<le> n (connection (prs x))"
    "\<And>y. in_head (prs y) \<Longrightarrow> m \<le> n (connection (prs y)) \<Longrightarrow> p_pos y = p_pos x \<Longrightarrow> local_nread y = local_nread x
       \<Longrightarrow> byte_counted n m base (k y)"
  shows "byte_counted n m base (callback_url e er x k)"
proof -
  have "m \<le> n (connection (on_url (env_handlers e) s (prs x)))" for s
    using assms(1,3) by (auto intro: order_trans [OF _ heads_on_url])
  with assms(2-4) show ?thesis
    by (auto simp: callback_url_def callback_data_def assert_that_def Let_def byte_counted_def in_head_on_url split: option.split)
qed

lemma bc_data:
  assumes "\<And>s. same_head (prs x) (f s (prs x))" "\<And>y. prs (un y) = prs y \<and> p_pos (un y) = p_pos y \<and> local_nread (un y) = local_nread y"
    "\<And>y. same_head (prs x) (prs y) \<Longrightarrow> p_pos y = p_pos x \<Longrightarrow> local_nread y = local_nread x
       \<Longrightarrow> byte_counted n m base (k y)"
  shows "byte_counted n m base (callback_data mark un f buf extra er x k)"
  using assms by (auto simp: callback_data_def assert_that_def Let_def byte_counted_def split: option.split)

lemma bc_field:
  "(\<And>y. same_head (prs x) (prs y) \<Longrightarrow> p_pos y = p_pos x \<Longrightarrow> local_nread y = local_nread x \<Longrightarrow> byte_counted n m base (k y))
     \<Longrightarrow> byte_counted n m base (callback_field e er x k)"
  unfolding callback_field_def by (rule bc_data) (simp_all add: same_head_on_field)

lemma bc_value:
  "(\<And>y. same_head (prs x) (prs y) \<Longrightarrow> p_pos y = p_pos x \<Longrightarrow> local_nread y = local_nread x \<Longrightarrow> byte_counted n m base (k y))
     \<Longrightarrow> byte_counted n m base (callback_value e er x k)"
  unfolding callback_value_def by (rule bc_data) (simp_all add: same_head_on_value)

text \<open>A byte has been counted and its state is about to be executed.\<close>

definition byte_ready :: "('c \<Rightarrow> nat) \<Rightarrow> nat \<Rightarrow> nat \<Rightarrow> 'c execution \<Rightarrow> bool" where
  "byte_ready n m base x \<longleftrightarrow> in_head (prs x) \<and> m \<le> n (connection (prs x)) \<and> local_nread x = base + Suc (p_pos x)
     \<and> local_nread x \<le> max_header_size"

lemma bc_ready: "byte_ready n m base y \<Longrightarrow> byte_counted n m base (Next y)"
  by (simp add: byte_counted_def byte_ready_def)

lemma bc_start_req: "byte_ready n m base x \<Longrightarrow> hp_state (prs x) = S_start_req \<Longrightarrow> byte_counted n m base (exec_start_req ch x)"
  by (auto simp: exec_start_req_def callback_notify_def assert_that_def on_message_begin_def Let_def byte_counted_def byte_ready_def
      in_head_def head_state_def exec_error_def split: option.split)

lemma method_char_state: "method_char ch m i = Some (m', s) \<Longrightarrow> s = S_req_method \<or> s = S_req_spaces_before_url"
  by (auto simp: method_char_def Let_def split: if_splits)

lemma bc_req_method: "byte_ready n m base x \<Longrightarrow> hp_state (prs x) = S_req_method \<Longrightarrow> byte_counted n m base (exec_req_method ch x)"
  by (auto simp: exec_req_method_def callback_notify_def assert_that_def on_method_def Let_def byte_counted_def byte_ready_def
      in_head_def head_state_def exec_error_def split: option.split dest!: method_char_state)

lemma parse_url_state: "parse_url_char addr s ch mark p = (s', q) \<Longrightarrow> s' = S_dead \<or> s' = s \<or> s' \<in> url_states"
  by (cases s) (auto simp: parse_url_char_def url_states_def split: if_splits)

lemma head_state_url: "s \<in> url_states \<Longrightarrow> head_state s \<and> s \<noteq> S_start_req"
  by (auto simp: url_states_def head_state_def)

lemma bc_url_char:
  "byte_ready n m base x \<Longrightarrow> hp_state (prs x) \<noteq> S_start_req \<Longrightarrow> byte_counted n m base (exec_url_char e ch x)"
  by (auto simp: exec_url_char_def Let_def byte_ready_def in_head_def split: prod.split
      intro!: bc_Next dest!: parse_url_state head_state_url)

lemma byte_ready_step:
  assumes "byte_ready n m base x" "hp_state (prs x) \<noteq> S_start_req" "head_state (hp_state (prs y))"
    "message_complete (prs y) = message_complete (prs x)" "F_TRAILING \<in> hp_flags (prs y) \<longrightarrow> F_TRAILING \<in> hp_flags (prs x)"
    "connection (prs y) = connection (prs x)" "local_nread y = local_nread x" "p_pos y = p_pos x"
  shows "byte_ready n m base y"
  using assms by (auto simp: byte_ready_def in_head_def)

lemma byte_ready_goto:
  "byte_ready n m base x \<Longrightarrow> hp_state (prs x) \<noteq> S_start_req \<Longrightarrow> head_state s \<Longrightarrow> byte_ready n m base (goto_state s x)"
  by (erule byte_ready_step) (simp_all add: goto_state_def)

lemma hp_state_goto [simp]: "hp_state (prs (goto_state s x)) = s"
  by (simp add: goto_state_def)

lemma bc_headers_almost_done:
  assumes "counts_heads n (env_handlers e)" "byte_ready n m base x" "hp_state (prs x) \<noteq> S_start_req"
  shows "byte_counted n m base (exec_headers_almost_done e ch x)"
proof -
  let ?y = "put_prs (\<lambda>a. a\<lparr>hp_state := S_headers_done,
     hp_upgrade := (F_UPGRADE \<in> hp_flags a \<or> hp_method a = Connect)\<rparr>) x"
  define z where "z = put_prs (on_headers_complete (env_handlers e)) ?y"
  have z: "Suc m \<le> n (connection (prs z))"
    using heads_on_headers [OF assms(1), of "prs ?y"] assms(2) by (simp add: byte_ready_def z_def)
  have trail: "F_TRAILING \<notin> hp_flags (prs x)" using assms(2,3) by (simp add: byte_ready_def in_head_def)
  have "byte_counted n m base (if hp_errno (prs z) \<noteq> CHPE_OK then Return (p_pos z) ((prs z)\<lparr>hp_nread := local_nread z\<rparr>)
     else if hp_state (prs z) = S_start_req then exec_start_req ch z else exec_headers_done e ch z)"
    by (rule bc_keeps) (use z keeps_start_req [where n = n and x = z and m = "Suc m"] keeps_headers_done [where n = n and x = z and m = "Suc m", OF assms(1)] in simp)
  with trail show ?thesis
    unfolding exec_headers_almost_done_def Let_def z_def by (intro bc_strict) simp
qed

lemma bc_header_field_start:
  assumes "counts_heads n (env_handlers e)" "byte_ready n m base x" "hp_state (prs x) \<noteq> S_start_req"
  shows "byte_counted n m base (exec_header_field_start e ch x)"
proof -
  have "byte_ready n m base (goto_state S_headers_almost_done x)"
    using assms(2,3) by (rule byte_ready_goto) (simp add: head_state_def)
  then show ?thesis using assms
    by (auto simp: exec_header_field_start_def Let_def head_state_def
        intro!: bc_ready bc_headers_almost_done intro: byte_ready_step)
qed

lemma bc_header_value_start:
  assumes "byte_ready n m base x" "hp_state (prs x) \<noteq> S_start_req"
  shows "byte_counted n m base (exec_header_value_start e ch x)"
  by (cases "hp_header_state (prs x)"; simp add: exec_header_value_start_def Let_def)
     (auto intro!: bc_ready byte_ready_step [OF assms] simp: head_state_def)

lemma head_states [simp]:
  "head_state S_req_method" "head_state S_req_server_start" "head_state S_req_http_start" "head_state S_req_http_H"
  "head_state S_req_http_HT" "head_state S_req_http_HTT" "head_state S_req_http_HTTP" "head_state S_req_http_I"
  "head_state S_req_http_IC" "head_state S_req_http_major" "head_state S_req_http_dot" "head_state S_req_http_minor"
  "head_state S_req_http_end" "head_state S_req_line_almost_done" "head_state S_header_field_start"
  "head_state S_header_field" "head_state S_header_value_discard_ws" "head_state S_header_value_discard_ws_almost_done"
  "head_state S_header_value_discard_lws" "head_state S_header_value_start" "head_state S_header_value"
  "head_state S_header_value_lws" "head_state S_header_almost_done" "head_state S_headers_almost_done" "head_state S_dead"
  by (simp_all add: head_state_def)

lemma byte_ready_count:
  "in_head (prs x) \<Longrightarrow> m \<le> n (connection (prs x)) \<Longrightarrow> local_nread x + v = base + Suc (p_pos x) \<Longrightarrow>
     local_nread x + v \<le> max_header_size \<Longrightarrow> byte_ready n m base (x\<lparr>local_nread := local_nread x + v\<rparr>)"
  by (simp add: byte_ready_def)

lemma bc_header_field:
  assumes "byte_ready n m base x" "hp_state (prs x) = S_header_field" "p_pos x < length (buffer_data e)"
    "length (buffer_data e) < 2 ^ 31"
  shows "byte_counted n m base (exec_header_field e x)"
proof (cases "field_loop (drop (p_pos x) (buffer_data e)) (p_pos x) (prs x)")
  case (Some t)
  obtain a q r where t: "t = (a, q, r)" by (cases t)
  have pos: "p_pos x \<le> q" "r = None \<Longrightarrow> q = length (buffer_data e)" "r \<noteq> None \<Longrightarrow> q < length (buffer_data e)"
    using field_loop_pos [OF Some [unfolded t]] assms(3) by auto
  have "same_head (prs x) a" using Some t by (auto intro: field_loop_same)
  then have head: "in_head a" "connection a = connection (prs x)" "hp_state a = S_header_field"
    using assms(1,2) by (auto simp: byte_ready_def in_head_same) (simp_all add: same_head_def)
  have x: "m \<le> n (connection (prs x))" "local_nread x = base + Suc (p_pos x)" "local_nread x \<le> max_header_size"
    using assms(1) by (simp_all add: byte_ready_def)
  show ?thesis
  proof (cases r)
    case None
    then show ?thesis using Some t pos head x assms(3,4)
      by (simp add: exec_header_field_def)
        (intro bc_count bc_Next; simp add: max_header_size_def)
  next
    case (Some ch)
    then show ?thesis using \<open>field_loop _ _ _ = _\<close> t pos head x assms(3,4)
      by (simp add: exec_header_field_def)
        (intro bc_count; auto simp: max_header_size_def head_state_def goto_state_def same_head_def in_head_def
           intro!: bc_field bc_Next)
  qed
qed (simp add: exec_header_field_def byte_counted_def)

lemma bc_header_value:
  assumes "byte_ready n m base x" "hp_state (prs x) = S_header_value" "p_pos x < length (buffer_data e)"
    "length (buffer_data e) < 2 ^ 31"
  shows "byte_counted n m base (exec_header_value e x)"
proof (cases "value_loop (drop (p_pos x) (buffer_data e)) (p_pos x) (hp_header_state (prs x)) (prs x)")
  case (Some t)
  obtain kind q h a where t: "t = (kind, q, h, a)" by (cases t)
  have pos: "p_pos x \<le> q" "kind = V_end \<Longrightarrow> q = length (buffer_data e)" "kind \<noteq> V_end \<Longrightarrow> q < length (buffer_data e)"
    using value_loop_pos [OF Some [unfolded t]] assms(3) by auto
  have "same_head (prs x) a" using Some t assms(2) by (auto intro: value_loop_same)
  then have head: "in_head a" "connection a = connection (prs x)" "hp_state a = S_header_value"
    using assms(1,2) by (auto simp: byte_ready_def in_head_same) (simp_all add: same_head_def)
  have x: "m \<le> n (connection (prs x))" "local_nread x = base + Suc (p_pos x)" "local_nread x \<le> max_header_size"
    using assms(1) by (simp_all add: byte_ready_def)
  from Some t pos head x assms(3,4) show ?thesis
    by (cases kind; simp add: exec_header_value_def Let_def)
      (intro bc_count bc_value; auto simp: max_header_size_def goto_state_def same_head_def in_head_def
           exec_header_almost_done_def intro!: bc_count bc_value bc_Next)+
qed (simp add: exec_header_value_def byte_counted_def)

lemma byte_ready_url:
  assumes "counts_heads n (env_handlers e)" "byte_ready n m base x" "in_head (prs y)" "connection (prs y) = connection (prs x)"
    "p_pos y = p_pos x" "local_nread y = local_nread x"
  shows "byte_counted n m base (callback_url e er y Next)"
  using assms by (intro bc_url bc_Next) (auto simp: byte_ready_def)

lemma bc_goto:
  "byte_ready n m base x \<Longrightarrow> hp_state (prs x) \<noteq> S_start_req \<Longrightarrow> head_state s \<Longrightarrow> byte_counted n m base (Next (goto_state s x))"
  by (intro bc_ready byte_ready_goto)

lemma bc_spaces_before_url:
  assumes "byte_ready n m base x" "hp_state (prs x) \<noteq> S_start_req"
  shows "byte_counted n m base (exec_req_spaces_before_url e ch x)"
proof -
  let ?y = "x\<lparr>url_mark := set_mark (url_mark x) (p_pos x), url_start_mark := set_mark (url_start_mark x) (p_pos x)\<rparr>"
  have y: "byte_ready n m base ?y" using assms by (intro byte_ready_step [OF assms]) (simp_all add: byte_ready_def in_head_def)
  then have "byte_ready n m base (goto_state S_req_server_start ?y)" using assms(2) by (intro byte_ready_goto) simp_all
  with y assms show ?thesis
    by (simp add: exec_req_spaces_before_url_def Let_def bc_ready bc_url_char)
qed

lemma bc_req_url:
  assumes "counts_heads n (env_handlers e)" "byte_ready n m base x" "hp_state (prs x) \<noteq> S_start_req"
  shows "byte_counted n m base (exec_req_url e ch x)"
proof -
  have "in_head (prs x)" using assms(2) by (simp add: byte_ready_def)
  then have "in_head ((prs x)\<lparr>http_major := 0, http_minor := 9, hp_state := s\<rparr>)" if "head_state s" for s
    using assms(3) that by (simp add: in_head_def)
  then show ?thesis using assms
    by (auto simp: exec_req_url_def bc_url_char byte_ready_def intro!: byte_ready_url [OF assms(1,2)] in_head_goto)
qed

lemma bc_value_lws:
  assumes "counts_heads n (env_handlers e)" "byte_ready n m base x" "hp_state (prs x) \<noteq> S_start_req"
  shows "byte_counted n m base (exec_header_value_lws e ch x)"
proof -
  let ?y = "put_prs (\<lambda>a. a\<lparr>hp_header_state := (if hp_header_state a = H_content_length_num then H_content_length_ws
     else hp_header_state a), hp_state := S_header_value_start\<rparr>) x"
  let ?z = "goto_state S_header_field_start (put_prs finish_header x)"
  have "byte_ready n m base ?y" by (rule byte_ready_step [OF assms(2,3)]) simp_all
  moreover have "byte_ready n m base ?z"
    by (rule byte_ready_step [OF assms(2,3)]) (auto simp: goto_state_def finish_header_def split: header_state.splits)
  ultimately show ?thesis
    by (simp add: exec_header_value_lws_def bc_header_value_start bc_header_field_start assms(1))
qed

lemma bc_discard_lws:
  assumes "counts_heads n (env_handlers e)" "byte_ready n m base x" "hp_state (prs x) \<noteq> S_start_req"
  shows "byte_counted n m base (exec_header_value_discard_lws e ch x)"
proof -
  let ?y = "goto_state S_header_field_start (x\<lparr>value_mark := set_mark (value_mark x) (p_pos x)\<rparr>)"
  have y: "byte_ready n m base ?y" by (rule byte_ready_step [OF assms(2,3)]) (simp_all add: goto_state_def)
  have "byte_counted n m base (exec_header_field_start e ch z)"
    if "same_head (prs ?y) (prs z)" "p_pos z = p_pos ?y" "local_nread z = local_nread ?y" for z
  proof -
    have "hp_state (prs z) = S_header_field_start" using that(1) by (simp add: same_head_def)
    moreover have "byte_ready n m base z"
      using that by (intro byte_ready_step [OF y]) (simp_all add: same_head_def)
    ultimately show ?thesis using assms(1) by (intro bc_header_field_start) simp_all
  qed
  then have "byte_counted n m base (callback_value e (p_pos x) ?y (exec_header_field_start e ch))"
    by (intro bc_value) blast
  with assms show ?thesis by (simp add: exec_header_value_discard_lws_def bc_goto)
qed

lemma bc_version:
  assumes "byte_ready n m base x" "hp_state (prs x) \<noteq> S_start_req"
  shows "byte_counted n m base (exec_req_http_major ch x)" "byte_counted n m base (exec_req_http_minor ch x)"
  by (auto simp: exec_req_http_major_def exec_req_http_minor_def intro!: bc_ready byte_ready_step [OF assms])

lemma bc_exec_state:
  assumes "counts_heads n (env_handlers e)" "byte_ready n m base x" "p_pos x < length (buffer_data e)" "length (buffer_data e) < 2 ^ 31"
  shows "byte_counted n m base (exec_state e ch x)"
proof -
  have head: "head_state (hp_state (prs x))" using assms(2) by (simp add: byte_ready_def in_head_def)
  note defs = exec_dead_def exec_req_schema_def exec_req_http_start_def exec_constant_def exec_req_http_dot_def
    exec_req_http_end_def exec_req_line_almost_done_def exec_header_value_discard_ws_def exec_header_almost_done_def
    exec_header_value_discard_ws_almost_done_def
  note passes = bc_start_req bc_req_method bc_header_field bc_header_value bc_url_char
    bc_spaces_before_url bc_req_url bc_value_lws bc_discard_lws bc_version
    bc_header_field_start bc_headers_almost_done bc_header_value_start bc_goto bc_ready bc_strict
  show ?thesis
    using assms head
    by (cases "hp_state (prs x)"; simp only: exec_state_def parser_state.case)
      (simp_all add: defs passes, simp_all add: head_state_def)
qed

lemma bc_exec_byte:
  assumes "counts_heads n (env_handlers e)" "in_head (prs x)" "m \<le> n (connection (prs x))"
    "local_nread x = base + p_pos x" "local_nread x \<le> max_header_size"
    "p_pos x < length (buffer_data e)" "length (buffer_data e) < 2 ^ 31"
  shows "byte_counted n m base (exec_byte e x)"
proof -
  have "parsing_header (hp_state (prs x))" using assms(2) by (simp add: in_head_def head_state_def)
  moreover have "byte_counted n m base (count_header_size 1 x (exec_state e ch))" for ch
    using assms by (intro bc_count bc_exec_state byte_ready_count) (simp_all add: max_header_size_def)
  ultimately show ?thesis by (simp add: exec_byte_def Let_def)
qed

text \<open>What is returned: all bytes have been counted, or a head has been completed, or there is an error.\<close>

definition all_counted :: "('c \<Rightarrow> nat) \<Rightarrow> nat \<Rightarrow> nat \<Rightarrow> 'c outcome \<Rightarrow> bool" where
  "all_counted n m tot = outcome_ok (\<lambda>_. True) (\<lambda>_ b. hp_errno b = CHPE_OK \<longrightarrow> m < n (connection b) \<or>
     in_head b \<and> m \<le> n (connection b) \<and> hp_nread b = tot \<and> tot \<le> max_header_size)"

lemma all_counted_keeps: "keeps_heads n (Suc m) t \<Longrightarrow> all_counted n m tot t"
  by (cases t) (auto simp: all_counted_def)

lemma all_counted_Abort: "all_counted n m tot Abort"
  by (simp add: all_counted_def)

lemma all_counted_data:
  assumes "in_head (prs x)" "m \<le> n (connection (prs x))"
    "\<And>s. in_head (f s (prs x)) \<and> m \<le> n (connection (f s (prs x)))"
    "\<And>y. prs (un y) = prs y \<and> local_nread (un y) = local_nread y"
    "\<And>y. in_head (prs y) \<Longrightarrow> m \<le> n (connection (prs y)) \<Longrightarrow> local_nread y = local_nread x \<Longrightarrow> all_counted n m tot (k y)"
  shows "all_counted n m tot (callback_data mark un f buf extra er x k)"
  using assms by (auto simp: callback_data_def assert_that_def Let_def all_counted_def split: option.split)

lemma leftover_counted:
  assumes "counts_heads n (env_handlers e)" "in_head (prs x)" "m \<le> n (connection (prs x))" "local_nread x \<le> max_header_size"
  shows "all_counted n m (local_nread x) (exec_leftover e x)"
proof -
  have url: "in_head (on_url (env_handlers e) s a) \<and> m \<le> n (connection (on_url (env_handlers e) s a))"
    if "in_head a" "m \<le> n (connection a)" for s a
    using that assms(1) by (auto intro: in_head_on_url order_trans [OF _ heads_on_url])
  have last: "all_counted n m (local_nread x) (Return (length (buffer_data e)) ((prs y)\<lparr>hp_nread := local_nread y\<rparr>))"
    if "in_head (prs y)" "m \<le> n (connection (prs y))" "local_nread y = local_nread x" for y
    using that assms(4) by (simp add: all_counted_def in_head_def)
  show ?thesis
    unfolding exec_leftover_def Let_def assert_that_def callback_field_def callback_value_def callback_url_def callback_body_def
    using assms(2,3)
    by (auto simp: all_counted_Abort intro!: all_counted_data last url)
qed

lemma loop_counted:
  assumes "counts_heads n (env_handlers e)" "length (buffer_data e) < 2 ^ 31"
  shows "in_head (prs x) \<Longrightarrow> m \<le> n (connection (prs x)) \<Longrightarrow> local_nread x = base + p_pos x \<Longrightarrow>
    local_nread x \<le> max_header_size \<Longrightarrow> p_pos x \<le> length (buffer_data e) \<Longrightarrow>
    all_counted n m (base + length (buffer_data e)) (exec_loop e x)"
  using assms
proof (induction e x rule: exec_loop.induct)
  case (1 e x)
  show ?case
  proof (cases "length (buffer_data e) \<le> p_pos x")
    case True
    with 1 leftover_counted [OF 1(7) 1(2,3,5)] show ?thesis by (subst exec_loop.simps) simp
  next
    case False
    have byte: "byte_counted n m base (exec_byte e x)" using 1(2-8) False by (intro bc_exec_byte) simp_all
    show ?thesis
    proof (cases "exec_byte e x")
      case (Next y)
      let ?y = "y\<lparr>p_pos := p_pos y + 1\<rparr>"
      have loop: "exec_loop e x = exec_loop e ?y" using False Next by (subst exec_loop.simps) simp
      have pos: "p_pos ?y \<le> length (buffer_data e)" using moves_exec_byte [of x e] False Next by simp
      consider "m < n (connection (prs y))"
        | "in_head (prs y)" "m \<le> n (connection (prs y))" "local_nread y = base + Suc (p_pos y)" "local_nread y \<le> max_header_size"
        using byte Next by (auto simp: byte_counted_def)
      then show ?thesis
      proof cases
        case 1
        then show ?thesis unfolding loop
          using \<open>counts_heads n (env_handlers e)\<close> by (intro all_counted_keeps keeps_exec_loop) simp_all
      next
        case 2
        from False Next 2 pos 1(7,8) show ?thesis unfolding loop by (intro 1(1)) simp_all
      qed
    next
      case (Return k b)
      with byte False show ?thesis by (subst exec_loop.simps) (simp add: byte_counted_def all_counted_def)
    next
      case Abort
      with False show ?thesis by (subst exec_loop.simps) (simp add: all_counted_def)
    qed
  qed
qed

lemma feed_counted:
  assumes "counts_heads n (env_handlers e)" "length (buffer_data e) < 2 ^ 31"
    "in_head a" "hp_nread a \<le> max_header_size" "m \<le> n (connection a)" "feed e a = Some (True, b)"
  shows "m < n (connection b) \<or> in_head b \<and> m \<le> n (connection b)
     \<and> hp_nread b = hp_nread a + length (buffer_data e) \<and> hp_nread b \<le> max_header_size"
proof -
  have "\<not> message_complete a" using assms(3) by (simp add: in_head_def)
  with assms(6) obtain k where k: "http_parser_execute e a = Return k b" "hp_errno b = CHPE_OK" "k = length (buffer_data e)"
    by (auto simp: feed_def split: outcome.splits)
  show ?thesis
  proof (cases "hp_errno a = CHPE_OK \<and> buffer_data e \<noteq> []")
    case True
    then have "exec_loop e (start_execution a) = Return k b"
      using k(1) by (simp add: http_parser_execute_def Let_def)
    then show ?thesis
      using loop_counted [OF assms(1,2), of "start_execution a" m "hp_nread a"] assms(3-5) k(2)
      by (auto simp: start_execution_def all_counted_def)
  next
    case False
    with k assms(3-5) show ?thesis
      by (auto simp: http_parser_execute_def Let_def in_head_def head_state_def split: if_splits)
  qed
qed

text \<open>The buffers of a connection, each with its address.\<close>

fun feeds :: "'c handlers \<Rightarrow> (nat \<times> string) list \<Rightarrow> 'c http_parser \<Rightarrow> 'c http_parser option" where
  "feeds h [] a = Some a"
| "feeds h ((addr, s) # bufs) a =
     (case feed \<lparr>env_handlers = h, buffer_address = addr, buffer_data = s\<rparr> a of
        Some (True, b) \<Rightarrow> feeds h bufs b
      | _ \<Rightarrow> None)"

lemma feed_keeps:
  assumes "counts_heads n (env_handlers e)" "m \<le> n (connection a)" "feed e a = Some (True, b)"
  shows "m \<le> n (connection b)"
proof (cases "message_complete a")
  case False
  with assms(3) obtain k where "http_parser_execute e a = Return k b" by (auto simp: feed_def split: outcome.splits)
  moreover have "keeps_heads n m (http_parser_execute e a)"
    using assms(1,2) keeps_exec_loop [OF assms(1), of m "start_execution a"]
    by (auto simp: http_parser_execute_def Let_def start_execution_def intro!: keeps_complete)
  ultimately show ?thesis by simp
qed (use assms in \<open>simp add: feed_def\<close>)

lemma feeds_keep: "counts_heads n h \<Longrightarrow> m \<le> n (connection a) \<Longrightarrow> feeds h bufs a = Some b \<Longrightarrow> m \<le> n (connection b)"
proof (induction h bufs a rule: feeds.induct)
  case (2 h addr s bufs a)
  let ?e = "\<lparr>env_handlers = h, buffer_address = addr, buffer_data = s\<rparr>"
  from 2 obtain c where c: "feed ?e a = Some (True, c)" "feeds h bufs c = Some b"
    by (auto split: option.splits bool.splits prod.splits)
  have "m \<le> n (connection c)" using feed_keeps [of n ?e m a c] 2(2,3) c(1) by simp
  with 2(1) [OF c(1) refl refl] c(2) 2(2) show ?case by simp
qed simp

lemma feeds_counted:
  "counts_heads n h \<Longrightarrow> \<forall>(addr, s) \<in> set bufs. length s < 2 ^ 31 \<Longrightarrow> in_head a \<Longrightarrow> hp_nread a \<le> max_header_size
     \<Longrightarrow> m \<le> n (connection a) \<Longrightarrow> feeds h bufs a = Some b \<Longrightarrow> n (connection b) \<le> m \<Longrightarrow>
     in_head b \<and> hp_nread b = hp_nread a + sum_list (map (length \<circ> snd) bufs) \<and> hp_nread b \<le> max_header_size"
proof (induction h bufs a rule: feeds.induct)
  case (2 h addr s bufs a)
  let ?e = "\<lparr>env_handlers = h, buffer_address = addr, buffer_data = s\<rparr>"
  from 2(7) obtain c where c: "feed ?e a = Some (True, c)" "feeds h bufs c = Some b"
    by (auto split: option.splits bool.splits prod.splits)
  have "m < n (connection c) \<or> in_head c \<and> m \<le> n (connection c) \<and> hp_nread c = hp_nread a + length s \<and> hp_nread c \<le> max_header_size"
    using feed_counted [of n ?e a m c] 2(2-6) c(1) by simp
  moreover have "\<not> m < n (connection c)"
    using feeds_keep [OF 2(2) _ c(2), of "Suc m"] 2(8) by auto
  ultimately have "in_head c" "m \<le> n (connection c)" "hp_nread c = hp_nread a + length s" "hp_nread c \<le> max_header_size"
    by simp_all
  with 2(1) [OF c(1) refl refl] c(2) 2(2,3,8) show ?case by simp
qed simp

text \<open>C32: A head that is never completed is limited to 80 KiB, however it is cut into buffers and whatever
  its bytes are: when a parser at the start of a request has taken all the buffers it was fed, without
  an error and without reporting a complete head to its connection, these have at most
  \<open>max_header_size\<close> bytes together with those it had counted before, and each of them is counted.\<close>

theorem unfinished_head_is_bounded:
  assumes "counts_heads n h" "hp_state a = S_start_req" "\<not> message_complete a" "hp_nread a \<le> max_header_size"
    "\<forall>(addr, s) \<in> set bufs. length s < 2 ^ 31" "feeds h bufs a = Some b" "n (connection b) = n (connection a)"
  shows "hp_nread a + sum_list (map (length \<circ> snd) bufs) \<le> max_header_size
    \<and> hp_nread b = hp_nread a + sum_list (map (length \<circ> snd) bufs)"
proof -
  have "in_head a" using assms(2,3) by (simp add: in_head_def head_state_def)
  from feeds_counted [OF assms(1,5) this assms(4) _ assms(6), of "n (connection a)"] assms(7) show ?thesis by simp
qed

text \<open>A connection whose state is the number of heads it was given.\<close>

definition head_counter :: "nat handlers" where
  "head_counter = \<lparr>handle_url = \<lambda>r c. (c, []), handle_header = \<lambda>r c. (Suc c, []), handle_message = \<lambda>r c. (c, [])\<rparr>"

theorem unfinished_head_is_bounded_witness:
  "\<exists>b. feeds head_counter [(4096, ''GET /a HTTP/1.1'' @ [cr, lf] @ ''Ho''), (4096, ''st: x'')] (http_parser_init 0) = Some b
     \<and> hp_nread b = 24"
proof -
  let ?bufs = "[(4096, ''GET /a HTTP/1.1'' @ [cr, lf] @ ''Ho''), (4096, ''st: x'')]"
  have "map_option connection (feeds head_counter ?bufs (http_parser_init 0)) = Some 0" by code_simp
  then obtain b where b: "feeds head_counter ?bufs (http_parser_init 0) = Some b" "connection b = 0" by auto
  have "counts_heads (\<lambda>c. c) head_counter" by (simp add: counts_heads_def head_counter_def)
  from unfinished_head_is_bounded [OF this _ _ _ _ b(1)] b show ?thesis
    by (simp add: http_parser_init_def max_header_size_def del: feeds.simps)
qed

end
