(* ===== verification/Requests.thy ===== *)
theory Requests
  imports HttpParser
begin

text \<open>
  What the HTTP parser makes of a well-formed request.
\<close>

subsection \<open>Steps of the loop\<close>

definition rest_at :: "'c execution_env \<Rightarrow> nat \<Rightarrow> string \<Rightarrow> bool" where
  "rest_at e p s \<longleftrightarrow> drop p (buffer_data e) = s"

lemma rest_at_Cons:
  "rest_at e p (c # s) \<Longrightarrow> p < length (buffer_data e) \<and> buffer_data e ! p = c \<and> rest_at e (Suc p) s"
  by (auto simp: rest_at_def) (metis drop_eq_Nil linorder_not_less list.distinct(1),
      metis nth_via_drop, metis drop_Suc list.sel(3) tl_drop)

lemma rest_at_append: "rest_at e p (s @ t) \<Longrightarrow> rest_at e (p + length s) t"
  by (auto simp: rest_at_def) (metis append_eq_conv_conj drop_drop add.commute)

lemma parser_loop_step:
  "p_pos x < length (buffer_data e) \<Longrightarrow> exec_byte e x = Next y \<Longrightarrow>
   exec_loop e x = exec_loop e (y\<lparr>p_pos := p_pos y + 1\<rparr>)"
  by (subst exec_loop.simps) simp

text \<open>The state in which every byte before \<open>p\<close> has been counted.\<close>

abbreviation counted :: "'c http_parser \<Rightarrow> nat \<Rightarrow> nat option \<Rightarrow> nat option \<Rightarrow> nat option \<Rightarrow> nat option \<Rightarrow> 'c execution" where
  "counted a p fm vm um us \<equiv>
     \<lparr>prs = a, p_pos = p, local_nread = p, field_mark = fm, value_mark = vm, url_mark = um, url_start_mark = us,
      body_mark = None\<rparr>"

lemma header_step:
  assumes "rest_at e p (ch # s)" and "parsing_header (hp_state a)" and "p < max_header_size"
    and "exec_state e ch (counted a p fm vm um us\<lparr>local_nread := Suc p\<rparr>) = Next y"
  shows "exec_loop e (counted a p fm vm um us) = exec_loop e (y\<lparr>p_pos := Suc (p_pos y)\<rparr>)"
proof -
  have "exec_byte e (counted a p fm vm um us) = Next y"
    using assms rest_at_Cons[OF assms(1)]
    by (simp add: exec_byte_def Let_def count_header_size_def max_header_size_def)
  then show ?thesis using parser_loop_step[of "counted a p fm vm um us"] rest_at_Cons[OF assms(1)] by simp
qed

subsection \<open>The method\<close>

fun read_method :: "http_method \<Rightarrow> nat \<Rightarrow> string \<Rightarrow> http_method option" where
  "read_method m i [] = Some m"
| "read_method m i (c # cs) =
     (case method_char c m i of
        Some (m', s) \<Rightarrow> if s = S_req_method then read_method m' ((i + 1) mod 32) cs else None
      | None \<Rightarrow> None)"

definition method_word :: "string \<Rightarrow> http_method option" where
  "method_word w =
     (case w of
        [] \<Rightarrow> None
      | c # cs \<Rightarrow>
          case Option.bind (first_method c) (\<lambda>m. read_method m 1 cs) of
            None \<Rightarrow> None
          | Some m \<Rightarrow> if map_option snd (method_char CHR '' '' m (length w)) = Some S_req_spaces_before_url then Some m else None)"

lemma method_words: "list_all (\<lambda>m. method_word (method_name m) = Some m) (butlast http_methods)"
  by code_simp

abbreviation with_method :: "parser_state \<Rightarrow> http_method \<Rightarrow> nat \<Rightarrow> http_method \<Rightarrow> 'c http_parser \<Rightarrow> 'c http_parser" where
  "with_method st m i r a \<equiv> a\<lparr>hp_method := m, hp_state := st, hp_req := (hp_req a)\<lparr>req_method := r\<rparr>, hp_index := i\<rparr>"

lemma loop_method:
  "read_method m i s = Some m' \<Longrightarrow> method_char CHR '' '' m' (i + length s) = Some (m', S_req_spaces_before_url) \<Longrightarrow>
   rest_at e p (s @ CHR '' '' # t) \<Longrightarrow> p + length s < max_header_size \<Longrightarrow> hp_errno a = CHPE_OK \<Longrightarrow> i + length s < 32 \<Longrightarrow>
   exec_loop e (counted (with_method S_req_method m i r a) p None None None None) =
   exec_loop e (counted (with_method S_req_spaces_before_url m' ((i + length s + 1) mod 32) m' a)
     (p + length s + 1) None None None None)"
proof (induction s arbitrary: m i p r)
  case Nil
  then show ?case
    by (subst header_step[of e p "CHR '' ''" t])
      (auto simp: exec_state_def exec_req_method_def callback_notify_def assert_that_def on_method_def)
next
  case (Cons c s)
  from Cons.prems(1) obtain m2 where c: "method_char c m i = Some (m2, S_req_method)"
    and read: "read_method m2 ((i + 1) mod 32) s = Some m'"
    by (auto split: option.splits if_splits)
  have "exec_loop e (counted (with_method S_req_method m i r a) p None None None None) =
     exec_loop e (counted (with_method S_req_method m2 ((i + 1) mod 32) m2 a) (Suc p) None None None None)"
    using Cons.prems c
    by (subst header_step[of e p c "s @ CHR '' '' # t"])
      (auto simp: exec_state_def exec_req_method_def callback_notify_def assert_that_def on_method_def)
  also have "\<dots> = exec_loop e (counted (with_method S_req_spaces_before_url m' ((i + length (c # s) + 1) mod 32) m' a)
     (p + length (c # s) + 1) None None None None)"
    using Cons.prems rest_at_Cons[of e p c "s @ CHR '' '' # t"]
    by (subst Cons.IH[OF read]) auto
  finally show ?case .
qed

lemma first_method_alpha: "first_method c = Some m \<Longrightarrow> is_alpha_char c \<and> c \<noteq> cr \<and> c \<noteq> lf"
proof -
  have "list_all (\<lambda>c. is_alpha_char c \<and> c \<noteq> cr \<and> c \<noteq> lf) ''ABCDGHLMNOPRSTU''" by code_simp
  then show "first_method c = Some m \<Longrightarrow> is_alpha_char c \<and> c \<noteq> cr \<and> c \<noteq> lf"
    by (auto simp: first_method_def split: if_splits)
qed

text \<open>The first letter, the rest of the word and the space behind it.\<close>

definition fresh_message :: "'c http_parser \<Rightarrow> 'c http_parser" where
  "fresh_message a = a\<lparr>hp_flags := {}, uses_transfer_encoding := False, hp_content_length := ullong_max\<rparr>"

lemma loop_method_word:
  assumes word: "method_word w = Some m" and rest: "rest_at e 0 (w @ CHR '' '' # t)"
    and size: "length w < 31" and ok: "hp_errno a = CHPE_OK" and start: "hp_state a = S_start_req"
  shows "exec_loop e (counted a 0 None None None None) =
    exec_loop e (counted (with_method S_req_spaces_before_url m (length w + 1) m (fresh_message a))
      (length w + 1) None None None None)"
proof -
  from word obtain c cs m0 st where w: "w = c # cs" and first: "first_method c = Some m0" and
    read: "read_method m0 1 cs = Some m" and sp: "method_char CHR '' '' m (length w) = Some (st, S_req_spaces_before_url)"
    by (auto simp: method_word_def split: list.splits option.splits if_splits bind_splits)
  note c = first_method_alpha[OF first]
  have st: "st = m"
    using sp by (auto simp: method_char_def Let_def split: if_splits)
  have "exec_loop e (counted a 0 None None None None) =
    exec_loop e (counted (with_method S_req_method m0 1 (req_method (hp_req a)) (fresh_message a)) 1 None None None None)"
    using rest w c first ok start
    by (subst header_step[of e 0 c "cs @ CHR '' '' # t"])
      (auto simp: exec_state_def exec_start_req_def callback_notify_def assert_that_def on_message_begin_def Let_def
        fresh_message_def max_header_size_def intro!: arg_cong[of _ _ "exec_loop e"] http_parser.equality)
  also have "\<dots> = exec_loop e (counted (with_method S_req_spaces_before_url m (length w + 1) m (fresh_message a))
      (length w + 1) None None None None)"
    using rest w sp st size ok rest_at_Cons[of e 0 c "cs @ CHR '' '' # t"]
    by (subst loop_method[OF read]) (auto simp: fresh_message_def max_header_size_def)
  finally show ?thesis .
qed

subsection \<open>The URL\<close>

lemma url_char_not: "is_url_char c \<Longrightarrow> c \<noteq> CHR '' '' \<and> c \<noteq> cr \<and> c \<noteq> lf \<and> c \<noteq> tab \<and> c \<noteq> CHR 0x0C \<and> c \<noteq> CHR ''?''"
  by (auto simp: is_url_char_def byte_def)

lemma loop_path:
  "\<forall>c\<in>set cs. is_url_char c \<Longrightarrow> rest_at e p (cs @ t) \<Longrightarrow> p + length cs \<le> max_header_size \<Longrightarrow>
   exec_loop e (counted (a\<lparr>hp_state := S_req_path\<rparr>) p None None um us) =
   exec_loop e (counted (a\<lparr>hp_state := S_req_path\<rparr>) (p + length cs) None None um us)"
proof (induction cs arbitrary: p)
  case (Cons c cs)
  have "exec_loop e (counted (a\<lparr>hp_state := S_req_path\<rparr>) p None None um us) =
    exec_loop e (counted (a\<lparr>hp_state := S_req_path\<rparr>) (Suc p) None None um us)"
    using Cons.prems url_char_not[of c]
    by (subst header_step[of e p c "cs @ t"]) (auto simp: exec_state_def exec_req_url_def exec_url_char_def parse_url_char_def Let_def)
  with Cons rest_at_Cons[of e p c "cs @ t"] show ?case by simp
qed simp

abbreviation query_state :: "parser_state \<Rightarrow> bool" where
  "query_state s \<equiv> s = S_req_query_string_start \<or> s = S_req_query_string"

lemma loop_query:
  "\<forall>c\<in>set cs. is_url_char c \<or> c = CHR ''?'' \<Longrightarrow> rest_at e p (cs @ t) \<Longrightarrow> p + length cs \<le> max_header_size \<Longrightarrow>
   query_state s \<Longrightarrow>
   \<exists>s'. query_state s' \<and>
     exec_loop e (counted (a\<lparr>hp_state := s\<rparr>) p None None um us) =
     exec_loop e (counted (a\<lparr>hp_state := s'\<rparr>) (p + length cs) None None um us)"
proof (induction cs arbitrary: p s)
  case (Cons c cs)
  have "exec_loop e (counted (a\<lparr>hp_state := s\<rparr>) p None None um us) =
    exec_loop e (counted (a\<lparr>hp_state := S_req_query_string\<rparr>) (Suc p) None None um us)"
    using Cons.prems url_char_not[of c]
    by (subst header_step[of e p c "cs @ t"]) (auto simp: exec_state_def exec_req_url_def exec_url_char_def parse_url_char_def Let_def)
  moreover have "\<exists>s'. query_state s' \<and>
     exec_loop e (counted (a\<lparr>hp_state := S_req_query_string\<rparr>) (Suc p) None None um us) =
     exec_loop e (counted (a\<lparr>hp_state := s'\<rparr>) (Suc p + length cs) None None um us)"
    using Cons.prems rest_at_Cons[of e p c "cs @ t"] by (intro Cons.IH) auto
  ultimately show ?case by simp
qed auto

text \<open>The space behind the URL: \<open>on_url\<close> gets its text.\<close>

lemma loop_url_end:
  assumes s: "s = S_req_path \<or> query_state s" and rest: "rest_at e p (CHR '' '' # t)" and size: "p < max_header_size"
    and ok: "hp_errno a = CHPE_OK" "hp_errno (on_url (env_handlers e) raw (a\<lparr>hp_state := S_req_http_start\<rparr>)) = CHPE_OK"
    and raw: "take (p - u) (drop u (buffer_data e)) = raw"
  shows "exec_loop e (counted (a\<lparr>hp_state := s\<rparr>) p None None (Some u) us) =
    exec_loop e (counted (on_url (env_handlers e) raw (a\<lparr>hp_state := S_req_http_start\<rparr>)) (Suc p) None None None us)"
proof -
  have "exec_state e CHR '' '' (counted (a\<lparr>hp_state := s\<rparr>) p None None (Some u) us\<lparr>local_nread := Suc p\<rparr>) =
      Next (counted (on_url (env_handlers e) raw (a\<lparr>hp_state := S_req_http_start\<rparr>)) p None None None us\<lparr>local_nread := Suc p\<rparr>)"
    using s ok raw by (auto simp: exec_state_def exec_req_url_def callback_url_def callback_data_def assert_that_def goto_state_def Let_def)
  with s size show ?thesis by (subst header_step[OF rest]) auto
qed

definition url_path :: "string \<Rightarrow> bool" where
  "url_path s \<longleftrightarrow> s \<noteq> [] \<and> hd s = CHR ''/'' \<and> list_all is_url_char s"

definition url_query :: "string \<Rightarrow> bool" where
  "url_query s \<longleftrightarrow> s = [] \<or> (hd s = CHR ''?'' \<and> list_all (\<lambda>c. is_url_char c \<or> c = CHR ''?'') (tl s))"

definition after_url :: "'c handlers \<Rightarrow> string \<Rightarrow> string \<Rightarrow> 'c http_parser \<Rightarrow> 'c http_parser" where
  "after_url h path q a =
     on_url h (path @ q) (a\<lparr>qs_point := (if q = [] then qs_point a else length path), hp_state := S_req_http_start\<rparr>)"

lemma loop_url:
  assumes path: "url_path path" and q: "url_query q" and rest: "rest_at e p (path @ q @ CHR '' '' # t)"
    and size: "p + length (path @ q) < max_header_size" and m: "hp_method a \<noteq> Connect"
    and st: "hp_state a = S_req_spaces_before_url"
    and ok: "hp_errno a = CHPE_OK" "hp_errno (after_url (env_handlers e) path q a) = CHPE_OK"
  shows "exec_loop e (counted a p None None None None) =
    exec_loop e (counted (after_url (env_handlers e) path q a) (p + length (path @ q) + 1) None None None (Some p))"
proof -
  define e' where "e' = p + length path"
  from path obtain cs where cs: "path = CHR ''/'' # cs" "\<forall>c\<in>set cs. is_url_char c"
    by (cases path) (auto simp: url_path_def list_all_iff)
  have raw: "take (p + length (path @ q) - p) (drop p (buffer_data e)) = path @ q"
    using rest by (simp add: rest_at_def)
  have "exec_loop e (counted a p None None None None) =
      exec_loop e (counted (a\<lparr>hp_state := S_req_path\<rparr>) (Suc p) None None (Some p) (Some p))"
    using rest size cs m st
    by (subst header_step[of e p "CHR ''/''" "cs @ q @ CHR '' '' # t"])
      (auto simp: exec_state_def exec_req_spaces_before_url_def exec_url_char_def parse_url_char_def set_mark_def Let_def)
  also have "\<dots> = exec_loop e (counted (a\<lparr>hp_state := S_req_path\<rparr>) e' None None (Some p) (Some p))"
    using rest size cs rest_at_Cons[of e p "CHR ''/''" "cs @ q @ CHR '' '' # t"]
    by (subst loop_path[of cs e "Suc p" "q @ CHR '' '' # t"]) (auto simp: e'_def)
  also have "\<dots> = exec_loop e (counted (after_url (env_handlers e) path q a) (p + length (path @ q) + 1) None None None (Some p))"
  proof (cases q)
    case Nil
    then show ?thesis
      using raw ok size rest_at_append[of e p path "q @ CHR '' '' # t"] rest
      by (subst loop_url_end[where raw = path and t = t]) (auto simp: after_url_def e'_def)
  next
    case (Cons c q')
    with q have c: "c = CHR ''?''" and q': "\<forall>c\<in>set q'. is_url_char c \<or> c = CHR ''?''"
      by (auto simp: url_query_def list_all_iff)
    have at_q: "rest_at e e' (CHR ''?'' # q' @ CHR '' '' # t)"
      using rest_at_append[of e p path "q @ CHR '' '' # t"] rest Cons c by (simp add: e'_def)
    note at_q' = rest_at_Cons[OF at_q]
    define b where "b = a\<lparr>qs_point := length path\<rparr>"
    have "exec_loop e (counted (a\<lparr>hp_state := S_req_path\<rparr>) e' None None (Some p) (Some p)) =
        exec_loop e (counted (b\<lparr>hp_state := S_req_query_string_start\<rparr>) (Suc e') None None (Some p) (Some p))"
      using size Cons
      by (subst header_step[OF at_q])
        (auto simp: exec_state_def exec_req_url_def exec_url_char_def parse_url_char_def Let_def is_url_char_def
          point_diff_def b_def e'_def intro!: arg_cong[of _ _ "exec_loop e"] http_parser.equality)
    moreover obtain s' where s': "query_state s'"
      "exec_loop e (counted (b\<lparr>hp_state := S_req_query_string_start\<rparr>) (Suc e') None None (Some p) (Some p)) =
       exec_loop e (counted (b\<lparr>hp_state := s'\<rparr>) (Suc e' + length q') None None (Some p) (Some p))"
      using loop_query[OF q', of e "Suc e'" "CHR '' '' # t" S_req_query_string_start b] at_q' size Cons by (auto simp: e'_def)
    moreover have "exec_loop e (counted (b\<lparr>hp_state := s'\<rparr>) (Suc e' + length q') None None (Some p) (Some p)) =
       exec_loop e (counted (after_url (env_handlers e) path q a) (p + length (path @ q) + 1) None None None (Some p))"
      using raw ok size Cons c s'(1) at_q' rest_at_append[of e "Suc e'" q' "CHR '' '' # t"]
      by (subst loop_url_end[where raw = "path @ q" and t = t]) (auto simp: after_url_def e'_def b_def add.assoc)
    ultimately show ?thesis by simp
  qed
  finally show ?thesis .
qed

subsection \<open>The version and the ends of lines\<close>

definition line_char :: "parser_state \<Rightarrow> char \<Rightarrow> parser_state option" where
  "line_char s c = map_of
     [((S_req_http_start, CHR ''H''), S_req_http_H), ((S_req_http_H, CHR ''T''), S_req_http_HT),
      ((S_req_http_HT, CHR ''T''), S_req_http_HTT), ((S_req_http_HTT, CHR ''P''), S_req_http_HTTP),
      ((S_req_http_HTTP, CHR ''/''), S_req_http_major), ((S_req_http_dot, CHR ''.''), S_req_http_minor),
      ((S_req_http_end, cr), S_req_line_almost_done), ((S_req_line_almost_done, lf), S_header_field_start),
      ((S_header_almost_done, lf), S_header_value_lws)] (s, c)"

fun line_run :: "parser_state \<Rightarrow> string \<Rightarrow> parser_state option" where
  "line_run s [] = Some s"
| "line_run s (c # cs) = Option.bind (line_char s c) (\<lambda>s'. line_run s' cs)"

lemma line_char_step:
  "line_char s c = Some s' \<Longrightarrow> rest_at e p (c # t) \<Longrightarrow> p < max_header_size \<Longrightarrow>
   exec_loop e (counted (a\<lparr>hp_state := s\<rparr>) p None None None us) =
   exec_loop e (counted (a\<lparr>hp_state := s'\<rparr>) (Suc p) None None None us)"
  by (subst header_step[of e p c t, where y = "counted (a\<lparr>hp_state := s'\<rparr>) p None None None us\<lparr>local_nread := Suc p\<rparr>"])
    (auto simp: line_char_def exec_state_def exec_req_http_start_def exec_constant_def strict_check_def goto_state_def
      exec_req_http_dot_def exec_req_http_end_def exec_req_line_almost_done_def exec_header_almost_done_def split: if_splits)

lemma loop_line:
  "line_run s cs = Some s' \<Longrightarrow> rest_at e p (cs @ t) \<Longrightarrow> p + length cs \<le> max_header_size \<Longrightarrow>
   exec_loop e (counted (a\<lparr>hp_state := s\<rparr>) p None None None us) =
   exec_loop e (counted (a\<lparr>hp_state := s'\<rparr>) (p + length cs) None None None us)"
proof (induction cs arbitrary: s p)
  case (Cons c cs)
  from Cons.prems(1) obtain s2 where s2: "line_char s c = Some s2" "line_run s2 cs = Some s'"
    by (auto split: bind_splits)
  have "exec_loop e (counted (a\<lparr>hp_state := s\<rparr>) p None None None us) =
      exec_loop e (counted (a\<lparr>hp_state := s2\<rparr>) (Suc p) None None None us)"
    using line_char_step[OF s2(1), of e p "cs @ t"] Cons.prems by simp
  also have "\<dots> = exec_loop e (counted (a\<lparr>hp_state := s'\<rparr>) (p + length (c # cs)) None None None us)"
    using Cons.IH[OF s2(2), of "Suc p"] Cons.prems rest_at_Cons[of e p c "cs @ t"] by simp
  finally show ?case .
qed simp

definition version_text :: "char \<Rightarrow> char \<Rightarrow> string" where
  "version_text j n = ''HTTP/'' @ [j] @ ''.'' @ [n] @ [cr, lf]"

lemma loop_version:
  assumes rest: "rest_at e p (version_text j n @ t)" and dig: "is_digit j" "is_digit n"
    and size: "p + 10 \<le> max_header_size" and st: "hp_state a = S_req_http_start"
  shows "exec_loop e (counted a p None None None us) =
    exec_loop e (counted (a\<lparr>http_major := byte j - 48, http_minor := byte n - 48, hp_state := S_header_field_start\<rparr>)
      (p + 10) None None None us)"
proof -
  have a: "a = a\<lparr>hp_state := S_req_http_start\<rparr>" using st by simp
  have at1: "rest_at e p (''HTTP/'' @ j # CHR ''.'' # n # cr # lf # t)"
    using rest by (simp add: version_text_def)
  have at2: "rest_at e (p + 5) (j # CHR ''.'' # n # cr # lf # t)"
    using rest_at_append[OF at1] by (simp add: numeral_eq_Suc)
  have at3: "rest_at e (p + 6) (CHR ''.'' # n # cr # lf # t)"
    using rest_at_Cons[OF at2] by (simp add: numeral_eq_Suc)
  have at4: "rest_at e (p + 7) (n # cr # lf # t)"
    using rest_at_Cons[OF at3] by (simp add: numeral_eq_Suc)
  have at5: "rest_at e (p + 8) ([cr, lf] @ t)"
    using rest_at_Cons[OF at4] by (simp add: numeral_eq_Suc)
  let ?a1 = "a\<lparr>http_major := byte j - 48\<rparr>"
  let ?a2 = "?a1\<lparr>http_minor := byte n - 48\<rparr>"
  have "exec_loop e (counted a p None None None us) =
      exec_loop e (counted (a\<lparr>hp_state := S_req_http_major\<rparr>) (p + 5) None None None us)"
    using loop_line[OF _ at1, of S_req_http_start S_req_http_major a us] size a by (simp add: line_char_def numeral_eq_Suc)
  also have "\<dots> = exec_loop e (counted (?a1\<lparr>hp_state := S_req_http_dot\<rparr>) (p + 6) None None None us)"
    using size dig
    by (subst header_step[OF at2]) (auto simp: exec_state_def exec_req_http_major_def numeral_eq_Suc
        intro!: arg_cong[of _ _ "exec_loop e"] http_parser.equality)
  also have "\<dots> = exec_loop e (counted (?a1\<lparr>hp_state := S_req_http_minor\<rparr>) (p + 7) None None None us)"
    using line_char_step[OF _ at3, of S_req_http_dot S_req_http_minor ?a1 us] size by (simp add: line_char_def numeral_eq_Suc)
  also have "\<dots> = exec_loop e (counted (?a2\<lparr>hp_state := S_req_http_end\<rparr>) (p + 8) None None None us)"
    using size dig
    by (subst header_step[OF at4]) (auto simp: exec_state_def exec_req_http_minor_def numeral_eq_Suc
        intro!: arg_cong[of _ _ "exec_loop e"] http_parser.equality)
  also have "\<dots> = exec_loop e (counted (?a2\<lparr>hp_state := S_header_field_start\<rparr>) (p + 10) None None None us)"
    using loop_line[OF _ at5, of S_req_http_end S_header_field_start ?a2 us] size by (simp add: line_char_def numeral_eq_Suc)
  finally show ?thesis by simp
qed

subsection \<open>The names of headers\<close>

definition matching :: "string \<Rightarrow> string \<Rightarrow> nat \<Rightarrow> bool" where
  "matching w s i \<longleftrightarrow> i + 1 < length w \<and> s = take (i + 1) w"

text \<open>What the header state says of the part \<open>s\<close> of a name, in lower case, that has been read.\<close>

definition name_inv :: "string \<Rightarrow> 'c http_parser \<Rightarrow> bool" where
  "name_inv s a =
     (case hp_header_state a of
        H_general \<Rightarrow> True
      | H_C \<Rightarrow> s = ''c'' \<and> hp_index a = 0
      | H_CO \<Rightarrow> s = ''co'' \<and> hp_index a = 1
      | H_CON \<Rightarrow> s = ''con'' \<and> hp_index a = 2
      | H_matching_connection \<Rightarrow> matching ''connection'' s (hp_index a)
      | H_matching_proxy_connection \<Rightarrow> matching ''proxy-connection'' s (hp_index a)
      | H_matching_content_length \<Rightarrow> matching ''content-length'' s (hp_index a)
      | H_matching_transfer_encoding \<Rightarrow> matching ''transfer-encoding'' s (hp_index a)
      | H_matching_upgrade \<Rightarrow> matching ''upgrade'' s (hp_index a)
      | H_connection \<Rightarrow> s = ''connection'' \<or> s = ''proxy-connection''
      | H_content_length \<Rightarrow> s = ''content-length''
      | H_transfer_encoding \<Rightarrow> s = ''transfer-encoding''
      | H_upgrade \<Rightarrow> s = ''upgrade''
      | _ \<Rightarrow> False)"

abbreviation name_state :: "nat \<Rightarrow> header_state \<Rightarrow> bool \<Rightarrow> 'c http_parser \<Rightarrow> 'c http_parser" where
  "name_state i h u a \<equiv> a\<lparr>hp_index := i, hp_header_state := h, uses_transfer_encoding := u\<rparr>"

text \<open>Whether \<open>uses_transfer_encoding\<close> may have been set by what has been read of the name.\<close>

definition begins_transfer_encoding :: "string \<Rightarrow> bool" where
  "begins_transfer_encoding s \<longleftrightarrow> take 17 s = ''transfer-encoding''"

lemma match_word_cases:
  assumes "matching w s i" and "length w < 32"
  shows "(match_word w ((i + 1) mod 32) c f g h = g) \<or>
    (match_word w ((i + 1) mod 32) c f g h = f \<and> s @ [c] = w) \<or>
    (match_word w ((i + 1) mod 32) c f g h = h \<and> matching w (s @ [c]) ((i + 1) mod 32))"
proof -
  define j where "j = i + 1"
  have j: "(i + 1) mod 32 = j" "j < length w" "s = take j w"
    using assms by (auto simp: j_def matching_def)
  show ?thesis
  proof (cases "c = w ! j")
    case True
    with j have s: "s @ [c] = take (j + 1) w" by (simp add: take_Suc_conv_app_nth)
    show ?thesis
    proof (cases "j = length w - 1")
      case True
      with j s \<open>c = w ! j\<close> show ?thesis by (simp add: match_word_def char_at_def)
    next
      case False
      with j have "j + 1 < length w" by linarith
      with False j s \<open>c = w ! j\<close> show ?thesis by (simp add: match_word_def char_at_def matching_def)
    qed
  qed (use j in \<open>simp add: match_word_def char_at_def\<close>)
qed

lemma field_char_inv:
  assumes inv: "name_inv s a" and ch: "token ch \<noteq> nul"
  shows "\<exists>b. field_char ch a = Some b \<and> name_inv (s @ [token ch]) b \<and>
    b = name_state (hp_index b) (hp_header_state b) (uses_transfer_encoding b) a \<and>
    (uses_transfer_encoding b \<longrightarrow> uses_transfer_encoding a \<or> begins_transfer_encoding (s @ [token ch]))"
proof -
  have sp: "ch \<noteq> CHR '' ''" using ch by (auto simp: token_def is_digit_def byte_def)
  note mw = match_word_cases[where i = "hp_index a" and c = "token ch" and s = s]
  show ?thesis
  proof (cases "hp_header_state a")
    case H_matching_connection
    then show ?thesis using inv mw[of "''connection''" H_connection H_general H_matching_connection]
      by (auto simp: field_char_def Let_def name_inv_def next_index_def)
  next
    case H_matching_proxy_connection
    then show ?thesis using inv mw[of "''proxy-connection''" H_connection H_general H_matching_proxy_connection]
      by (auto simp: field_char_def Let_def name_inv_def next_index_def)
  next
    case H_matching_content_length
    then show ?thesis using inv mw[of "''content-length''" H_content_length H_general H_matching_content_length]
      by (auto simp: field_char_def Let_def name_inv_def next_index_def)
  next
    case H_matching_transfer_encoding
    then show ?thesis using inv mw[of "''transfer-encoding''" H_transfer_encoding H_general H_matching_transfer_encoding]
      by (auto simp: field_char_def Let_def name_inv_def next_index_def begins_transfer_encoding_def)
  next
    case H_matching_upgrade
    then show ?thesis using inv mw[of "''upgrade''" H_upgrade H_general H_matching_upgrade]
      by (auto simp: field_char_def Let_def name_inv_def next_index_def)
  next
    case H_CON
    then have "s = ''con''" "hp_index a = 2" using inv by (simp_all add: name_inv_def)
    with H_CON show ?thesis
      by (simp add: field_char_def Let_def name_inv_def next_index_def matching_def)
  qed (use inv sp in \<open>simp_all add: field_char_def Let_def name_inv_def next_index_def\<close>)
qed

abbreviation token_text :: "string \<Rightarrow> bool" where
  "token_text s \<equiv> \<forall>c\<in>set s. token c \<noteq> nul"

lemma token_colon [simp]: "token CHR '':'' = nul"
  by code_simp

lemma field_loop_general:
  assumes "hp_header_state a = H_general" and "token_text cs" and "length cs < max_header_size"
  shows "field_loop (cs @ CHR '':'' # t) p a = Some (a, p + length cs, Some CHR '':'')"
proof (cases cs)
  case (Cons c ds)
  define n where "n = min (length (c # ds @ CHR '':'' # t)) max_header_size - 1"
  have "length ds \<le> n" using assms Cons by (auto simp: n_def)
  then have "takeWhile (\<lambda>c. token c \<noteq> nul) (take n (ds @ CHR '':'' # t)) = ds"
    using assms Cons by (cases "n - length ds") (auto simp: takeWhile_append)
  then show ?thesis using assms Cons by (simp add: field_char_def Let_def n_def)
qed simp

lemma begins_transfer_encoding_append: "begins_transfer_encoding s \<Longrightarrow> begins_transfer_encoding (s @ t)"
proof -
  assume s: "begins_transfer_encoding s"
  then have "length (take 17 s) = 17" by (simp add: begins_transfer_encoding_def)
  then have "17 \<le> length s" by simp
  with s show "begins_transfer_encoding (s @ t)" by (simp add: begins_transfer_encoding_def)
qed

lemma field_loop_inv:
  "name_inv s a \<Longrightarrow> token_text cs \<Longrightarrow> length cs < max_header_size \<Longrightarrow>
   \<exists>b. field_loop (cs @ CHR '':'' # t) p a = Some (b, p + length cs, Some CHR '':'') \<and>
     name_inv (s @ map token cs) b \<and>
     b = name_state (hp_index b) (hp_header_state b) (uses_transfer_encoding b) a \<and>
     (uses_transfer_encoding b \<longrightarrow> uses_transfer_encoding a \<or> begins_transfer_encoding (s @ map token cs))"
proof (induction cs arbitrary: s a p)
  case (Cons c cs)
  show ?case
  proof (cases "hp_header_state a = H_general")
    case True
    then show ?thesis using field_loop_general[OF True, of "c # cs" t p] Cons.prems by (simp add: name_inv_def)
  next
    case False
    from field_char_inv[OF Cons.prems(1), of c] Cons.prems(2) obtain b where b:
      "field_char c a = Some b" "name_inv (s @ [token c]) b"
      "b = name_state (hp_index b) (hp_header_state b) (uses_transfer_encoding b) a"
      "uses_transfer_encoding b \<longrightarrow> uses_transfer_encoding a \<or> begins_transfer_encoding (s @ [token c])" by auto
    from Cons.IH[OF b(2), of "p + 1"] Cons.prems obtain d where d:
      "field_loop (cs @ CHR '':'' # t) (p + 1) b = Some (d, p + 1 + length cs, Some CHR '':'')"
      "name_inv ((s @ [token c]) @ map token cs) d"
      "d = name_state (hp_index d) (hp_header_state d) (uses_transfer_encoding d) b"
      "uses_transfer_encoding d \<longrightarrow> uses_transfer_encoding b \<or> begins_transfer_encoding ((s @ [token c]) @ map token cs)"
      by auto
    note begins_transfer_encoding_append[of "s @ [token c]" "map token cs"]
    moreover have "d = name_state (hp_index d) (hp_header_state d) (uses_transfer_encoding d) a"
      by (subst d(3), subst b(3)) simp
    ultimately show ?thesis using False Cons.prems b(1,4) d(1,2,4) by (intro exI[of _ d]) auto
  qed
qed simp

text \<open>A name that the parser gives no meaning to.\<close>

definition plain_name :: "string \<Rightarrow> bool" where
  "plain_name k \<longleftrightarrow> k \<noteq> [] \<and> list_all (\<lambda>c. token c \<noteq> nul) k \<and>
     map token k \<notin> {''connection'', ''proxy-connection'', ''content-length'', ''upgrade''} \<and>
     \<not> begins_transfer_encoding (map token k)"

subsection \<open>A header line\<close>

abbreviation line_start :: "'c http_parser \<Rightarrow> bool" where
  "line_start a \<equiv> hp_state a = S_header_field_start \<or>
     (hp_state a = S_header_value_lws \<and> (hp_header_state a = H_general \<or> hp_header_state a = H_content_length_num))"

lemma token_not_special: "token c \<noteq> nul \<Longrightarrow> c \<noteq> cr \<and> c \<noteq> lf \<and> c \<noteq> CHR '' '' \<and> c \<noteq> tab"
  by (auto simp: token_def is_digit_def byte_def)

lemma goto_state_same: "hp_state (prs x) = s \<Longrightarrow> goto_state s x = x"
  by (auto simp: goto_state_def)

lemma exec_line_start:
  assumes "line_start (prs x)" and "c \<noteq> CHR '' ''" "c \<noteq> tab"
  shows "exec_state e c x = exec_header_field_start e c (goto_state S_header_field_start x)"
  using assms by (auto simp: exec_state_def exec_header_value_lws_def finish_header_def goto_state_same)

definition name_start :: "char \<Rightarrow> header_state" where
  "name_start c = (if token c = CHR ''c'' then H_C else if token c = CHR ''p'' then H_matching_proxy_connection
                   else if token c = CHR ''t'' then H_matching_transfer_encoding
                   else if token c = CHR ''u'' then H_matching_upgrade else H_general)"

abbreviation in_name :: "char \<Rightarrow> 'c http_parser \<Rightarrow> 'c http_parser" where
  "in_name c a \<equiv> a\<lparr>hp_state := S_header_field, hp_index := 0, hp_header_state := name_start c\<rparr>"

lemma name_inv_start: "name_inv [token c] (in_name c a)"
  by (simp add: name_inv_def name_start_def matching_def)

lemma loop_name_start:
  assumes a: "line_start a" and c: "token c \<noteq> nul" and rest: "rest_at e p (c # t)" and size: "p < max_header_size"
  shows "exec_loop e (counted a p None None None us) = exec_loop e (counted (in_name c a) (Suc p) (Some p) None None us)"
proof -
  note c' = token_not_special[OF c]
  have "exec_state e c (counted a p None None None us\<lparr>local_nread := Suc p\<rparr>) =
     Next (counted (in_name c a) p (Some p) None None us\<lparr>local_nread := Suc p\<rparr>)"
    using a c c'
    by (subst exec_line_start)
      (auto simp: exec_header_field_start_def goto_state_def Let_def name_start_def set_mark_def intro!: http_parser.equality)
  then show ?thesis
    using a size by (subst header_step[OF rest]) auto
qed

lemma loop_name_read:
  assumes field: "field_loop (cs @ CHR '':'' # t) (Suc p) a = Some (b, Suc p + length cs, Some CHR '':'')"
    and rest: "rest_at e p (c # cs @ CHR '':'' # t)" and size: "p + length (c # cs) < max_header_size"
    and ok: "hp_errno b = CHPE_OK" and st: "hp_state a = S_header_field"
  shows "exec_loop e (counted a (Suc p) (Some p) None None us) =
    exec_loop e (counted (on_header_field (c # cs) (b\<lparr>hp_state := S_header_value_discard_ws\<rparr>))
      (p + length (c # cs) + 1) None None None us)"
proof -
  have okb: "hp_errno (on_header_field s (b\<lparr>hp_state := S_header_value_discard_ws\<rparr>)) = CHPE_OK" for s
    using ok by (simp add: on_header_field_def emplace_header_def Let_def)
  obtain d ds where d: "cs @ CHR '':'' # t = d # ds" by (cases "cs @ CHR '':'' # t") auto
  have rest': "rest_at e (Suc p) (d # ds)" using rest_at_Cons[OF rest] d by simp
  have chunk: "take (Suc (length cs)) (drop p (buffer_data e)) = c # cs" using rest by (simp add: rest_at_def)
  define y where "y = counted (on_header_field (c # cs) (b\<lparr>hp_state := S_header_value_discard_ws\<rparr>))
      (p + length (c # cs)) None None None us\<lparr>local_nread := p + length (c # cs) + 1\<rparr>"
  have dr: "drop (Suc p) (buffer_data e) = cs @ CHR '':'' # t" using rest' d by (simp add: rest_at_def)
  have "exec_state e d (counted a (Suc p) (Some p) None None us\<lparr>local_nread := Suc (Suc p)\<rparr>) = Next y"
    using size st field chunk okb ok
    by (simp add: exec_state_def exec_header_field_def dr count_header_size_def callback_field_def callback_data_def
        assert_that_def goto_state_def Let_def y_def max_header_size_def)
  then have "exec_loop e (counted a (Suc p) (Some p) None None us) = exec_loop e (y\<lparr>p_pos := Suc (p_pos y)\<rparr>)"
    using size st by (subst header_step[OF rest']) auto
  then show ?thesis by (simp add: y_def)
qed

lemma loop_name_rest:
  assumes inv: "name_inv [token c] a" and cs: "token_text (c # cs)" and rest: "rest_at e p (c # cs @ CHR '':'' # t)"
    and size: "p + length (c # cs) < max_header_size" and ok: "hp_errno a = CHPE_OK" and st: "hp_state a = S_header_field"
  shows "\<exists>i h u. name_inv (map token (c # cs)) (name_state i h u a) \<and>
    (u \<longrightarrow> uses_transfer_encoding a \<or> begins_transfer_encoding (map token (c # cs))) \<and>
    exec_loop e (counted a (Suc p) (Some p) None None us) =
    exec_loop e (counted (on_header_field (c # cs) (name_state i h u a\<lparr>hp_state := S_header_value_discard_ws\<rparr>))
      (p + length (c # cs) + 1) None None None us)"
proof -
  from field_loop_inv[OF inv, of cs t "Suc p"] cs size obtain b where b:
    "field_loop (cs @ CHR '':'' # t) (Suc p) a = Some (b, Suc p + length cs, Some CHR '':'')"
    "name_inv (map token (c # cs)) b"
    "b = name_state (hp_index b) (hp_header_state b) (uses_transfer_encoding b) a"
    "uses_transfer_encoding b \<longrightarrow> uses_transfer_encoding a \<or> begins_transfer_encoding (map token (c # cs))"
    by auto
  have "hp_errno b = CHPE_OK" using ok by (subst b(3)) simp
  from loop_name_read[OF b(1) rest size this st] b(2,4) show ?thesis
    by (intro exI[of _ "hp_index b"] exI[of _ "hp_header_state b"] exI[of _ "uses_transfer_encoding b"])
      (simp add: b(3)[symmetric])
qed

text \<open>
  The value: the blank before it, its first byte, the loop over the rest, and the end of the line.
\<close>

lemma loop_value:
  assumes rest: "rest_at e p (CHR '' '' # d # ds @ cr # lf # t)" and size: "p + length ds + 4 < max_header_size"
    and d: "d \<noteq> CHR '' ''" "d \<noteq> tab" "d \<noteq> cr" "d \<noteq> lf" and st: "hp_state a = S_header_value_discard_ws"
    and first: "exec_header_value_start e d (counted a (Suc p) None None None us\<lparr>local_nread := Suc (Suc p)\<rparr>) =
      Next (counted b (Suc p) None (Some (Suc p)) None us\<lparr>local_nread := Suc (Suc p)\<rparr>)"
    and b: "hp_state b = S_header_value"
    and loop: "value_loop (ds @ cr # lf # t) (Suc (Suc p)) (hp_header_state b) b = Some (V_cr, Suc (Suc p) + length ds, h, f)"
    and ok: "hp_errno f = CHPE_OK"
  shows "exec_loop e (counted a p None None None us) =
    exec_loop e (counted ((on_header_value (d # ds) (f\<lparr>hp_header_state := h, hp_state := S_header_almost_done\<rparr>))
      \<lparr>hp_header_state := h, hp_state := S_header_value_lws\<rparr>) (p + length ds + 4) None None None us)"
proof -
  note at1 = rest_at_Cons[OF rest] note at2 = rest_at_Cons[OF conjunct2[OF conjunct2[OF at1]]]
  have dr: "drop (Suc (Suc p)) (buffer_data e) = ds @ cr # lf # t" using at2 by (simp add: rest_at_def)
  have chunk: "take (Suc (length ds)) (drop (Suc p) (buffer_data e)) = d # ds" using at1 by (simp add: rest_at_def)
  obtain c cs where c: "ds @ cr # lf # t = c # cs" by (cases "ds @ cr # lf # t") auto
  have at3: "rest_at e (Suc (Suc p)) (c # cs)" using at2 c by simp
  have at4: "rest_at e (p + length ds + 3) (lf # t)"
    using rest_at_append[of e p "CHR '' '' # d # ds @ [cr]" "lf # t"] rest by (simp add: numeral_eq_Suc)
  define g where "g = on_header_value (d # ds) (f\<lparr>hp_header_state := h, hp_state := S_header_almost_done\<rparr>)\<lparr>hp_header_state := h\<rparr>"
  have g: "hp_errno (on_header_value s (f\<lparr>hp_header_state := h, hp_state := S_header_almost_done\<rparr>)) = CHPE_OK"
    "hp_state g = S_header_almost_done" for s
    using ok by (auto simp: on_header_value_def g_def)
  have gg: "g\<lparr>hp_state := S_header_almost_done\<rparr> = g" using g(2) by simp
  define y where "y = counted g (Suc (Suc p) + length ds) None None None us\<lparr>local_nread := Suc (Suc (Suc p)) + length ds\<rparr>"
  have "exec_loop e (counted a p None None None us) = exec_loop e (counted a (Suc p) None None None us)"
    using st size by (subst header_step[OF rest]) (auto simp: exec_state_def exec_header_value_discard_ws_def)
  also have "\<dots> = exec_loop e (counted b (Suc (Suc p)) None (Some (Suc p)) None us)"
    using st size d first
    by (subst header_step[OF conjunct2[OF conjunct2[OF at1]]]) (auto simp: exec_state_def exec_header_value_discard_ws_def)
  also have "exec_state e c (counted b (Suc (Suc p)) None (Some (Suc p)) None us\<lparr>local_nread := Suc (Suc (Suc p))\<rparr>) = Next y"
    using size b loop chunk g ok
    by (simp add: exec_state_def exec_header_value_def dr count_header_size_def callback_value_def callback_data_def
        assert_that_def goto_state_def Let_def y_def g_def max_header_size_def)
  then have "exec_loop e (counted b (Suc (Suc p)) None (Some (Suc p)) None us) =
      exec_loop e (counted (g\<lparr>hp_state := S_header_almost_done\<rparr>) (p + length ds + 3) None None None us)"
    using size b g(2) by (subst header_step[OF at3]) (auto simp: y_def numeral_eq_Suc gg)
  also have "\<dots> = exec_loop e (counted (g\<lparr>hp_state := S_header_value_lws\<rparr>) (p + length ds + 4) None None None us)"
    using line_char_step[OF _ at4, of S_header_almost_done S_header_value_lws g us] size
    by (simp add: line_char_def numeral_eq_Suc)
  finally show ?thesis by (simp add: g_def)
qed

definition plain_value :: "string \<Rightarrow> bool" where
  "plain_value v \<longleftrightarrow> v \<noteq> [] \<and> hd v \<noteq> CHR '' '' \<and> hd v \<noteq> tab \<and>
     list_all (\<lambda>c. is_header_char c \<and> c \<noteq> cr \<and> c \<noteq> lf) v"

lemma value_loop_general:
  assumes ds: "\<forall>c\<in>set ds. is_header_char c \<and> c \<noteq> cr \<and> c \<noteq> lf" and size: "length ds < max_header_size"
  shows "value_loop (ds @ cr # t) p H_general a = Some (V_cr, p + length ds, H_general, a)"
proof (cases ds)
  case (Cons c cs)
  define window where "window = take max_header_size (ds @ cr # t)"
  have w: "window = ds @ cr # take (max_header_size - Suc (length ds)) t"
    using size by (simp add: window_def take_Cons')
  then have "takeWhile (\<lambda>c. c \<noteq> cr \<and> c \<noteq> lf \<and> value_ok a c) window = ds"
    using ds by (simp add: value_ok_def takeWhile_append)
  then show ?thesis
    using Cons ds w by (simp add: value_ok_def Let_def window_def)
qed simp

lemma name_inv_plain:
  assumes "name_inv (map token k) a" and "plain_name k"
  shows "exec_header_value_start e d (counted a p None None None us\<lparr>local_nread := n\<rparr>) =
    Next (counted (a\<lparr>hp_state := S_header_value, hp_index := 0, hp_header_state := H_general\<rparr>) p None (Some p) None us\<lparr>local_nread := n\<rparr>)"
proof -
  have "hp_header_state a \<in> {H_general, H_C, H_CO, H_CON, H_matching_connection, H_matching_proxy_connection,
      H_matching_content_length, H_matching_transfer_encoding, H_matching_upgrade}"
    using assms by (cases "hp_header_state a") (auto simp: name_inv_def plain_name_def begins_transfer_encoding_def)
  then show ?thesis
    unfolding insert_iff empty_iff by (elim disjE FalseE; simp add: exec_header_value_start_def Let_def set_mark_def)
qed

lemma hp_state_on_header [simp]:
  "hp_state (on_header_field s a) = hp_state a" "hp_errno (on_header_field s a) = hp_errno a"
  "hp_header_state (on_header_field s a) = hp_header_state a" "hp_index (on_header_field s a) = hp_index a"
  "hp_state (on_header_value s a) = hp_state a" "hp_errno (on_header_value s a) = hp_errno a"
  by (simp_all add: on_header_field_def on_header_value_def emplace_header_def Let_def)

lemma name_inv_on_header [simp]: "name_inv s (on_header_field k a) = name_inv s a"
  by (cases "hp_header_state a") (simp_all add: name_inv_def)

lemma name_inv_state [simp]: "name_inv s (a\<lparr>hp_state := st\<rparr>) = name_inv s a"
  by (cases "hp_header_state a") (simp_all add: name_inv_def)

definition header_line :: "string \<Rightarrow> string \<Rightarrow> 'c http_parser \<Rightarrow> 'c http_parser" where
  "header_line k v a =
     (on_header_value v (on_header_field k a))\<lparr>hp_index := 0, hp_header_state := H_general, hp_state := S_header_value_lws\<rparr>"

lemma loop_header:
  assumes a: "line_start a" "hp_errno a = CHPE_OK" "\<not> uses_transfer_encoding a" "header_building_state a = 0"
    and k: "plain_name k" and v: "plain_value v"
    and rest: "rest_at e p (k @ '': '' @ v @ [cr, lf] @ t)" and size: "p + length k + length v + 4 < max_header_size"
  shows "exec_loop e (counted a p None None None us) =
    exec_loop e (counted (header_line k v a) (p + length k + length v + 4) None None None us)"
proof -
  obtain c cs where kc: "k = c # cs" using k by (cases k) (auto simp: plain_name_def)
  obtain d ds where vd: "v = d # ds" using v by (cases v) (auto simp: plain_value_def)
  have tk: "token c \<noteq> nul" "token_text (c # cs)" using k kc by (auto simp: plain_name_def list_all_iff)
  have d: "d \<noteq> CHR '' ''" "d \<noteq> tab" "d \<noteq> cr" "d \<noteq> lf" and ds: "\<forall>c\<in>set ds. is_header_char c \<and> c \<noteq> cr \<and> c \<noteq> lf"
    using v vd by (auto simp: plain_value_def list_all_iff)
  have at1: "rest_at e p (c # cs @ CHR '':'' # CHR '' '' # v @ [cr, lf] @ t)" using rest kc by simp
  have at2: "rest_at e (p + length k + 1) (CHR '' '' # d # ds @ cr # lf # t)"
    using rest_at_append[of e p "k @ '':''" "CHR '' '' # v @ [cr, lf] @ t"] rest vd by simp
  define a1 where "a1 = in_name c a"
  have h: "name_inv [token c] a1"
    "exec_loop e (counted a p None None None us) = exec_loop e (counted a1 (Suc p) (Some p) None None us)"
    using name_inv_start[of c a] loop_name_start[OF a(1) tk(1) at1] size by (auto simp: a1_def)
  obtain i h' u where u: "name_inv (map token k) (name_state i h' u a1)"
    "u \<longrightarrow> uses_transfer_encoding a1 \<or> begins_transfer_encoding (map token k)"
    "exec_loop e (counted a1 (Suc p) (Some p) None None us) =
     exec_loop e (counted (on_header_field k (name_state i h' u a1\<lparr>hp_state := S_header_value_discard_ws\<rparr>))
       (p + length k + 1) None None None us)"
    using loop_name_rest[of c a1 cs e p "CHR '' '' # v @ [cr, lf] @ t" us] h(1) tk(2) at1 size a(2) kc
    by (auto simp: a1_def)
  have nu: "u = False" using u(2) a(3) k by (auto simp: a1_def plain_name_def)
  define a2 where "a2 = on_header_field k (name_state i h' u a1\<lparr>hp_state := S_header_value_discard_ws\<rparr>)"
  define b where "b = a2\<lparr>hp_state := S_header_value, hp_index := 0, hp_header_state := H_general\<rparr>"
  have "exec_loop e (counted a2 (p + length k + 1) None None None us) =
    exec_loop e (counted ((on_header_value (d # ds) (b\<lparr>hp_header_state := H_general, hp_state := S_header_almost_done\<rparr>))
      \<lparr>hp_header_state := H_general, hp_state := S_header_value_lws\<rparr>) (p + length k + 1 + length ds + 4) None None None us)"
  proof (rule loop_value[OF at2])
    show "exec_header_value_start e d (counted a2 (Suc (p + length k + 1)) None None None us\<lparr>local_nread := Suc (Suc (p + length k + 1))\<rparr>) =
      Next (counted b (Suc (p + length k + 1)) None (Some (Suc (p + length k + 1))) None us\<lparr>local_nread := Suc (Suc (p + length k + 1))\<rparr>)"
      unfolding b_def by (rule name_inv_plain[OF _ k]) (use u(1) in \<open>simp add: a2_def\<close>)
    show "value_loop (ds @ cr # lf # t) (Suc (Suc (p + length k + 1))) (hp_header_state b) b =
      Some (V_cr, Suc (Suc (p + length k + 1)) + length ds, H_general, b)"
      using value_loop_general[OF ds, of "lf # t" "Suc (Suc (p + length k + 1))" b] size vd by (simp add: b_def)
  qed (use size vd d a(2) in \<open>simp_all add: a2_def b_def a1_def\<close>)
  also have "(on_header_value (d # ds) (b\<lparr>hp_header_state := H_general, hp_state := S_header_almost_done\<rparr>))
      \<lparr>hp_header_state := H_general, hp_state := S_header_value_lws\<rparr> = header_line k v a"
    using a(3,4) nu unfolding b_def a2_def a1_def header_line_def vd
    by (intro http_parser.equality) (simp_all add: on_header_field_def on_header_value_def emplace_header_def Let_def)
  finally show ?thesis using h(2) u(3) by (simp add: a1_def a2_def vd add.assoc)
qed

definition header_text :: "(string \<times> string) list \<Rightarrow> string" where
  "header_text hs = concat (map (\<lambda>(k, v). k @ '': '' @ v @ [cr, lf]) hs)"

definition header_lines :: "(string \<times> string) list \<Rightarrow> 'c http_parser \<Rightarrow> 'c http_parser" where
  "header_lines hs a = fold (\<lambda>(k, v). header_line k v) hs a"

lemma header_line_fields [simp]:
  "hp_state (header_line k v a) = S_header_value_lws" "hp_header_state (header_line k v a) = H_general"
  "hp_errno (header_line k v a) = hp_errno a" "uses_transfer_encoding (header_line k v a) = uses_transfer_encoding a"
  "header_building_state a = 0 \<Longrightarrow> header_building_state (header_line k v a) = 0"
  "hp_flags (header_line k v a) = hp_flags a" "hp_content_length (header_line k v a) = hp_content_length a"
  "http_major (header_line k v a) = http_major a" "http_minor (header_line k v a) = http_minor a"
  "hp_method (header_line k v a) = hp_method a" "connection (header_line k v a) = connection a"
  "lenient_http_headers (header_line k v a) = lenient_http_headers a"
  by (simp_all add: header_line_def on_header_field_def on_header_value_def emplace_header_def Let_def)

lemma loop_headers:
  "line_start a \<Longrightarrow> hp_errno a = CHPE_OK \<Longrightarrow> \<not> uses_transfer_encoding a \<Longrightarrow> header_building_state a = 0 \<Longrightarrow>
   list_all (\<lambda>(k, v). plain_name k \<and> plain_value v) hs \<Longrightarrow> rest_at e p (header_text hs @ t) \<Longrightarrow>
   p + length (header_text hs) < max_header_size \<Longrightarrow>
   exec_loop e (counted a p None None None us) =
   exec_loop e (counted (header_lines hs a) (p + length (header_text hs)) None None None us)"
proof (induction hs arbitrary: a p)
  case Nil
  then show ?case by (simp add: header_text_def header_lines_def)
next
  case (Cons kv hs)
  obtain k v where kv: "kv = (k, v)" by force
  have rest: "rest_at e p (k @ '': '' @ v @ [cr, lf] @ header_text hs @ t)"
    using Cons.prems(6) by (simp add: header_text_def kv)
  have rest': "rest_at e (p + length k + length v + 4) (header_text hs @ t)"
  proof -
    have "p + length (k @ '': '' @ v @ [cr, lf]) = p + length k + length v + 4" by simp
    with rest_at_append[of e p "k @ '': '' @ v @ [cr, lf]" "header_text hs @ t"] rest show ?thesis
      by (metis append_assoc)
  qed
  have "exec_loop e (counted a p None None None us) =
      exec_loop e (counted (header_line k v a) (p + length k + length v + 4) None None None us)"
    using Cons.prems rest by (intro loop_header) (auto simp: kv header_text_def)
  also have "\<dots> = exec_loop e (counted (header_lines hs (header_line k v a))
      (p + length k + length v + 4 + length (header_text hs)) None None None us)"
    using Cons.prems rest' by (intro Cons.IH) (auto simp: kv header_text_def)
  also have "p + length k + length v + 4 + length (header_text hs) = p + length (header_text (kv # hs))"
    by (simp add: kv header_text_def)
  finally show ?case by (simp add: kv header_lines_def)
qed

lemma header_lines_fields [simp]:
  "hp_errno (header_lines hs a) = hp_errno a" "uses_transfer_encoding (header_lines hs a) = uses_transfer_encoding a"
  "header_building_state a = 0 \<Longrightarrow> header_building_state (header_lines hs a) = 0"
  "hp_flags (header_lines hs a) = hp_flags a" "hp_content_length (header_lines hs a) = hp_content_length a"
  "http_major (header_lines hs a) = http_major a" "http_minor (header_lines hs a) = http_minor a"
  "hp_method (header_lines hs a) = hp_method a" "connection (header_lines hs a) = connection a"
  by (induction hs arbitrary: a) (auto simp: header_lines_def)

lemma header_lines_start: "line_start a \<Longrightarrow> line_start (header_lines hs a)"
proof (induction hs arbitrary: a)
  case (Cons kv hs)
  obtain k v where kv: "kv = (k, v)" by force
  have "line_start (header_lines hs (header_line k v a))" by (rule Cons.IH) simp
  then show ?case by (simp add: header_lines_def kv)
qed (simp add: header_lines_def)

text \<open>The request with the header that is still being built.\<close>

definition settled :: "'c http_parser \<Rightarrow> request" where
  "settled a = (if header_field a = [] then hp_req a else req_add_header (header_field a) (header_value a) (hp_req a))"

abbreviation paired :: "'c http_parser \<Rightarrow> bool" where
  "paired a \<equiv> header_field a = [] \<longleftrightarrow> header_value a = []"

lemma settled_push:
  "header_building_state a = 0 \<Longrightarrow> paired a \<Longrightarrow> k \<noteq> [] \<Longrightarrow> v \<noteq> [] \<Longrightarrow>
   settled (on_header_value v (on_header_field k a)) = req_add_header k v (settled a) \<and>
   paired (on_header_value v (on_header_field k a))"
  by (auto simp: settled_def on_header_field_def on_header_value_def emplace_header_def Let_def)

lemma settled_header_lines:
  "header_building_state a = 0 \<Longrightarrow> paired a \<Longrightarrow> list_all (\<lambda>(k, v). plain_name k \<and> plain_value v) hs \<Longrightarrow>
   settled (header_lines hs a) = (settled a)\<lparr>req_headers := req_headers (settled a) @ hs\<rparr> \<and> paired (header_lines hs a)"
proof (induction hs arbitrary: a)
  case (Cons kv hs)
  obtain k v where kv: "kv = (k, v)" by force
  have kv': "k \<noteq> []" "v \<noteq> []" using Cons.prems kv by (auto simp: plain_name_def plain_value_def)
  have s: "settled (header_line k v a) = settled (on_header_value v (on_header_field k a))"
    "paired (header_line k v a) = paired (on_header_value v (on_header_field k a))"
    by (simp_all add: header_line_def settled_def)
  have "header_lines (kv # hs) a = header_lines hs (header_line k v a)" by (simp add: header_lines_def kv)
  with settled_push[OF Cons.prems(1,2) kv'] s Cons.IH[of "header_line k v a"] Cons.prems kv show ?case
    by (simp add: req_add_header_def ci_emplace_def)
qed (simp add: header_lines_def)

subsection \<open>The length of the body\<close>

lemma field_loop_content_length:
  assumes "hp_header_state a = H_C" and "hp_index a = 0"
  shows "field_loop (''ontent-Length'' @ CHR '':'' # t) p a =
    Some (a\<lparr>hp_header_state := H_content_length, hp_index := 13\<rparr>, p + 13, Some CHR '':'')"
proof -
  have tok: "list_all2 (\<lambda>c d. token c = d) ''ontent-Length:'' (''ontent-length'' @ [nul])" by code_simp
  from assms show ?thesis
    using tok by (simp add: field_char_def Let_def next_index_def match_word_def char_at_def)
qed

lemma dec_val_fold_mono: "n \<le> fold (\<lambda>c a. 10 * a + digit_val c) ds n"
proof (induction ds arbitrary: n)
  case (Cons c ds)
  have "n \<le> 10 * n + digit_val c" by simp
  also have "\<dots> \<le> fold (\<lambda>c a. 10 * a + digit_val c) ds (10 * n + digit_val c)" by (rule Cons.IH)
  finally show ?case by simp
qed simp

lemma digit_facts: "is_digit c \<Longrightarrow> c \<noteq> cr \<and> c \<noteq> lf \<and> c \<noteq> CHR '' '' \<and> c \<noteq> tab \<and> is_header_char c"
  by (auto simp: is_digit_def is_header_char_def byte_def)

text \<open>A run of digits never wraps: the length is exact as long as it is below the limit of the test.\<close>

lemma value_loop_digits:
  "\<forall>c\<in>set ds. is_digit c \<Longrightarrow> fold (\<lambda>c a. 10 * a + digit_val c) ds (hp_content_length a) \<le> ullong_max - 10 \<Longrightarrow>
   value_loop (ds @ cr # t) p H_content_length_num a =
   Some (V_cr, p + length ds, H_content_length_num,
     a\<lparr>hp_content_length := fold (\<lambda>c a. 10 * a + digit_val c) ds (hp_content_length a)\<rparr>)"
proof (induction ds arbitrary: a p)
  case (Cons c ds)
  let ?n = "hp_content_length a"
  have c: "is_digit c" using Cons.prems by simp
  note cf = digit_facts[OF c]
  have le: "10 * ?n + digit_val c \<le> ullong_max - 10"
    using dec_val_fold_mono[of "10 * ?n + digit_val c" ds] Cons.prems(2) by simp
  then have small: "\<not> (ullong_max - 10) div 10 < ?n" by (simp add: ullong_max_def)
  have step: "value_char c H_content_length_num a = Step H_content_length_num (a\<lparr>hp_content_length := 10 * ?n + digit_val c\<rparr>)"
    using c cf small le
    by (simp add: value_char_def content_length_char_def Let_def digit_val_def ullong_max_def mult.commute)
  show ?case
    using Cons.IH[of "a\<lparr>hp_content_length := 10 * ?n + digit_val c\<rparr>" "p + 1"] Cons.prems cf step
    by (simp add: value_ok_def)
qed simp

definition content_length_line :: "nat \<Rightarrow> 'c http_parser \<Rightarrow> 'c http_parser" where
  "content_length_line n a =
     (on_header_value (dec_digits n) (on_header_field ''Content-Length'' a))
       \<lparr>hp_flags := insert F_CONTENTLENGTH (hp_flags a), hp_content_length := n, hp_index := 0,
        hp_header_state := H_content_length_num, hp_state := S_header_value_lws\<rparr>"

lemma loop_content_length:
  assumes a: "line_start a" "hp_errno a = CHPE_OK" "F_CONTENTLENGTH \<notin> hp_flags a" "header_building_state a = 0"
    and n: "n \<le> ullong_max - 10"
    and rest: "rest_at e p (''Content-Length'' @ '': '' @ dec_digits n @ [cr, lf] @ t)"
    and size: "p + 18 + length (dec_digits n) < max_header_size"
  shows "exec_loop e (counted a p None None None us) =
    exec_loop e (counted (content_length_line n a) (p + 18 + length (dec_digits n)) None None None us)"
proof -
  obtain d ds where vd: "dec_digits n = d # ds" using dec_digits_nonempty[of n] by (cases "dec_digits n") auto
  have dig: "is_digit d" "\<forall>c\<in>set ds. is_digit c" using dec_digits_digits[of n] vd by auto
  have val: "fold (\<lambda>c a. 10 * a + digit_val c) ds (digit_val d) = n"
    using dec_val_digits[of n] by (simp add: vd dec_val_def)
  have at1: "rest_at e p (CHR ''C'' # ''ontent-Length'' @ CHR '':'' # CHR '' '' # dec_digits n @ [cr, lf] @ t)" using rest by simp
  have at2: "rest_at e (p + 15) (CHR '' '' # d # ds @ cr # lf # t)"
    using rest_at_append[of e p "''Content-Length'' @ '':''" "CHR '' '' # dec_digits n @ [cr, lf] @ t"] rest vd
    by (simp add: numeral_eq_Suc)
  have tok: "token CHR ''C'' = CHR ''c''" by code_simp
  define a1 where "a1 = in_name CHR ''C'' a"
  have a1: "hp_header_state a1 = H_C" "hp_index a1 = 0" "hp_state a1 = S_header_field" "hp_errno a1 = CHPE_OK"
    using a(2) tok by (simp_all add: a1_def name_start_def)
  define a2 where "a2 = on_header_field ''Content-Length''
    (a1\<lparr>hp_header_state := H_content_length, hp_index := 13, hp_state := S_header_value_discard_ws\<rparr>)"
  define b where "b = a2\<lparr>hp_state := S_header_value, hp_index := 0, hp_flags := insert F_CONTENTLENGTH (hp_flags a2),
    hp_content_length := digit_val d, hp_header_state := H_content_length_num\<rparr>"
  have fl: "hp_flags a2 = hp_flags a" "hp_header_state a2 = H_content_length" "hp_errno a2 = CHPE_OK"
    using a(2) by (simp_all add: a2_def a1_def on_header_field_def emplace_header_def Let_def)
  have "exec_loop e (counted a p None None None us) = exec_loop e (counted a1 (Suc p) (Some p) None None us)"
    unfolding a1_def by (rule loop_name_start[OF a(1) _ at1]) (use size tok in auto)
  also have "\<dots> = exec_loop e (counted (on_header_field (CHR ''C'' # ''ontent-Length'')
      (a1\<lparr>hp_header_state := H_content_length, hp_index := 13\<rparr>\<lparr>hp_state := S_header_value_discard_ws\<rparr>))
      (p + length (CHR ''C'' # ''ontent-Length'') + 1) None None None us)"
  proof (rule loop_name_read)
    have pos: "Suc p + 13 = Suc p + length ''ontent-Length''" by simp
    show "field_loop (''ontent-Length'' @ CHR '':'' # CHR '' '' # dec_digits n @ [cr, lf] @ t) (Suc p) a1 =
      Some (a1\<lparr>hp_header_state := H_content_length, hp_index := 13\<rparr>, Suc p + length ''ontent-Length'', Some CHR '':'')"
      unfolding pos[symmetric] by (rule field_loop_content_length[OF a1(1,2)])
  qed (use at1 size a1(3,4) in auto)
  also have "p + length (CHR ''C'' # ''ontent-Length'') + 1 = p + 15" by simp
  also have "on_header_field (CHR ''C'' # ''ontent-Length'')
      (a1\<lparr>hp_header_state := H_content_length, hp_index := 13\<rparr>\<lparr>hp_state := S_header_value_discard_ws\<rparr>) = a2"
    by (simp add: a2_def)
  also have "exec_loop e (counted a2 (p + 15) None None None us) = exec_loop e (counted ((on_header_value (d # ds)
       (b\<lparr>hp_content_length := n\<rparr>\<lparr>hp_header_state := H_content_length_num, hp_state := S_header_almost_done\<rparr>))
       \<lparr>hp_header_state := H_content_length_num, hp_state := S_header_value_lws\<rparr>) (p + 15 + length ds + 4) None None None us)"
  proof (rule loop_value[OF at2])
    show "exec_header_value_start e d (counted a2 (Suc (p + 15)) None None None us\<lparr>local_nread := Suc (Suc (p + 15))\<rparr>) =
      Next (counted b (Suc (p + 15)) None (Some (Suc (p + 15))) None us\<lparr>local_nread := Suc (Suc (p + 15))\<rparr>)"
      using a(3) fl dig(1)
      by (auto simp: exec_header_value_start_def b_def Let_def set_mark_def digit_val_def intro!: http_parser.equality)
    show "value_loop (ds @ cr # lf # t) (Suc (Suc (p + 15))) (hp_header_state b) b =
      Some (V_cr, Suc (Suc (p + 15)) + length ds, H_content_length_num, b\<lparr>hp_content_length := n\<rparr>)"
      using value_loop_digits[OF dig(2), of b "lf # t" "Suc (Suc (p + 15))"] val n by (simp add: b_def)
  qed (use size vd digit_facts[OF dig(1)] fl in \<open>simp_all add: b_def a2_def\<close>)
  also have "(on_header_value (d # ds)
       (b\<lparr>hp_content_length := n\<rparr>\<lparr>hp_header_state := H_content_length_num, hp_state := S_header_almost_done\<rparr>))
       \<lparr>hp_header_state := H_content_length_num, hp_state := S_header_value_lws\<rparr> = content_length_line n a"
    using a(4) unfolding b_def a2_def a1_def content_length_line_def vd
    by (intro http_parser.equality) (simp_all add: on_header_field_def on_header_value_def emplace_header_def Let_def)
  also have "p + 15 + length ds + 4 = p + 18 + length (dec_digits n)" by (simp add: vd)
  finally show ?thesis .
qed

subsection \<open>The end of the headers and the body\<close>

text \<open>A handler that neither ends nor clears the parser.\<close>

lemma run_handler_quiet:
  "snd (h (hp_req a) (connection a)) = [] \<Longrightarrow> run_handler h a = a\<lparr>connection := fst (h (hp_req a) (connection a))\<rparr>"
  by (cases "h (hp_req a) (connection a)") (simp add: run_handler_def)

lemma run_calls_fields [simp]: "connection (run_calls cs a) = connection a"
  by (induction cs a rule: run_calls.induct) (simp_all add: nested_done_def parser_clear_def)

lemma nested_done_same:
  "hp_errno a = CHPE_OK \<Longrightarrow> message_complete a \<or> hp_state a = S_start_req \<Longrightarrow> nested_done a = a"
  by (auto simp: nested_done_def)

lemma run_calls_errno:
  "hp_errno a = CHPE_OK \<Longrightarrow> message_complete a \<or> hp_state a = S_start_req \<Longrightarrow> hp_errno (run_calls cs a) = CHPE_OK"
  by (induction cs a rule: run_calls.induct) (simp_all add: nested_done_same, simp add: parser_clear_def)

lemma on_message_complete_ok:
  "hp_errno a = CHPE_OK \<Longrightarrow> hp_errno (on_message_complete h a) = CHPE_OK"
  "connection (on_message_complete h a) = fst (handle_message h (hp_req a) (connection a))"
  by (auto simp: on_message_complete_def run_handler_def intro: run_calls_errno split: prod.split)

definition headers_seen :: "'c handlers \<Rightarrow> 'c http_parser \<Rightarrow> 'c http_parser" where
  "headers_seen h a = (on_headers_complete h (a\<lparr>hp_state := S_headers_done, hp_upgrade := False\<rparr>))\<lparr>hp_nread := 0\<rparr>"

lemma set_connection_fields [simp]:
  "hp_errno (set_connection_parameters a) = hp_errno a" "hp_flags (set_connection_parameters a) = hp_flags a"
  "hp_content_length (set_connection_parameters a) = hp_content_length a" "hp_state (set_connection_parameters a) = hp_state a"
  "uses_transfer_encoding (set_connection_parameters a) = uses_transfer_encoding a"
  "hp_upgrade (set_connection_parameters a) = hp_upgrade a" "connection (set_connection_parameters a) = connection a"
  by (simp_all add: set_connection_parameters_def)

lemma set_connection_req:
  "http_major a = http_major b \<Longrightarrow> http_minor a = http_minor b \<Longrightarrow> hp_flags a = hp_flags b \<Longrightarrow> hp_upgrade a = hp_upgrade b \<Longrightarrow>
   hp_req a = hp_req b \<Longrightarrow> hp_req (set_connection_parameters a) = hp_req (set_connection_parameters b)"
  by (simp add: set_connection_parameters_def)

definition header_quiet :: "'c handlers \<Rightarrow> 'c http_parser \<Rightarrow> bool" where
  "header_quiet h a \<longleftrightarrow>
     snd (handle_header h (hp_req (set_connection_parameters (a\<lparr>hp_upgrade := False, hp_req := settled a\<rparr>))) (connection a)) = []"

lemma headers_seen_eq:
  assumes "header_quiet h a"
  shows "headers_seen h a =
    (let d = a\<lparr>hp_state := S_headers_done, hp_upgrade := False\<rparr>;
         b = set_connection_parameters (if header_field d \<noteq> [] then emplace_header d else d)
     in b\<lparr>connection := fst (handle_header h (hp_req b) (connection b)), hp_nread := 0\<rparr>)"
proof -
  let ?d = "a\<lparr>hp_state := S_headers_done, hp_upgrade := False\<rparr>"
  let ?b = "set_connection_parameters (if header_field ?d \<noteq> [] then emplace_header ?d else ?d)"
  have "hp_req ?b = hp_req (set_connection_parameters (a\<lparr>hp_upgrade := False, hp_req := settled a\<rparr>))"
    by (rule set_connection_req) (simp_all add: emplace_header_def settled_def)
  moreover have "connection ?b = connection a" by (simp add: emplace_header_def)
  ultimately have "snd (handle_header h (hp_req ?b) (connection ?b)) = []" using assms by (simp add: header_quiet_def)
  then show ?thesis unfolding headers_seen_def on_headers_complete_def Let_def by (simp add: run_handler_quiet)
qed

lemma headers_seen_fields:
  assumes "header_quiet h a"
  shows "hp_errno (headers_seen h a) = hp_errno a" "hp_flags (headers_seen h a) = hp_flags a"
    "hp_content_length (headers_seen h a) = hp_content_length a" "hp_state (headers_seen h a) = S_headers_done"
    "uses_transfer_encoding (headers_seen h a) = uses_transfer_encoding a" "hp_upgrade (headers_seen h a) = False"
    "hp_req (headers_seen h a) = hp_req (set_connection_parameters (a\<lparr>hp_upgrade := False, hp_req := settled a\<rparr>))"
    "connection (headers_seen h a) = fst (handle_header h (hp_req (headers_seen h a)) (connection a))"
  by (simp_all add: headers_seen_eq[OF assms] Let_def emplace_header_def settled_def)
    (auto intro: set_connection_req)

lemma header_quiet_state [simp]: "header_quiet h (a\<lparr>hp_state := st\<rparr>) = header_quiet h a"
  by (simp add: header_quiet_def settled_def set_connection_parameters_def)

lemma exec_leftover_none:
  "p_pos x = length (buffer_data e) \<Longrightarrow> hp_errno (prs x) = CHPE_OK \<Longrightarrow> field_mark x = None \<Longrightarrow> value_mark x = None \<Longrightarrow>
   url_mark x = None \<Longrightarrow> body_mark x = None \<Longrightarrow>
   exec_loop e x = Return (length (buffer_data e)) ((prs x)\<lparr>hp_nread := local_nread x\<rparr>)"
  by (subst exec_loop.simps)
    (simp add: exec_leftover_def Let_def assert_that_def callback_field_def callback_value_def callback_url_def
      callback_body_def callback_data_def)

lemma exec_end_of_headers:
  assumes a: "hp_errno a = CHPE_OK" "hp_flags a \<subseteq> {F_CONTENTLENGTH}" "\<not> uses_transfer_encoding a" "hp_method a \<noteq> Connect"
    and st: "hp_state a = S_headers_almost_done" and h: "header_quiet (env_handlers e) a"
  shows "exec_state e lf (counted a p None None None us\<lparr>local_nread := n\<rparr>) =
    (let z = headers_seen (env_handlers e) a; y = counted z p None None None us\<lparr>local_nread := 0\<rparr> in
     if hp_content_length a = 0 \<or> hp_content_length a = ullong_max
     then callback_notify (on_message_complete (env_handlers e)) (p + 1) y Next
     else Next (goto_state S_body_identity y))"
proof -
  have fl: "F_TRAILING \<notin> hp_flags a" "F_SKIPBODY \<notin> hp_flags a" "F_CHUNKED \<notin> hp_flags a" "F_UPGRADE \<notin> hp_flags a"
    using a(2) by auto
  note s = headers_seen_fields[OF h]
  show ?thesis
    using a fl st s
    by (auto simp: exec_state_def exec_headers_almost_done_def exec_headers_done_def strict_check_def Let_def headers_seen_def)
qed

lemma headers_seen_state [simp]: "headers_seen h (a\<lparr>hp_state := st\<rparr>) = headers_seen h a"
  by (simp add: headers_seen_def)

lemma loop_blank_line:
  assumes a: "line_start a" and rest: "rest_at e p (cr # t)" and size: "p < max_header_size"
  shows "exec_loop e (counted a p None None None us) =
    exec_loop e (counted (a\<lparr>hp_state := S_headers_almost_done\<rparr>) (Suc p) None None None us)"
proof -
  have "exec_state e cr (counted a p None None None us\<lparr>local_nread := Suc p\<rparr>) =
     Next (counted (a\<lparr>hp_state := S_headers_almost_done\<rparr>) p None None None us\<lparr>local_nread := Suc p\<rparr>)"
    using a by (subst exec_line_start) (auto simp: exec_header_field_start_def goto_state_def)
  then show ?thesis using a size by (subst header_step[OF rest]) auto
qed

lemma loop_end_no_body:
  assumes a: "hp_errno a = CHPE_OK" "hp_flags a \<subseteq> {F_CONTENTLENGTH}" "\<not> uses_transfer_encoding a" "hp_method a \<noteq> Connect"
    and start: "line_start a" and h: "header_quiet (env_handlers e) a"
    and rest: "rest_at e p [cr, lf]" and size: "p + 2 < max_header_size"
    and len: "hp_content_length a = 0 \<or> hp_content_length a = ullong_max"
  shows "exec_loop e (counted a p None None None us) = Return (length (buffer_data e))
    ((on_message_complete (env_handlers e) (headers_seen (env_handlers e) a))\<lparr>hp_nread := 0\<rparr>)"
proof -
  let ?a = "a\<lparr>hp_state := S_headers_almost_done\<rparr>"
  define m where "m = on_message_complete (env_handlers e) (headers_seen (env_handlers e) a)"
  define y where "y = counted m (Suc p) None None None us\<lparr>local_nread := 0\<rparr>"
  note s = headers_seen_fields[OF h]
  have m: "hp_errno m = CHPE_OK" unfolding m_def by (rule on_message_complete_ok) (use s(1) a(1) in simp)
  have at2: "rest_at e (Suc p) [lf]" using rest_at_Cons[OF rest] by simp
  have "rest_at e (Suc (Suc p)) []" using rest_at_Cons[OF at2] by simp
  then have "length (buffer_data e) = Suc (Suc p)" using rest_at_Cons[OF at2] by (auto simp: rest_at_def)
  note exec_end_of_headers[of ?a e "Suc (Suc p)" "Suc p" us]
  then have "exec_state e lf (counted ?a (Suc p) None None None us\<lparr>local_nread := Suc (Suc p)\<rparr>) = Next y"
    using a h len m s(1) by (simp add: Let_def callback_notify_def assert_that_def y_def m_def)
  then have "exec_loop e (counted ?a (Suc p) None None None us) = exec_loop e (y\<lparr>p_pos := Suc (Suc p)\<rparr>)"
    using size by (subst header_step[OF at2]) (auto simp: y_def)
  also have "\<dots> = Return (length (buffer_data e)) (m\<lparr>hp_nread := 0\<rparr>)"
    using m \<open>length (buffer_data e) = Suc (Suc p)\<close> by (subst exec_leftover_none) (auto simp: y_def)
  finally show ?thesis using loop_blank_line[OF start rest] size by (simp add: m_def)
qed

lemma loop_end_body:
  assumes a: "hp_errno a = CHPE_OK" "hp_flags a \<subseteq> {F_CONTENTLENGTH}" "\<not> uses_transfer_encoding a" "hp_method a \<noteq> Connect"
    and start: "line_start a" and h: "header_quiet (env_handlers e) a"
    and rest: "rest_at e p (cr # lf # bd)" and size: "p + 2 < max_header_size"
    and len: "hp_content_length a = length bd" "bd \<noteq> []" "length bd < ullong_max"
  shows "exec_loop e (counted a p None None None us) = Return (length (buffer_data e))
    ((on_message_complete (env_handlers e)
       (on_body bd ((headers_seen (env_handlers e) a)\<lparr>hp_content_length := 0, hp_state := S_message_done\<rparr>)))\<lparr>hp_nread := 0\<rparr>)"
proof -
  let ?a = "a\<lparr>hp_state := S_headers_almost_done\<rparr>"
  define z where "z = headers_seen (env_handlers e) a"
  define m where "m = on_message_complete (env_handlers e) (on_body bd (z\<lparr>hp_content_length := 0, hp_state := S_message_done\<rparr>))"
  note s = headers_seen_fields[OF h, folded z_def]
  have m: "hp_errno m = CHPE_OK" unfolding m_def by (rule on_message_complete_ok) (use s(1) a(1) in \<open>simp add: on_body_def\<close>)
  have at2: "rest_at e (Suc p) (lf # bd)" using rest_at_Cons[OF rest] by simp
  then have at3: "rest_at e (Suc (Suc p)) bd" using rest_at_Cons[OF at2] by simp
  then have data: "length (buffer_data e) = Suc (Suc p) + length bd" "drop (Suc (Suc p)) (buffer_data e) = bd"
    using len(2) rest_at_Cons[OF at2] by (auto simp: rest_at_def)
  define y where "y = counted (z\<lparr>hp_state := S_body_identity\<rparr>) (Suc p) None None None us\<lparr>local_nread := 0\<rparr>"
  note exec_end_of_headers[of ?a e "Suc (Suc p)" "Suc p" us]
  then have "exec_state e lf (counted ?a (Suc p) None None None us\<lparr>local_nread := Suc (Suc p)\<rparr>) = Next y"
    using a h len by (simp add: Let_def y_def goto_state_def z_def)
  then have "exec_loop e (counted ?a (Suc p) None None None us) = exec_loop e (y\<lparr>p_pos := Suc (Suc p)\<rparr>)"
    using size by (subst header_step[OF at2]) (auto simp: y_def)
  also have "exec_byte e (y\<lparr>p_pos := Suc (Suc p)\<rparr>) =
      Next (counted m (Suc p + length bd) None None None us\<lparr>local_nread := 0\<rparr>)"
    using data len s a(1) m
    by (simp add: exec_byte_def Let_def y_def exec_state_def exec_body_identity_def assert_that_def take_body_def
        set_mark_def callback_body_def callback_data_def exec_message_done_def callback_notify_def m_def goto_state_def
        on_body_def)
  then have "exec_loop e (y\<lparr>p_pos := Suc (Suc p)\<rparr>) =
      exec_loop e (counted m (Suc (Suc p + length bd)) None None None us\<lparr>local_nread := 0\<rparr>)"
    using parser_loop_step[of "y\<lparr>p_pos := Suc (Suc p)\<rparr>" e] data len by (simp add: y_def)
  also have "\<dots> = Return (length (buffer_data e)) (m\<lparr>hp_nread := 0\<rparr>)"
    using m data by (subst exec_leftover_none) auto
  finally show ?thesis using loop_blank_line[OF start rest] size by (simp add: m_def z_def)
qed

subsection \<open>A request\<close>

definition request_head :: "http_method \<Rightarrow> string \<Rightarrow> string \<Rightarrow> char \<Rightarrow> char \<Rightarrow> (string \<times> string) list \<Rightarrow> string option \<Rightarrow> string" where
  "request_head m path q j n hs bo =
     method_name m @ '' '' @ path @ q @ '' '' @ version_text j n @ header_text hs @
     (case bo of None \<Rightarrow> [] | Some s \<Rightarrow> ''Content-Length'' @ '': '' @ dec_digits (length s) @ [cr, lf]) @ [cr, lf]"

definition request_text :: "http_method \<Rightarrow> string \<Rightarrow> string \<Rightarrow> char \<Rightarrow> char \<Rightarrow> (string \<times> string) list \<Rightarrow> string option \<Rightarrow> string" where
  "request_text m path q j n hs bo = request_head m path q j n hs bo @ (case bo of None \<Rightarrow> [] | Some s \<Rightarrow> s)"

definition url_request :: "http_method \<Rightarrow> string \<Rightarrow> string \<Rightarrow> request" where
  "url_request m path q =
     empty_request\<lparr>req_method := m, raw_url := path @ q, url := path, url_params := make_query_string (path @ q) True\<rparr>"

definition head_request :: "http_method \<Rightarrow> string \<Rightarrow> string \<Rightarrow> char \<Rightarrow> char \<Rightarrow> (string \<times> string) list \<Rightarrow> string option \<Rightarrow> request" where
  "head_request m path q j n hs bo =
     (url_request m path q)
       \<lparr>req_headers := hs @ (case bo of None \<Rightarrow> [] | Some s \<Rightarrow> [(''Content-Length'', dec_digits (length s))]),
        http_ver_major := digit_val j, http_ver_minor := digit_val n,
        keep_alive := (j = CHR ''1'' \<and> n = CHR ''1''), close_connection := (j = CHR ''1'' \<and> n = CHR ''0'')\<rparr>"

definition whole_request :: "http_method \<Rightarrow> string \<Rightarrow> string \<Rightarrow> char \<Rightarrow> char \<Rightarrow> (string \<times> string) list \<Rightarrow> string option \<Rightarrow> request" where
  "whole_request m path q j n hs bo =
     (head_request m path q j n hs bo)\<lparr>req_body := (case bo of None \<Rightarrow> [] | Some s \<Rightarrow> s)\<rparr>"

lemma digit_is_one: "is_digit c \<Longrightarrow> digit_val c = 1 \<longleftrightarrow> c = CHR ''1''" "is_digit c \<Longrightarrow> digit_val c = 0 \<longleftrightarrow> c = CHR ''0''"
proof -
  have "byte CHR ''1'' = 49" "byte CHR ''0'' = 48" by code_simp+
  then show "is_digit c \<Longrightarrow> digit_val c = 1 \<longleftrightarrow> c = CHR ''1''" "is_digit c \<Longrightarrow> digit_val c = 0 \<longleftrightarrow> c = CHR ''0''"
    using byte_eq_iff[of c "CHR ''1''"] byte_eq_iff[of c "CHR ''0''"] by (auto simp: digit_val_def is_digit_def)
qed

lemma method_facts:
  assumes "m \<noteq> InternalMethodCount"
  shows "method_word (method_name m) = Some m" "length (method_name m) < 31"
proof -
  have "m \<in> set (butlast http_methods)" using assms by (cases m) (simp_all add: http_methods_def)
  moreover have "list_all (\<lambda>m. length (method_name m) < 31) (butlast http_methods)" by code_simp
  ultimately show "method_word (method_name m) = Some m" "length (method_name m) < 31"
    using method_words by (auto simp: list_all_iff)
qed

text \<open>A parser that waits for a request.\<close>

definition ready :: "'c http_parser \<Rightarrow> bool" where
  "ready a \<longleftrightarrow> hp_state a = S_start_req \<and> hp_errno a = CHPE_OK \<and> \<not> message_complete a \<and> hp_nread a = 0 \<and>
     header_field a = [] \<and> header_value a = [] \<and> header_building_state a = 0 \<and> qs_point a = 0 \<and> hp_req a = empty_request"

lemma ready_init: "ready (http_parser_init c)"
  by (simp add: ready_def http_parser_init_def)

text \<open>The parser after the request line.\<close>

definition line_parser :: "'c handlers \<Rightarrow> 'c http_parser \<Rightarrow> http_method \<Rightarrow> string \<Rightarrow> string \<Rightarrow> char \<Rightarrow> char \<Rightarrow> 'c http_parser" where
  "line_parser h i m path q j n =
     (after_url h path q (with_method S_req_spaces_before_url m (length (method_name m) + 1) m (fresh_message i)))
       \<lparr>http_major := byte j - 48, http_minor := byte n - 48, hp_state := S_header_field_start\<rparr>"

lemma after_url_quiet:
  assumes "ready i" and "snd (handle_url h (url_request m path q) (connection i)) = []" and "path \<noteq> []"
  shows "after_url h path q (with_method S_req_spaces_before_url m k m (fresh_message i)) =
    (with_method S_req_http_start m k m (fresh_message i))
      \<lparr>qs_point := (if q = [] then 0 else length path), hp_req := url_request m path q,
       connection := fst (handle_url h (url_request m path q) (connection i))\<rparr>"
proof -
  define a where "a = (with_method S_req_http_start m k m (fresh_message i))
      \<lparr>qs_point := (if q = [] then 0 else length path), hp_req := url_request m path q\<rparr>"
  have "after_url h path q (with_method S_req_spaces_before_url m k m (fresh_message i)) = run_handler (handle_url h) a"
    using assms(1,3) unfolding a_def after_url_def on_url_def Let_def
    by (intro arg_cong[of _ _ "run_handler (handle_url h)"] http_parser.equality)
      (auto simp: ready_def fresh_message_def url_request_def empty_request_def)
  also have "\<dots> = a\<lparr>connection := fst (handle_url h (url_request m path q) (connection i))\<rparr>"
    using assms(2) by (subst run_handler_quiet) (simp_all add: a_def fresh_message_def)
  finally show ?thesis by (simp add: a_def)
qed

lemma line_parser_fields:
  assumes "ready i" and "snd (handle_url h (url_request m path q) (connection i)) = []" and "path \<noteq> []"
  shows "hp_errno (line_parser h i m path q j n) = CHPE_OK" "hp_flags (line_parser h i m path q j n) = {}"
    "hp_content_length (line_parser h i m path q j n) = ullong_max"
    "\<not> uses_transfer_encoding (line_parser h i m path q j n)" "hp_method (line_parser h i m path q j n) = m"
    "hp_state (line_parser h i m path q j n) = S_header_field_start"
    "header_building_state (line_parser h i m path q j n) = 0" "paired (line_parser h i m path q j n)"
    "settled (line_parser h i m path q j n) = url_request m path q"
    "connection (line_parser h i m path q j n) = fst (handle_url h (url_request m path q) (connection i))"
    "http_major (line_parser h i m path q j n) = digit_val j" "http_minor (line_parser h i m path q j n) = digit_val n"
    "hp_errno (after_url h path q (with_method S_req_spaces_before_url m k m (fresh_message i))) = CHPE_OK"
  using assms(1) unfolding line_parser_def after_url_quiet[OF assms]
  by (simp_all add: ready_def fresh_message_def settled_def digit_val_def)

lemma execute_request_line:
  assumes m: "m \<noteq> InternalMethodCount" "m \<noteq> Connect" and path: "url_path path" and q: "url_query q"
    and dig: "is_digit j" "is_digit n" and i: "ready i" and h: "snd (handle_url (env_handlers e) (url_request m path q) (connection i)) = []"
    and data: "buffer_data e = method_name m @ '' '' @ path @ q @ '' '' @ version_text j n @ t"
    and size: "length (method_name m @ '' '' @ path @ q @ '' '' @ version_text j n) < max_header_size"
  shows "\<exists>us. http_parser_execute e i =
    exec_loop e (counted (line_parser (env_handlers e) i m path q j n)
      (length (method_name m @ '' '' @ path @ q @ '' '' @ version_text j n)) None None None us)"
proof -
  define w where "w = method_name m"
  define a where "a = with_method S_req_spaces_before_url m (length w + 1) m (fresh_message i)"
  note mf = method_facts[OF m(1), folded w_def]
  have pn: "path \<noteq> []" using path by (simp add: url_path_def)
  have vl: "length (version_text j n) = 10" by (simp add: version_text_def)
  have at0: "rest_at e 0 (w @ CHR '' '' # path @ q @ CHR '' '' # version_text j n @ t)" using data by (simp add: rest_at_def w_def)
  have at1: "rest_at e (length w + 1) (path @ q @ CHR '' '' # version_text j n @ t)"
    using rest_at_append[of e 0 "w @ '' ''"] at0 by simp
  have at2: "rest_at e (length w + 1 + length (path @ q) + 1) (version_text j n @ t)"
    using rest_at_append[of e "length w + 1" "path @ q @ '' ''" "version_text j n @ t"] at1 by simp
  have ne: "buffer_data e \<noteq> []" using data by simp
  have "http_parser_execute e i = exec_loop e (counted i 0 None None None None)"
    using ne i by (simp add: http_parser_execute_def start_execution_def ready_def url_states_def)
  also have "\<dots> = exec_loop e (counted a (length w + 1) None None None None)"
    unfolding a_def by (rule loop_method_word[OF mf(1) at0]) (use mf(2) i in \<open>simp_all add: ready_def\<close>)
  also have "\<dots> = exec_loop e (counted (after_url (env_handlers e) path q a) (length w + 1 + length (path @ q) + 1)
      None None None (Some (length w + 1)))"
    using size m(2) line_parser_fields(13)[OF i h pn] i
    by (intro loop_url[OF path q at1]) (auto simp: a_def w_def fresh_message_def ready_def)
  also have "\<dots> = exec_loop e (counted (line_parser (env_handlers e) i m path q j n)
      (length w + 1 + length (path @ q) + 1 + 10) None None None (Some (length w + 1)))"
    using size
    by (subst loop_version[OF at2 dig]) (auto simp: w_def a_def line_parser_def vl after_url_quiet[OF i h pn])
  finally show ?thesis by (intro exI[of _ "Some (length w + 1)"]) (simp add: w_def vl ac_simps)
qed

definition after_headers :: "(string \<times> string) list \<Rightarrow> string option \<Rightarrow> 'c http_parser \<Rightarrow> 'c http_parser" where
  "after_headers hs bo a =
     (case bo of None \<Rightarrow> header_lines hs a | Some s \<Rightarrow> content_length_line (length s) (header_lines hs a))"

lemma content_length_line_fields [simp]:
  "hp_errno (content_length_line n a) = hp_errno a" "uses_transfer_encoding (content_length_line n a) = uses_transfer_encoding a"
  "hp_flags (content_length_line n a) = insert F_CONTENTLENGTH (hp_flags a)" "hp_content_length (content_length_line n a) = n"
  "http_major (content_length_line n a) = http_major a" "http_minor (content_length_line n a) = http_minor a"
  "hp_method (content_length_line n a) = hp_method a" "connection (content_length_line n a) = connection a"
  "hp_state (content_length_line n a) = S_header_value_lws" "hp_header_state (content_length_line n a) = H_content_length_num"
  by (simp_all add: content_length_line_def on_header_field_def on_header_value_def emplace_header_def Let_def)

lemma settled_content_length:
  "header_building_state a = 0 \<Longrightarrow> paired a \<Longrightarrow>
   settled (content_length_line n a) = req_add_header ''Content-Length'' (dec_digits n) (settled a)"
proof -
  assume a: "header_building_state a = 0" "paired a"
  have "settled (content_length_line n a) = settled (on_header_value (dec_digits n) (on_header_field ''Content-Length'' a))"
    by (simp add: content_length_line_def settled_def)
  with settled_push[OF a, of "''Content-Length''" "dec_digits n"] show ?thesis by simp
qed

lemma loop_after_headers:
  assumes a: "line_start a" "hp_errno a = CHPE_OK" "hp_flags a = {}" "\<not> uses_transfer_encoding a" "header_building_state a = 0"
    and hs: "list_all (\<lambda>(k, v). plain_name k \<and> plain_value v) hs"
    and bo: "\<And>s. bo = Some s \<Longrightarrow> length s \<le> ullong_max - 10"
    and rest: "rest_at e p (header_text hs @
      (case bo of None \<Rightarrow> [] | Some s \<Rightarrow> ''Content-Length'' @ '': '' @ dec_digits (length s) @ [cr, lf]) @ t)"
    and q: "q = p + length (header_text hs @
      (case bo of None \<Rightarrow> [] | Some s \<Rightarrow> ''Content-Length'' @ '': '' @ dec_digits (length s) @ [cr, lf]))"
    and size: "q < max_header_size"
  shows "exec_loop e (counted a p None None None us) = exec_loop e (counted (after_headers hs bo a) q None None None us)"
proof -
  have "exec_loop e (counted a p None None None us) =
      exec_loop e (counted (header_lines hs a) (p + length (header_text hs)) None None None us)"
    by (rule loop_headers[OF a(1,2,4,5) hs rest]) (use size q in simp)
  also have "\<dots> = exec_loop e (counted (after_headers hs bo a) q None None None us)"
  proof (cases bo)
    case None
    then show ?thesis using q by (simp add: after_headers_def)
  next
    case (Some s)
    have "exec_loop e (counted (header_lines hs a) (p + length (header_text hs)) None None None us) =
      exec_loop e (counted (content_length_line (length s) (header_lines hs a))
        (p + length (header_text hs) + 18 + length (dec_digits (length s))) None None None us)"
    proof (rule loop_content_length)
      show "rest_at e (p + length (header_text hs)) (''Content-Length'' @ '': '' @ dec_digits (length s) @ [cr, lf] @ t)"
        using rest_at_append[OF rest] Some by simp
    qed (use a header_lines_start[OF a(1), of hs] bo Some size q in \<open>simp_all\<close>)
    moreover have "q = p + length (header_text hs) + 18 + length (dec_digits (length s))" using Some q by simp
    ultimately show ?thesis by (simp add: after_headers_def Some)
  qed
  finally show ?thesis .
qed

text \<open>What \<open>feed\<close> leaves behind: the handler of the message has seen the request, and its calls have been made.\<close>

lemma feed_request:
  assumes m: "m \<noteq> InternalMethodCount" "m \<noteq> Connect" and path: "url_path path" and q: "url_query q"
    and dig: "is_digit j" "is_digit n"
    and hs: "list_all (\<lambda>(k, v). plain_name k \<and> plain_value v) hs"
    and bo: "bo \<noteq> None \<longrightarrow> length (the bo) \<le> ullong_max - 10"
    and fits: "length (request_head m path q j n hs bo) < max_header_size"
    and i: "ready i"
    and hu: "handle_url h (url_request m path q) (connection i) = (c1, [])"
    and hh: "handle_header h (head_request m path q j n hs bo) c1 = (c2, [])"
  shows "\<exists>f. feed \<lparr>env_handlers = h, buffer_address = addr, buffer_data = request_text m path q j n hs bo\<rparr> i =
      Some (True, (on_message_complete h f)\<lparr>hp_nread := 0\<rparr>) \<and>
    hp_req f = whole_request m path q j n hs bo \<and> connection f = c2 \<and> hp_errno f = CHPE_OK"
proof -
  define e where "e = \<lparr>env_handlers = h, buffer_address = addr, buffer_data = request_text m path q j n hs bo\<rparr>"
  define line where "line = method_name m @ '' '' @ path @ q @ '' '' @ version_text j n"
  define cl where "cl = (case bo of None \<Rightarrow> [] | Some s \<Rightarrow> ''Content-Length'' @ '': '' @ dec_digits (length s) @ [cr, lf])"
  define bd where "bd = (case bo of None \<Rightarrow> [] | Some s \<Rightarrow> s)"
  define a where "a = line_parser h i m path q j n"
  define b where "b = after_headers hs bo a"
  have pn: "path \<noteq> []" using path by (simp add: url_path_def)
  have sn: "snd (handle_url h (url_request m path q) (connection i)) = []" using hu by simp
  note lf = line_parser_fields(1-12)[OF i sn pn, where j = j and n = n, folded a_def]
  have data: "buffer_data e = line @ header_text hs @ cl @ cr # lf # bd"
    by (simp add: e_def request_text_def request_head_def line_def cl_def bd_def)
  have size: "length line + length (header_text hs @ cl) + 2 < max_header_size"
    using fits by (simp add: request_head_def line_def cl_def)
  obtain us where us: "http_parser_execute e i = exec_loop e (counted a (length line) None None None us)"
    using execute_request_line[OF m path q dig i, of e "header_text hs @ cl @ cr # lf # bd"] sn data size
    by (auto simp: e_def line_def a_def)
  let ?p = "length line + length (header_text hs @ cl)"
  have at1: "rest_at e (length line) (header_text hs @ cl @ cr # lf # bd)" using data by (simp add: rest_at_def)
  then have at2: "rest_at e ?p (cr # lf # bd)"
    using rest_at_append[of e "length line" "header_text hs @ cl"] by simp
  have run: "http_parser_execute e i = exec_loop e (counted b ?p None None None us)"
    unfolding us b_def
    by (rule loop_after_headers[OF _ lf(1,2,4,7) hs _ at1[unfolded cl_def]])
      (use lf(6) bo size in \<open>auto simp: cl_def\<close>)
  have b: "hp_errno b = CHPE_OK" "hp_flags b \<subseteq> {F_CONTENTLENGTH}" "\<not> uses_transfer_encoding b" "hp_method b \<noteq> Connect"
    "http_major b = digit_val j" "http_minor b = digit_val n" "hp_flags b = (if bo = None then {} else {F_CONTENTLENGTH})"
    "connection b = c1" "hp_content_length b = (case bo of None \<Rightarrow> ullong_max | Some s \<Rightarrow> length s)"
    using lf m(2) hu by (auto simp: b_def after_headers_def split: option.split)
  have start: "line_start b"
    using lf(6) header_lines_start[of a hs] by (auto simp: b_def after_headers_def split: option.split)
  have "settled b = (url_request m path q)
      \<lparr>req_headers := hs @ (case bo of None \<Rightarrow> [] | Some s \<Rightarrow> [(''Content-Length'', dec_digits (length s))])\<rparr>"
    using settled_header_lines[OF lf(7,8) hs] lf(9) settled_content_length[of "header_lines hs a"] lf(7)
    by (auto simp: b_def after_headers_def req_add_header_def ci_emplace_def url_request_def empty_request_def split: option.split)
  then have req: "hp_req (set_connection_parameters (b\<lparr>hp_upgrade := False, hp_req := settled b\<rparr>)) = head_request m path q j n hs bo"
    using b(5-7) dig
    by (simp add: set_connection_parameters_def head_request_def digit_is_one[OF dig(1)] digit_is_one[OF dig(2)]
        url_request_def empty_request_def One_nat_def[symmetric] del: One_nat_def)
  have hq: "header_quiet h b" using req hh b(8) by (simp add: header_quiet_def)
  note hf = headers_seen_fields[OF hq]
  have conn: "connection (headers_seen h b) = c2" using hf(7,8) req hh b(8) by (simp add: headers_seen_def)
  note b4 = b(1-4)
  have "\<exists>f. http_parser_execute e i = Return (length (buffer_data e)) ((on_message_complete h f)\<lparr>hp_nread := 0\<rparr>) \<and>
     hp_errno f = CHPE_OK \<and> connection f = c2 \<and> hp_req f = whole_request m path q j n hs bo"
  proof (cases "bd = []")
    case True
    have "whole_request m path q j n hs bo = head_request m path q j n hs bo"
      using True by (auto simp: whole_request_def bd_def head_request_def url_request_def empty_request_def split: option.splits)
    moreover have "http_parser_execute e i =
        Return (length (buffer_data e)) ((on_message_complete h (headers_seen h b))\<lparr>hp_nread := 0\<rparr>)"
      unfolding run using loop_end_no_body[OF b4 start, of e ?p us] hq at2 True size b(9)
      by (auto simp: e_def bd_def split: option.splits)
    ultimately show ?thesis using hf(1,7) req conn b(1) by auto
  next
    case False
    define f where "f = on_body bd ((headers_seen h b)\<lparr>hp_content_length := 0, hp_state := S_message_done\<rparr>)"
    have bs: "bo = Some bd" using False by (auto simp: bd_def split: option.splits)
    have "http_parser_execute e i = Return (length (buffer_data e)) ((on_message_complete h f)\<lparr>hp_nread := 0\<rparr>)"
      unfolding run f_def
      using loop_end_body[OF b4 start, of e ?p bd us] bo hq at2 False size b(9) bs
      by (auto simp: e_def ullong_max_def)
    moreover have "hp_req f = whole_request m path q j n hs bo"
      using hf(7) req bs by (simp add: f_def on_body_def whole_request_def head_request_def url_request_def empty_request_def)
    ultimately show ?thesis using hf(1) conn b(1) by (auto simp: f_def on_body_def)
  qed
  then obtain f where "http_parser_execute e i = Return (length (buffer_data e)) ((on_message_complete h f)\<lparr>hp_nread := 0\<rparr>)"
    "hp_errno f = CHPE_OK" "connection f = c2" "hp_req f = whole_request m path q j n hs bo" by blast
  moreover have "\<not> message_complete i" using i by (simp add: ready_def)
  ultimately show ?thesis using on_message_complete_ok(1)[of f h] by (auto simp: feed_def e_def)
qed

text \<open>C30: A well-formed request - any method but CONNECT, a path and a query, a version, any headers the parser gives no
  meaning to, and a body announced by Content-Length - is parsed into exactly that request: the message handler gets
  it, whole and once, and \<open>feed\<close> returns true.
\<close>

theorem request_is_parsed:
  assumes "m \<noteq> InternalMethodCount" "m \<noteq> Connect" and "url_path path" and "url_query q"
    and "is_digit j" "is_digit n"
    and "list_all (\<lambda>(k, v). plain_name k \<and> plain_value v) hs"
    and "bo \<noteq> None \<longrightarrow> length (the bo) \<le> ullong_max - 10"
    and "length (request_head m path q j n hs bo) < max_header_size"
    and "ready i"
    and "handle_url h (url_request m path q) (connection i) = (c1, [])"
    and "handle_header h (head_request m path q j n hs bo) c1 = (c2, [])"
  shows "map_option (\<lambda>(ok, a). (ok, connection a))
      (feed \<lparr>env_handlers = h, buffer_address = addr, buffer_data = request_text m path q j n hs bo\<rparr> i) =
    Some (True, fst (handle_message h (whole_request m path q j n hs bo) c2))"
  using feed_request[OF assms, of addr] on_message_complete_ok(2)[of h] by auto

theorem request_is_parsed_witness:
  "map_option (\<lambda>(ok, a). (ok, connection a))
     (feed \<lparr>env_handlers = \<lparr>handle_url = \<lambda>r c. (c, []), handle_header = \<lambda>r c. (c, []), handle_message = \<lambda>r c. (c @ [r], [Call_clear])\<rparr>,
       buffer_address = 4096,
       buffer_data = request_text Put ''/bid'' ''?id=7'' CHR ''1'' CHR ''1'' [(''Host'', ''a.org''), (''Cookie'', ''k=v'')] (Some ''{}'')\<rparr>
       (http_parser_init [])) =
   Some (True, [whole_request Put ''/bid'' ''?id=7'' CHR ''1'' CHR ''1'' [(''Host'', ''a.org''), (''Cookie'', ''k=v'')] (Some ''{}'')])"
proof -
  have "url_path ''/bid''" "url_query ''?id=7''" "is_digit CHR ''1''" "list_all (\<lambda>(k, v). plain_name k \<and> plain_value v) [(''Host'', ''a.org''), (''Cookie'', ''k=v'')]"
    "length (request_head Put ''/bid'' ''?id=7'' CHR ''1'' CHR ''1'' [(''Host'', ''a.org''), (''Cookie'', ''k=v'')] (Some ''{}'')) < max_header_size"
    by code_simp+
  moreover have "Some ''{}'' \<noteq> None \<longrightarrow> length (the (Some ''{}'')) \<le> ullong_max - 10" by (simp add: ullong_max_def)
  ultimately show ?thesis
    by (subst request_is_parsed) (simp_all add: ready_def http_parser_init_def)
qed

subsection \<open>The method automaton\<close>

text \<open>What has been read of the word is a beginning of the name of the method it stands for.\<close>

lemma method_switch_prefix:
  "list_all (\<lambda>((m, i, c), m'). take i (method_name m) @ [c] = take (i + 1) (method_name m') \<and> i < length (method_name m')) method_switch"
  by code_simp

lemma method_name_facts:
  "m \<noteq> InternalMethodCount \<Longrightarrow> method_strings ! method_index m = method_name m \<and> length (method_name m) < 31"
proof -
  assume m: "m \<noteq> InternalMethodCount"
  have "list_all (\<lambda>m. method_index m < method_index InternalMethodCount) (butlast http_methods)" by code_simp
  moreover have "m \<in> set (butlast http_methods)" using m by (cases m) (simp_all add: http_methods_def)
  ultimately show ?thesis using method_facts(2)[OF m] by (auto simp: method_name_def list_all_iff)
qed

lemma method_switch_no_count: "list_all (\<lambda>(x, m'). m' \<noteq> InternalMethodCount) method_switch"
  by code_simp

lemma method_char_prefix:
  assumes m: "m \<noteq> InternalMethodCount" and c: "method_char c m i = Some (m', S_req_method)"
    and i: "i \<le> length (method_name m)"
  shows "m' \<noteq> InternalMethodCount \<and> i + 1 \<le> length (method_name m') \<and>
    take (i + 1) (method_name m') = take i (method_name m) @ [c]"
proof -
  note mf = method_name_facts[OF m]
  consider "m' = m" "c = char_at (method_name m) i" "c \<noteq> nul" | "map_of method_switch (m, i, c) = Some m'"
    using c mf by (auto simp: method_char_def Let_def split: if_splits)
  then show ?thesis
  proof cases
    case 1
    then have "i < length (method_name m)" by (auto simp: char_at_def split: if_splits)
    with 1 m show ?thesis by (simp add: char_at_def take_Suc_conv_app_nth)
  next
    case 2
    then have "((m, i, c), m') \<in> set method_switch" by (rule map_of_SomeD)
    with method_switch_prefix method_switch_no_count show ?thesis by (fastforce simp: list_all_iff)
  qed
qed

lemma read_method_prefix:
  "read_method m i cs = Some m' \<Longrightarrow> m \<noteq> InternalMethodCount \<Longrightarrow> i \<le> length (method_name m) \<Longrightarrow>
   m' \<noteq> InternalMethodCount \<and> i + length cs \<le> length (method_name m') \<and>
   take (i + length cs) (method_name m') = take i (method_name m) @ cs"
proof (induction cs arbitrary: m i)
  case (Cons c cs)
  from Cons.prems(1) obtain m2 where c: "method_char c m i = Some (m2, S_req_method)"
    and read: "read_method m2 ((i + 1) mod 32) cs = Some m'"
    by (auto split: option.splits if_splits)
  note p = method_char_prefix[OF Cons.prems(2) c Cons.prems(3)]
  then have "(i + 1) mod 32 = i + 1" using method_name_facts[of m2] by simp
  with Cons.IH[of m2 "i + 1"] read p show ?case by simp
qed simp

lemma method_names_no_nul: "list_all (\<lambda>m. list_all (\<lambda>c. c \<noteq> nul) (method_name m)) (butlast http_methods)"
  by code_simp

lemma first_method_prefix:
  "first_method c = Some m \<Longrightarrow> m \<noteq> InternalMethodCount \<and> 1 \<le> length (method_name m) \<and> take 1 (method_name m) = [c]"
proof -
  have "list_all (\<lambda>c. case first_method c of None \<Rightarrow> True | Some m \<Rightarrow> m \<noteq> InternalMethodCount \<and>
      1 \<le> length (method_name m) \<and> take 1 (method_name m) = [c]) ''ABCDGHLMNOPRSTU''" by code_simp
  moreover assume "first_method c = Some m"
  moreover from this have "c \<in> set ''ABCDGHLMNOPRSTU''" by (auto simp: first_method_def split: if_splits)
  ultimately show ?thesis by (auto simp: list_all_iff)
qed

text \<open>C31: The automaton that reads the method, driven by the first letter and a table of switches, accepts a word before
  the space exactly when it is the name of a method, and it makes that method of it.
\<close>

theorem method_automaton: "method_word w = Some m \<longleftrightarrow> m \<noteq> InternalMethodCount \<and> w = method_name m"
proof
  assume "method_word w = Some m"
  then obtain c cs m0 where w: "w = c # cs" and first: "first_method c = Some m0" and read: "read_method m0 1 cs = Some m"
    and sp: "map_option snd (method_char CHR '' '' m (length w)) = Some S_req_spaces_before_url"
    by (auto simp: method_word_def split: list.splits option.splits if_splits bind_splits)
  note f = first_method_prefix[OF first]
  from read_method_prefix[OF read] f w have p: "m \<noteq> InternalMethodCount" "length w \<le> length (method_name m)"
    "take (length w) (method_name m) = w" by auto
  have "char_at (method_name m) (length w) = nul"
    using sp method_name_facts[OF p(1)] by (auto simp: method_char_def Let_def split: if_splits)
  then have "length w < length (method_name m) \<Longrightarrow> method_name m ! length w = nul" by (simp add: char_at_def)
  moreover have "m \<in> set (butlast http_methods)" using p(1) by (cases m) (simp_all add: http_methods_def)
  then have "list_all (\<lambda>c. c \<noteq> nul) (method_name m)" using method_names_no_nul by (simp add: list_all_iff)
  then have "length w < length (method_name m) \<Longrightarrow> method_name m ! length w \<noteq> nul"
    by (auto simp: list_all_length)
  ultimately have "length (method_name m) \<le> length w" by (meson linorder_not_less)
  then have "take (length w) (method_name m) = method_name m" by (rule take_all)
  then have "w = method_name m" using p(3) by metis
  with p(1) show "m \<noteq> InternalMethodCount \<and> w = method_name m" by blast
next
  assume "m \<noteq> InternalMethodCount \<and> w = method_name m"
  then show "method_word w = Some m" using method_facts(1)[of m] by blast
qed

subsection \<open>Inputs that are not read as they are meant\<close>

text \<open>A connection that records what its handlers are given and clears the parser after each message.\<close>

definition recording :: "request list handlers" where
  "recording =
     \<lparr>handle_url = \<lambda>r c. (c, []), handle_header = \<lambda>r c. (c, []), handle_message = \<lambda>r c. (c @ [r], [Call_clear])\<rparr>"

definition feed_text :: "request list handlers \<Rightarrow> string \<Rightarrow> request list http_parser \<Rightarrow> (bool \<times> request list http_parser) option" where
  "feed_text h s a = feed \<lparr>env_handlers = h, buffer_address = 4096, buffer_data = s\<rparr> a"

text \<open>
  \<open>url_start_mark\<close> is not reset between the requests of a buffer, so the URL of the second one keeps its query.
\<close>

lemma pipelined_query_is_kept:
  "map_option (\<lambda>(ok, a). map url (connection a))
     (feed_text recording
        (''GET /a?x=1 HTTP/1.1'' @ [cr, lf, cr, lf] @ ''GET /b?x=1 HTTP/1.1'' @ [cr, lf, cr, lf]) (http_parser_init [])) =
   Some [''/a'', ''/b?x=1'']"
  by code_simp

text \<open>A URL that arrives in two reads is handed on, and routed, after the first.\<close>

lemma split_url_is_routed_early:
  "map_option (\<lambda>(ok, a). map url (connection a))
     (feed_text (recording\<lparr>handle_url := \<lambda>r c. (c @ [r], [])\<rparr>) ''GET /bid'' (http_parser_init [])) = Some [''/bid'']"
  by code_simp

text \<open>A NUL at the start of the value is taken for a blank and leads to an assertion that fails.\<close>

lemma connection_nul_aborts:
  "feed_text recording (''GET /a HTTP/1.1'' @ [cr, lf] @ ''Connection: '' @ [nul] @ ''a'') (http_parser_init []) = None"
  by code_simp

text \<open>While a request waits for its response, every further byte of the buffer completes it again.\<close>

lemma trailing_bytes_repeat_the_message:
  "map_option (\<lambda>(ok, a). map req_body (connection a))
     (feed_text (recording\<lparr>handle_message := \<lambda>r c. (c @ [r], [])\<rparr>)
        (''PUT /a HTTP/1.1'' @ [cr, lf] @ ''Content-Length: 1'' @ [cr, lf, cr, lf] @ ''zAB'') (http_parser_init [])) =
   Some [''z'', ''z'', ''z'']"
  by code_simp

text \<open>A header without a value is lost when another one follows.\<close>

lemma empty_header_is_lost:
  "map_option (\<lambda>(ok, a). map req_headers (connection a))
     (feed_text recording (''GET /a HTTP/1.1'' @ [cr, lf] @ ''X:'' @ [cr, lf] @ ''Y: 1'' @ [cr, lf, cr, lf]) (http_parser_init [])) =
   Some [[(''Y'', ''1'')]]"
  by code_simp

text \<open>A header whose name only begins like Transfer-Encoding makes the request invalid.\<close>

lemma transfer_encoding_prefix_is_refused:
  "map_option (\<lambda>(ok, a). (ok, hp_errno a))
     (feed_text recording (''GET /a HTTP/1.1'' @ [cr, lf] @ ''Transfer-Encoding-X: 1'' @ [cr, lf, cr, lf]) (http_parser_init [])) =
   Some (False, CHPE_INVALID_TRANSFER_ENCODING)"
  by code_simp

text \<open>The bytes above 127 count as the digit 0 of the size of a chunk.\<close>

lemma unhex_above_127: "128 \<le> byte c \<Longrightarrow> unhex c = 0"
  by (simp add: unhex_def is_digit_def)

text \<open>An error survives \<open>clear\<close>: the parser of the connection takes no further request.\<close>

lemma clear_keeps_errno: "hp_errno (parser_clear a) = hp_errno a"
  by (simp add: parser_clear_def)

end
