(* ===== verification/Base64.thy ===== *)
theory Base64
  imports Prelude
begin

text \<open>
  \<open>utility::base64encode\<close> and \<open>base64decode\<close> (\<open>crow/utility.h\<close>), on bytes as naturals with the
  masks and shifts of the source, and the round trip with the standard and the URL-safe alphabet.
\<close>

subsection \<open>Encoding\<close>

definition std_key :: string where
  "std_key = ''ABCDEFGHIJKLMNOPQRSTUVWXYZabcdefghijklmnopqrstuvwxyz0123456789+/''"

definition url_key :: string where
  "url_key = ''ABCDEFGHIJKLMNOPQRSTUVWXYZabcdefghijklmnopqrstuvwxyz0123456789-_''"

definition hi6 :: "nat \<Rightarrow> nat" where "hi6 a = drop_bit 2 (a AND 0xFC)"
definition mid1 :: "nat \<Rightarrow> nat" where "mid1 a = push_bit 4 (a AND 0x03)"
definition mid2 :: "nat \<Rightarrow> nat \<Rightarrow> nat" where "mid2 a b = mid1 a OR drop_bit 4 (b AND 0xF0)"
definition low1 :: "nat \<Rightarrow> nat" where "low1 b = push_bit 2 (b AND 0x0F)"
definition low2 :: "nat \<Rightarrow> nat \<Rightarrow> nat" where "low2 b c = low1 b OR drop_bit 6 (c AND 0xC0)"
definition lo6 :: "nat \<Rightarrow> nat" where "lo6 c = c AND 0x3F"

fun base64encode :: "string \<Rightarrow> string \<Rightarrow> string" where
  "base64encode key (a # b # c # r) =
     key ! hi6 (byte a) # key ! mid2 (byte a) (byte b) # key ! low2 (byte b) (byte c) # key ! lo6 (byte c)
       # base64encode key r"
| "base64encode key [a] = [key ! hi6 (byte a), key ! mid1 (byte a), CHR ''='', CHR ''='']"
| "base64encode key [a, b] = [key ! hi6 (byte a), key ! mid2 (byte a) (byte b), key ! low1 (byte b), CHR ''='']"
| "base64encode key [] = []"

definition base64encode_urlsafe :: "string \<Rightarrow> string" where
  "base64encode_urlsafe data = base64encode url_key data"

subsection \<open>Decoding\<close>

definition b64_value :: "char \<Rightarrow> nat" where
  "b64_value c =
     (if 65 \<le> byte c \<and> byte c \<le> 90 then byte c - 65
      else if 97 \<le> byte c \<and> byte c \<le> 122 then byte c - 97 + 26
      else if 48 \<le> byte c \<and> byte c \<le> 57 then byte c - 48 + 52
      else if c = CHR ''+'' \<or> c = CHR ''-'' then 62
      else if c = CHR ''/'' \<or> c = CHR ''_'' then 63
      else 0)"

text \<open>
  The size of the decoded text. For the one-character input \<open>=\<close> the subtraction wraps below zero
  and \<open>resize\<close> throws \<open>std::length_error\<close>.
\<close>

definition b64_size :: "string \<Rightarrow> nat res" where
  "b64_size s =
     (let n = length s in
      if n mod 4 = 2 then Inr (n div 4 * 3 + 1)
      else if n mod 4 = 3 then Inr (n div 4 * 3 + 2)
      else if 2 \<le> n \<and> s ! (n - 2) = CHR ''='' then Inr (n div 4 * 3 - 2)
      else if 1 \<le> n \<and> s ! (n - 1) = CHR ''='' then
        (if n div 4 * 3 = 0 then Inl ''basic_string::resize'' else Inr (n div 4 * 3 - 1))
      else Inr (n div 4 * 3))"

definition dec1 :: "nat \<Rightarrow> nat \<Rightarrow> char" where
  "dec1 x y = chr (push_bit 2 x OR drop_bit 4 (y AND 0x30))"

definition dec2 :: "nat \<Rightarrow> nat \<Rightarrow> char" where
  "dec2 y z = chr (push_bit 4 (y AND 0x0F) OR drop_bit 2 (z AND 0x3C))"

definition dec3 :: "nat \<Rightarrow> nat \<Rightarrow> char" where
  "dec3 z w = chr (push_bit 6 (z AND 0x03) OR w)"

text \<open>The loop writes as many bytes as the size says; the other equations are never reached.\<close>

fun b64_loop :: "nat \<Rightarrow> string \<Rightarrow> string" where
  "b64_loop (Suc (Suc (Suc n))) (c1 # c2 # c3 # c4 # r) =
     dec1 (b64_value c1) (b64_value c2) # dec2 (b64_value c2) (b64_value c3)
       # dec3 (b64_value c3) (b64_value c4) # b64_loop n r"
| "b64_loop (Suc (Suc 0)) (c1 # c2 # c3 # r) =
     [dec1 (b64_value c1) (b64_value c2), dec2 (b64_value c2) (b64_value c3)]"
| "b64_loop (Suc 0) (c1 # c2 # r) = [dec1 (b64_value c1) (b64_value c2)]"
| "b64_loop n s = []"

definition base64decode :: "string \<Rightarrow> string res" where
  "base64decode s = bind_res (b64_size s) (\<lambda>n. Inr (b64_loop n s))"

subsection \<open>Round trip\<close>

text \<open>An alphabet the decoder reads back.\<close>

definition b64_alphabet :: "string \<Rightarrow> bool" where
  "b64_alphabet key \<longleftrightarrow> (\<forall>n < 64. b64_value (key ! n) = n \<and> key ! n \<noteq> CHR ''='')"

lemma alphabet_by_map:
  assumes "map b64_value key = [0..<64]" "CHR ''='' \<notin> set key"
  shows "b64_alphabet key"
  unfolding b64_alphabet_def
proof (intro allI impI)
  fix n :: nat assume n: "n < 64"
  have l: "length key = 64" using arg_cong [OF assms(1), of length] by simp
  have "map b64_value key ! n = [0..<64] ! n" by (simp only: assms(1))
  moreover have "key ! n \<noteq> CHR ''=''" using n l assms(2) nth_mem [of n key] by metis
  ultimately show "b64_value (key ! n) = n \<and> key ! n \<noteq> CHR ''=''"
    using n l by simp
qed

lemma std_alphabet: "b64_alphabet std_key"
  by (rule alphabet_by_map) (simp_all add: std_key_def b64_value_def byte_def upt_rec)

lemma url_alphabet: "b64_alphabet url_key"
  by (rule alphabet_by_map) (simp_all add: url_key_def b64_value_def byte_def upt_rec)

text \<open>The masks and shifts as division and remainder.\<close>

lemma encode_parts:
  assumes "a < 256"
  shows "hi6 a = a div 4" "mid1 a = a mod 4 * 16" "drop_bit 4 (a AND 0xF0) = a div 16"
    "low1 a = a mod 16 * 4" "drop_bit 6 (a AND 0xC0) = a div 64" "lo6 a = a mod 64"
  using assms
  by (simp_all add: hi6_def mid1_def low1_def lo6_def mask_numerals) (simp_all add: drop_bit_eq_div push_bit_eq_mult)

lemma decode_parts:
  assumes "y < (64::nat)"
  shows "drop_bit 4 (y AND 0x30) = y div 16" "drop_bit 2 (y AND 0x3C) = y div 4"
  using assms by (simp_all add: mask_numerals) (simp_all add: drop_bit_eq_div)

lemma encode_values:
  assumes "a < 256" "b < 256"
  shows "mid2 a b = a mod 4 * 16 + b div 16" "low2 a b = a mod 16 * 4 + b div 64"
proof -
  show "mid2 a b = a mod 4 * 16 + b div 16"
    unfolding mid2_def mid1_def encode_parts(3) [OF assms(2)]
    using or_low [of "b div 16" 4 "a mod 4"] assms(2) by (simp add: mask_numerals)
  show "low2 a b = a mod 16 * 4 + b div 64"
    unfolding low2_def low1_def encode_parts(5) [OF assms(2)]
    using or_low [of "b div 64" 2 "a mod 16"] assms(2) by (simp add: mask_numerals)
qed

lemma decode_values:
  assumes "x < 64" "y < 64"
  shows "dec1 x y = chr (x * 4 + y div 16)" "dec2 x y = chr (x mod 16 * 16 + y div 4)"
    "dec3 x y = chr (x mod 4 * 64 + y)"
proof -
  show "dec1 x y = chr (x * 4 + y div 16)"
    unfolding dec1_def decode_parts [OF assms(2)] using or_low [of "y div 16" 2 x] assms(2) by simp
  show "dec2 x y = chr (x mod 16 * 16 + y div 4)"
    unfolding dec2_def decode_parts [OF assms(2)] mask_numerals
    using or_low [of "y div 4" 4 "x mod 16"] assms(2) by (simp del: push_bit_and)
  show "dec3 x y = chr (x mod 4 * 64 + y)"
    unfolding dec3_def mask_numerals using or_low [of y 6 "x mod 4"] assms(2) by simp
qed

lemma pack:
  "(x * 16 + y) div 16 = x" "(x * 16 + y) mod 16 = y" if "y < 16" for x y :: nat
  using that by simp_all

lemma pack4:
  "(x * 4 + y) div 4 = x" "(x * 4 + y) mod 4 = y" if "y < 4" for x y :: nat
  using that by simp_all

lemma div_bounds:
  "a < 256 \<Longrightarrow> a div 4 < 64" "a < 256 \<Longrightarrow> a div 16 < 16" "a < 256 \<Longrightarrow> a div 64 < 4" for a :: nat
  by simp_all

lemma parts_less:
  assumes "a < 256"
  shows "hi6 a < 64" "mid1 a < 64" "low1 a < 64" "lo6 a < 64"
proof -
  have m: "a mod 4 < 4" "a mod 16 < 16" "a mod 64 < 64" by simp_all
  show "hi6 a < 64" using div_bounds(1) [OF assms] by (simp only: encode_parts [OF assms])
  show "mid1 a < 64" using m(1) by (simp only: encode_parts [OF assms])
  show "low1 a < 64" using m(2) by (simp only: encode_parts [OF assms])
  show "lo6 a < 64" using m(3) by (simp only: encode_parts [OF assms])
qed

lemma mids_less:
  assumes "a < 256" "b < 256"
  shows "mid2 a b < 64" "low2 a b < 64"
proof -
  have m: "a mod 4 < 4" "a mod 16 < 16" by simp_all
  show "mid2 a b < 64" using m(1) div_bounds(2) [OF assms(2)] unfolding encode_values [OF assms] by linarith
  show "low2 a b < 64" using m(2) div_bounds(3) [OF assms(2)] unfolding encode_values [OF assms] by linarith
qed

lemma decode_encode_first:
  assumes "a < 256" "b < 256"
  shows "dec1 (hi6 a) (mid2 a b) = chr a" "dec1 (hi6 a) (mid1 a) = chr a"
proof -
  note V = encode_values [OF assms] encode_parts [OF assms(1)]
  have d: "a div 4 * 4 + a mod 4 = a" by simp
  show "dec1 (hi6 a) (mid2 a b) = chr a"
    unfolding decode_values(1) [OF parts_less(1) [OF assms(1)] mids_less(1) [OF assms]]
    unfolding V pack [OF div_bounds(2) [OF assms(2)]] d ..
  have z: "a mod 4 * 16 div 16 = a mod 4" by simp
  show "dec1 (hi6 a) (mid1 a) = chr a"
    unfolding decode_values(1) [OF parts_less(1) [OF assms(1)] parts_less(2) [OF assms(1)]]
    unfolding V z d ..
qed

lemma decode_encode_second:
  assumes "a < 256" "b < 256" "c < 256"
  shows "dec2 (mid2 a b) (low2 b c) = chr b" "dec2 (mid2 a b) (low1 b) = chr b"
proof -
  note V = encode_values(1) [OF assms(1,2)] encode_values(2) [OF assms(2,3)] encode_parts [OF assms(2)]
  have d: "b div 16 * 16 + b mod 16 = b" by simp
  show "dec2 (mid2 a b) (low2 b c) = chr b"
    unfolding decode_values(2) [OF mids_less(1) [OF assms(1,2)] mids_less(2) [OF assms(2,3)]]
    unfolding V pack [OF div_bounds(2) [OF assms(2)]] pack4 [OF div_bounds(3) [OF assms(3)]] d ..
  have z: "b mod 16 * 4 div 4 = b mod 16" by simp
  show "dec2 (mid2 a b) (low1 b) = chr b"
    unfolding decode_values(2) [OF mids_less(1) [OF assms(1,2)] parts_less(3) [OF assms(2)]]
    unfolding V pack [OF div_bounds(2) [OF assms(2)]] z d ..
qed

lemma decode_encode_third:
  assumes "b < 256" "c < 256"
  shows "dec3 (low2 b c) (lo6 c) = chr c"
proof -
  have d: "c div 64 * 64 + c mod 64 = c" by simp
  show ?thesis
    unfolding decode_values(3) [OF mids_less(2) [OF assms] parts_less(4) [OF assms(2)]]
    unfolding encode_values(2) [OF assms] encode_parts(6) [OF assms(2)] pack4 [OF div_bounds(3) [OF assms(2)]] d ..
qed

lemmas decode_encode = decode_encode_first decode_encode_second decode_encode_third

text \<open>The encoded text has four characters for every group of three bytes begun.\<close>

lemma length_base64encode: "length (base64encode key s) = 4 * ((length s + 2) div 3)"
proof (induction key s rule: base64encode.induct)
  case (1 key a b c r)
  have "(length (a # b # c # r) + 2) div 3 = Suc ((length r + 2) div 3)" by simp
  with 1 show ?case by simp
qed simp_all

lemma alphabet_value: "b64_alphabet key \<Longrightarrow> n < 64 \<Longrightarrow> b64_value (key ! n) = n"
  by (simp add: b64_alphabet_def)

lemma alphabet_pad: "b64_alphabet key \<Longrightarrow> n < 64 \<Longrightarrow> key ! n \<noteq> CHR ''=''"
  by (simp add: b64_alphabet_def)

lemma b64_loop_encode:
  assumes "b64_alphabet key"
  shows "b64_loop (length s) (base64encode key s) = s"
  using assms
proof (induction key s rule: base64encode.induct)
  case (1 key a b c r)
  note v = alphabet_value [OF 1(2)]
  show ?case using 1
    by (simp add: v parts_less mids_less decode_encode)
next
  case (2 key a)
  show ?case
    by (simp add: alphabet_value [OF 2] parts_less decode_encode_first(2) [of "byte a" 0])
next
  case (3 key a b)
  show ?case
    by (simp add: alphabet_value [OF 3] parts_less mids_less decode_encode_first(1) decode_encode_second(2) [of "byte a" "byte b" 0])
qed simp

text \<open>The two last characters tell the decoder how many bytes the last group has.\<close>

lemma encode_last:
  assumes "b64_alphabet key" "s \<noteq> []"
  shows "\<exists>p x y. base64encode key s = p @ [x, y] \<and> (x = CHR ''='' \<longleftrightarrow> length s mod 3 = 1)
    \<and> (y = CHR ''='' \<longleftrightarrow> length s mod 3 \<noteq> 0)"
  using assms
proof (induction key s rule: base64encode.induct)
  case (1 key a b c r)
  show ?case
  proof (cases r)
    case Nil
    show ?thesis
      by (rule exI [of _ "[key ! hi6 (byte a), key ! mid2 (byte a) (byte b)]"])
        (simp add: Nil alphabet_pad [OF 1(2)] parts_less mids_less)
  next
    case (Cons d r')
    then obtain p x y where e: "base64encode key r = p @ [x, y]"
        "x = CHR ''='' \<longleftrightarrow> length r mod 3 = 1" "y = CHR ''='' \<longleftrightarrow> length r mod 3 \<noteq> 0"
      using 1 by auto
    have m: "length (a # b # c # r) mod 3 = length r mod 3"
    proof -
      have "length (a # b # c # r) = length r + 3" by simp
      then show ?thesis by (simp only: mod_add_self2)
    qed
    show ?thesis unfolding m
      by (rule exI [of _ "key ! hi6 (byte a) # key ! mid2 (byte a) (byte b) # key ! low2 (byte b) (byte c)
            # key ! lo6 (byte c) # p"]) (use e in auto)
  qed
next
  case (2 key a)
  show ?case by (rule exI [of _ "[key ! hi6 (byte a), key ! mid1 (byte a)]"]) simp
next
  case (3 key a b)
  show ?case
    by (rule exI [of _ "[key ! hi6 (byte a), key ! mid2 (byte a) (byte b)]"])
      (simp add: alphabet_pad [OF 3(1)] parts_less)
qed simp

lemma b64_size_encode:
  assumes "b64_alphabet key"
  shows "b64_size (base64encode key s) = Inr (length s)"
proof (cases "s = []")
  case False
  define t where "t = base64encode key s"
  obtain p x y where e: "t = p @ [x, y]" "x = CHR ''='' \<longleftrightarrow> length s mod 3 = 1" "y = CHR ''='' \<longleftrightarrow> length s mod 3 \<noteq> 0"
    using encode_last [OF assms False] unfolding t_def by auto
  have n: "length t = 4 * ((length s + 2) div 3)" unfolding t_def by (rule length_base64encode)
  have l: "length t - 2 = length p" "length t - 1 = Suc (length p)" "2 \<le> length t" "1 \<le> length t" by (simp_all add: e(1))
  have i: "t ! length p = x" "t ! Suc (length p) = y" by (simp_all add: e(1) nth_append)
  have q: "length t mod 4 = 0" "length t div 4 = (length s + 2) div 3" by (simp_all add: n)
  have "0 < length s" using False by simp
  then have "length s mod 3 = 1 \<Longrightarrow> (length s + 2) div 3 * 3 - 2 = length s"
    "length s mod 3 = 2 \<Longrightarrow> (length s + 2) div 3 * 3 - 1 = length s \<and> (length s + 2) div 3 * 3 \<noteq> 0"
    "length s mod 3 = 0 \<Longrightarrow> (length s + 2) div 3 * 3 = length s" by presburger+
  moreover have "length s mod 3 = 0 \<or> length s mod 3 = 1 \<or> length s mod 3 = 2" by presburger
  ultimately show ?thesis
    unfolding t_def [symmetric] b64_size_def Let_def l i q e(2,3) using l(3,4) by auto
qed (simp add: b64_size_def)

lemma base64_round_trip: "b64_alphabet key \<Longrightarrow> base64decode (base64encode key s) = Inr s"
  by (simp add: base64decode_def b64_size_encode b64_loop_encode)

text \<open>C34: Encoding bytes in base64 and decoding the text gives the bytes back, with the standard and
  with the URL-safe alphabet.\<close>

theorem base64_round_trips:
  "base64decode (base64encode std_key s) = Inr s \<and> base64decode (base64encode_urlsafe s) = Inr s"
  by (simp add: base64encode_urlsafe_def base64_round_trip std_alphabet url_alphabet)

end
