(* ===== verification/Utility.thy ===== *)
theory Utility
  imports Base64
begin

text \<open>
  The rest of \<open>crow/utility.h\<close> that runs: the tags of route parameters (computed by \<open>constexpr\<close>
  functions and once more at run time), path and file name sanitising, trimming, splitting.

  The source walks a string with an index; here a position is the suffix that starts there. The
  functions that throw return a \<^typ>\<open>'a res\<close>.
\<close>

subsection \<open>Parameter tags at compile time\<close>

fun find_closing_tag :: "string \<Rightarrow> string res" where
  "find_closing_tag [] = Inl ''OutOfRange''"
| "find_closing_tag (c # s) = (if c = CHR ''>'' then Inr (c # s) else find_closing_tag s)"

fun is_valid :: "string \<Rightarrow> int \<Rightarrow> bool" where
  "is_valid [] f = (f = 0)"
| "is_valid (c # s) f =
     (if f < 0 \<or> 2 \<le> f then False
      else if c = CHR ''<'' then is_valid s (f + 1)
      else if c = CHR ''>'' then is_valid s (f - 1)
      else is_valid s f)"

fun is_equ_n :: "string \<Rightarrow> string \<Rightarrow> nat \<Rightarrow> bool" where
  "is_equ_n a b n =
     (if length a < n \<or> length b < n then False
      else case n of
        0 \<Rightarrow> True
      | Suc m \<Rightarrow> if hd a \<noteq> hd b then False else is_equ_n (tl a) (tl b) m)"

declare is_equ_n.simps [simp del]

definition is_int :: "string \<Rightarrow> bool" where "is_int s = is_equ_n s ''<int>'' 5"
definition is_uint :: "string \<Rightarrow> bool" where "is_uint s = is_equ_n s ''<uint>'' 6"
definition is_float :: "string \<Rightarrow> bool" where "is_float s = (is_equ_n s ''<float>'' 7 \<or> is_equ_n s ''<double>'' 8)"
definition is_str :: "string \<Rightarrow> bool" where "is_str s = (is_equ_n s ''<str>'' 5 \<or> is_equ_n s ''<string>'' 8)"
definition is_path :: "string \<Rightarrow> bool" where "is_path s = is_equ_n s ''<path>'' 6"

text \<open>\<open>x * 6 + i\<close> in \<open>uint64_t\<close>.\<close>

definition tag_cons :: "nat \<Rightarrow> nat \<Rightarrow> nat" where
  "tag_cons i x = (x * 6 + i) mod 2 ^ 64"

lemma find_closing_shorter: "find_closing_tag s = Inr r \<Longrightarrow> length r \<le> length s"
  by (induction s) (auto split: if_splits)

function get_parameter_tag :: "string \<Rightarrow> nat res" where
  "get_parameter_tag [] = Inr 0"
| "get_parameter_tag (c # s) =
     (if c = CHR ''<'' then
        (let rest = (\<lambda>i. bind_res (find_closing_tag (c # s)) (\<lambda>r.
                         bind_res (get_parameter_tag r) (\<lambda>t. Inr (tag_cons i t))))
         in if is_int (c # s) then rest 1
            else if is_uint (c # s) then rest 2
            else if is_float (c # s) then rest 3
            else if is_str (c # s) then rest 4
            else if is_path (c # s) then rest 5
            else Inl ''invalid parameter type'')
      else get_parameter_tag s)"
  by pat_completeness auto
termination
  by (relation "measure length") (auto dest: find_closing_shorter simp: less_Suc_eq_le)

subsection \<open>Parameter tags at run time\<close>

text \<open>\<open>std::strncmp(a, b, n) == 0\<close> on C strings: a zero byte ends them, and the list ends before the
  terminator.\<close>

fun strncmp_eq :: "string \<Rightarrow> string \<Rightarrow> nat \<Rightarrow> bool" where
  "strncmp_eq a b 0 = True"
| "strncmp_eq [] [] (Suc n) = True"
| "strncmp_eq [] (y # b) (Suc n) = (y = nul)"
| "strncmp_eq (x # a) [] (Suc n) = (x = nul)"
| "strncmp_eq (x # a) (y # b) (Suc n) = (x = y \<and> (x = nul \<or> strncmp_eq a b n))"

fun find_closing_tag_runtime :: "string \<Rightarrow> string res" where
  "find_closing_tag_runtime [] = Inl ''unmatched tag <''"
| "find_closing_tag_runtime (c # s) =
     (if c = nul then Inl ''unmatched tag <''
      else if c = CHR ''>'' then Inr (c # s) else find_closing_tag_runtime s)"

lemma find_closing_runtime_shorter: "find_closing_tag_runtime s = Inr r \<Longrightarrow> length r \<le> length s"
  by (induction s) (auto split: if_splits)

function get_parameter_tag_runtime :: "string \<Rightarrow> nat res" where
  "get_parameter_tag_runtime [] = Inr 0"
| "get_parameter_tag_runtime (c # s) =
     (if c = nul then Inr 0
      else if c = CHR ''<'' then
        (let rest = (\<lambda>i. bind_res (find_closing_tag_runtime (c # s)) (\<lambda>r.
                         bind_res (get_parameter_tag_runtime r) (\<lambda>t. Inr (tag_cons i t))))
         in if strncmp_eq (c # s) ''<int>'' 5 then rest 1
            else if strncmp_eq (c # s) ''<uint>'' 6 then rest 2
            else if strncmp_eq (c # s) ''<float>'' 7 \<or> strncmp_eq (c # s) ''<double>'' 8 then rest 3
            else if strncmp_eq (c # s) ''<str>'' 5 \<or> strncmp_eq (c # s) ''<string>'' 8 then rest 4
            else if strncmp_eq (c # s) ''<path>'' 6 then rest 5
            else Inl ''invalid parameter type'')
      else get_parameter_tag_runtime s)"
  by pat_completeness auto
termination
  by (relation "measure length") (auto dest: find_closing_runtime_shorter simp: less_Suc_eq_le)

subsection \<open>Tags of C++ argument types\<close>

datatype cpp_arg = A_int | A_char | A_short | A_long | A_long_long | A_unsigned_int | A_unsigned_char
  | A_unsigned_short | A_unsigned_long | A_unsigned_long_long | A_double | A_string | A_other

fun parameter_tag :: "cpp_arg \<Rightarrow> nat" where
  "parameter_tag A_int = 1"
| "parameter_tag A_char = 1"
| "parameter_tag A_short = 1"
| "parameter_tag A_long = 1"
| "parameter_tag A_long_long = 1"
| "parameter_tag A_unsigned_int = 2"
| "parameter_tag A_unsigned_char = 2"
| "parameter_tag A_unsigned_short = 2"
| "parameter_tag A_unsigned_long = 2"
| "parameter_tag A_unsigned_long_long = 2"
| "parameter_tag A_double = 3"
| "parameter_tag A_string = 4"
| "parameter_tag A_other = 0"

text \<open>The value is an \<open>int\<close>; a list long enough to overflow it does not compile.\<close>

fun compute_parameter_tag_from_args_list :: "cpp_arg list \<Rightarrow> nat" where
  "compute_parameter_tag_from_args_list [] = 0"
| "compute_parameter_tag_from_args_list (a # as) =
     (let sub_value = compute_parameter_tag_from_args_list as
      in if parameter_tag a \<noteq> 0 then sub_value * 6 + parameter_tag a else sub_value)"

fun is_parameter_tag_compatible :: "nat \<Rightarrow> nat \<Rightarrow> bool" where
  "is_parameter_tag_compatible a b =
     (if a = 0 then b = 0
      else if b = 0 then a = 0
      else
        let sa = a mod 6; sb = a mod 6;
            sa' = (if sa = 5 then 4 else sa);
            sb' = (if sb = 5 then 4 else sb)
        in if sa' \<noteq> sb' then False else is_parameter_tag_compatible (a div 6) (b div 6))"

declare is_parameter_tag_compatible.simps [simp del]

text \<open>The argument types a tag stands for: \<open>black_magic::arguments<Tag>\<close>. A remainder of 0 has no type.\<close>

datatype handler_arg = T_int64 | T_uint64 | T_double | T_string

definition single_tag_to_type :: "nat \<Rightarrow> handler_arg option" where
  "single_tag_to_type n =
     (if n = 1 then Some T_int64 else if n = 2 then Some T_uint64 else if n = 3 then Some T_double
      else if n = 4 \<or> n = 5 then Some T_string else None)"

fun arguments :: "nat \<Rightarrow> handler_arg list option" where
  "arguments tag =
     (if tag = 0 then Some []
      else case arguments (tag div 6) of
        None \<Rightarrow> None
      | Some sub \<Rightarrow> (case single_tag_to_type (tag mod 6) of None \<Rightarrow> None | Some t \<Rightarrow> Some (t # sub)))"

declare arguments.simps [simp del]

subsection \<open>What the tags mean\<close>

lemma is_equ_n_take: "length b = n \<Longrightarrow> is_equ_n a b n \<longleftrightarrow> take n a = b"
proof (induction n arbitrary: a b)
  case (Suc n)
  then obtain y b' where b: "b = y # b'" "length b' = n" by (cases b) auto
  show ?case
  proof (cases a)
    case (Cons x a')
    have "is_equ_n a b (Suc n) \<longleftrightarrow> \<not> length a < Suc n \<and> x = y \<and> is_equ_n a' b' n"
      by (subst is_equ_n.simps) (use b in \<open>simp add: Cons\<close>)
    then show ?thesis using Suc.IH [OF b(2), of a'] b by (auto simp: Cons)
  qed (use b in \<open>simp add: is_equ_n.simps\<close>)
qed (simp add: is_equ_n.simps)

lemma strncmp_take: "length b = n \<Longrightarrow> nul \<notin> set b \<Longrightarrow> strncmp_eq a b n \<longleftrightarrow> take n a = b"
  by (induction a b n rule: strncmp_eq.induct) auto

lemmas tag_tests = is_int_def is_uint_def is_float_def is_str_def is_path_def

lemma strncmp_is:
  "strncmp_eq s ''<int>'' 5 = is_int s" "strncmp_eq s ''<uint>'' 6 = is_uint s"
  "(strncmp_eq s ''<float>'' 7 \<or> strncmp_eq s ''<double>'' 8) = is_float s"
  "(strncmp_eq s ''<str>'' 5 \<or> strncmp_eq s ''<string>'' 8) = is_str s" "strncmp_eq s ''<path>'' 6 = is_path s"
  by (simp_all add: tag_tests is_equ_n_take strncmp_take)

lemma closing_tags_agree: "CHR ''>'' \<in> set s \<Longrightarrow> nul \<notin> set s \<Longrightarrow> find_closing_tag_runtime s = find_closing_tag s"
  by (induction s) auto

lemma take_closing: "take n s = t \<Longrightarrow> CHR ''>'' \<in> set t \<Longrightarrow> CHR ''>'' \<in> set s"
  using set_take_subset [of n s] by auto

lemma tag_has_closing: "is_int s \<or> is_uint s \<or> is_float s \<or> is_str s \<or> is_path s \<Longrightarrow> CHR ''>'' \<in> set s"
  by (auto simp: tag_tests is_equ_n_take dest!: take_closing)

lemma closing_in: "find_closing_tag s = Inr r \<Longrightarrow> set r \<subseteq> set s"
  by (induction s) (auto split: if_splits)

lemma tags_agree_text: "nul \<notin> set s \<Longrightarrow> get_parameter_tag_runtime s = get_parameter_tag s"
proof (induction s rule: measure_induct_rule [of length])
  case (less s)
  show ?case
  proof (cases s)
    case (Cons c s')
    note agree = closing_tags_agree [OF tag_has_closing less.prems]
    have r: "get_parameter_tag_runtime r = get_parameter_tag r" if "find_closing_tag s = Inr r" "c = CHR ''<''" for r
      using that less Cons find_closing_shorter [of s' r] closing_in [of s' r] by (auto simp: less_Suc_eq_le)
    have "bind_res (find_closing_tag_runtime s) (\<lambda>r. bind_res (get_parameter_tag_runtime r) (\<lambda>t. Inr (tag_cons i t)))
      = bind_res (find_closing_tag s) (\<lambda>r. bind_res (get_parameter_tag r) (\<lambda>t. Inr (tag_cons i t)))"
      if "is_int s \<or> is_uint s \<or> is_float s \<or> is_str s \<or> is_path s" "c = CHR ''<''" for i
      unfolding agree [OF that(1)] by (rule bind_res_cong) (use that(2) r in simp_all)
    moreover have "c \<noteq> nul" using less.prems Cons by auto
    ultimately show ?thesis using less.IH [of s'] less.prems by (simp add: strncmp_is Let_def Cons)
  qed simp
qed

lemma strncmp_c_text: "nul \<notin> set b \<Longrightarrow> strncmp_eq (c_text s) b n = strncmp_eq s b n"
  by (induction s b n rule: strncmp_eq.induct) auto

lemma closing_c_text:
  "find_closing_tag_runtime (c_text s) = bind_res (find_closing_tag_runtime s) (\<lambda>r. Inr (c_text r))"
  by (induction s) auto

lemma tag_c_text: "get_parameter_tag_runtime (c_text s) = get_parameter_tag_runtime s"
proof (induction s rule: measure_induct_rule [of length])
  case (less s)
  show ?case
  proof (cases s)
    case (Cons c s')
    have "bind_res (find_closing_tag_runtime (c_text s)) (\<lambda>r. bind_res (get_parameter_tag_runtime r) (\<lambda>t. Inr (tag_cons i t)))
      = bind_res (find_closing_tag_runtime s) (\<lambda>r. bind_res (get_parameter_tag_runtime r) (\<lambda>t. Inr (tag_cons i t)))"
      if "c = CHR ''<''" for i
      unfolding closing_c_text using less.IH that
      by (cases "find_closing_tag_runtime s")
        (auto simp: Cons less_Suc_eq_le dest: find_closing_runtime_shorter)
    moreover have "strncmp_eq (CHR ''<'' # c_text s') b n = strncmp_eq (CHR ''<'' # s') b n" if "nul \<notin> set b" for b n
      using strncmp_c_text [OF that, of "CHR ''<'' # s'" n] by simp
    ultimately show ?thesis using less.IH [of s'] by (cases "c = CHR ''<''") (simp_all add: Cons Let_def)
  qed simp
qed

text \<open>C14: The tag of a route computed when it is registered at run time, from a C string, is the tag the compiler
  computes for the text up to the first zero byte: for a route without zero bytes the two agree, errors included.\<close>

theorem tags_agree: "get_parameter_tag_runtime s = get_parameter_tag (c_text s)"
  using tags_agree_text [of "c_text s"] tag_c_text [of s] by simp

text \<open>
  The argument types a route declares, read off its text: the name between \<open><\<close> and \<open>>\<close>, in order.
\<close>

definition named_type :: "string \<Rightarrow> handler_arg" where
  "named_type n = (if n = ''int'' then T_int64 else if n = ''uint'' then T_uint64
     else if n = ''float'' \<or> n = ''double'' then T_double else T_string)"

function declared_types :: "string \<Rightarrow> handler_arg list" where
  "declared_types [] = []"
| "declared_types (c # s) =
     (if c = CHR ''<'' then named_type (takeWhile (\<lambda>d. d \<noteq> CHR ''>'') s) # declared_types (dropWhile (\<lambda>d. d \<noteq> CHR ''>'') s)
      else declared_types s)"
  by pat_completeness auto
termination
  by (relation "measure length") (auto simp: less_Suc_eq_le length_dropWhile_le)

lemma closing_suffix: "find_closing_tag s = Inr r \<Longrightarrow> r = dropWhile (\<lambda>d. d \<noteq> CHR ''>'') s"
  by (induction s) (auto split: if_splits)

definition tag_value :: "handler_arg \<Rightarrow> nat \<Rightarrow> bool" where
  "tag_value t i \<longleftrightarrow> 0 < i \<and> i < 6 \<and> single_tag_to_type i = Some t"

lemma arguments_cons: "tag_value t i \<Longrightarrow> arguments x = Some ts \<Longrightarrow> arguments (x * 6 + i) = Some (t # ts)"
  by (subst arguments.simps) (auto simp: tag_value_def)

lemma tag_name:
  "is_int (c # s) \<Longrightarrow> tag_value (named_type (takeWhile (\<lambda>d. d \<noteq> CHR ''>'') s)) 1"
  "is_uint (c # s) \<Longrightarrow> tag_value (named_type (takeWhile (\<lambda>d. d \<noteq> CHR ''>'') s)) 2"
  "is_float (c # s) \<Longrightarrow> tag_value (named_type (takeWhile (\<lambda>d. d \<noteq> CHR ''>'') s)) 3"
  "is_str (c # s) \<Longrightarrow> tag_value (named_type (takeWhile (\<lambda>d. d \<noteq> CHR ''>'') s)) 4"
  "is_path (c # s) \<Longrightarrow> tag_value (named_type (takeWhile (\<lambda>d. d \<noteq> CHR ''>'') s)) 5"
proof -
  have L: "takeWhile (\<lambda>d. d \<noteq> CHR ''>'') s = p" if "take n s = p @ ''>''" "CHR ''>'' \<notin> set p" for n p
  proof -
    have e: "s = (p @ ''>'') @ drop n s" using that(1) append_take_drop_id [of n s] by simp
    have "takeWhile (\<lambda>d. d \<noteq> CHR ''>'') ((p @ ''>'') @ r) = p" for r
      using that(2) by (induction p) auto
    then show ?thesis by (subst e)
  qed
  have n: "is_int (c # s) \<Longrightarrow> takeWhile (\<lambda>d. d \<noteq> CHR ''>'') s = ''int''"
    "is_uint (c # s) \<Longrightarrow> takeWhile (\<lambda>d. d \<noteq> CHR ''>'') s = ''uint''"
    "is_path (c # s) \<Longrightarrow> takeWhile (\<lambda>d. d \<noteq> CHR ''>'') s = ''path''"
    using L [of 4 "''int''"] L [of 5 "''uint''"] L [of 5 "''path''"]
    by (simp_all add: tag_tests is_equ_n_take)
  have f: "is_float (c # s) \<Longrightarrow> takeWhile (\<lambda>d. d \<noteq> CHR ''>'') s = ''float'' \<or> takeWhile (\<lambda>d. d \<noteq> CHR ''>'') s = ''double''"
    using L [of 6 "''float''"] L [of 7 "''double''"] unfolding tag_tests by (fastforce simp: is_equ_n_take)
  have g: "is_str (c # s) \<Longrightarrow> takeWhile (\<lambda>d. d \<noteq> CHR ''>'') s = ''str'' \<or> takeWhile (\<lambda>d. d \<noteq> CHR ''>'') s = ''string''"
    using L [of 4 "''str''"] L [of 7 "''string''"] unfolding tag_tests by (fastforce simp: is_equ_n_take)
  note d = named_type_def tag_value_def single_tag_to_type_def
  show "is_int (c # s) \<Longrightarrow> tag_value (named_type (takeWhile (\<lambda>d. d \<noteq> CHR ''>'') s)) 1" by (simp add: n d)
  show "is_uint (c # s) \<Longrightarrow> tag_value (named_type (takeWhile (\<lambda>d. d \<noteq> CHR ''>'') s)) 2" by (simp add: n d)
  show "is_path (c # s) \<Longrightarrow> tag_value (named_type (takeWhile (\<lambda>d. d \<noteq> CHR ''>'') s)) 5" by (simp add: n d)
  show "is_float (c # s) \<Longrightarrow> tag_value (named_type (takeWhile (\<lambda>d. d \<noteq> CHR ''>'') s)) 3" by (drule f) (auto simp: d)
  show "is_str (c # s) \<Longrightarrow> tag_value (named_type (takeWhile (\<lambda>d. d \<noteq> CHR ''>'') s)) 4" by (drule g) (auto simp: d)
qed

text \<open>The reference says what the tag is made of, as long as it fits its 64 bits.\<close>

lemma tag_declares:
  assumes "get_parameter_tag s = Inr t" "length (declared_types s) \<le> 24"
  shows "arguments t = Some (declared_types s) \<and> t < 6 ^ length (declared_types s)"
  using assms
proof (induction s arbitrary: t rule: measure_induct_rule [of length])
  case (less s)
  show ?case
  proof (cases s)
    case Nil
    then show ?thesis using less(2) by (simp add: arguments.simps)
  next
    case (Cons c s')
    show ?thesis
    proof (cases "c = CHR ''<''")
      case False
      then show ?thesis using less Cons by simp
    next
      case True
      define r where "r = dropWhile (\<lambda>d. d \<noteq> CHR ''>'') s'"
      let ?ty = "named_type (takeWhile (\<lambda>d. d \<noteq> CHR ''>'') s')"
      have r: "length r < length s" unfolding r_def Cons by (simp add: less_Suc_eq_le length_dropWhile_le)
      have d: "declared_types s = ?ty # declared_types r" by (simp add: Cons True r_def)
      obtain i x where x: "get_parameter_tag r = Inr x" "t = tag_cons i x" "tag_value ?ty i"
        using less(2) closing_suffix [of s] unfolding Cons True r_def
        by (auto simp: Let_def tag_name tag_name(1) [unfolded One_nat_def] split: if_splits)
      have ih: "arguments x = Some (declared_types r)" "x < 6 ^ length (declared_types r)"
        using less(1) [OF r x(1)] less(3) d by simp_all
      have b: "x * 6 + i < 6 * 6 ^ length (declared_types r)" using ih(2) x(3) by (simp add: tag_value_def)
      have "(6::nat) * 6 ^ length (declared_types r) \<le> 6 ^ 24"
        using less(3) d power_increasing [of "Suc (length (declared_types r))" 24 "6::nat"] by simp
      then have "x * 6 + i < 2 ^ 64" using b by simp
      then have t: "t = x * 6 + i" using x(2) by (simp add: tag_cons_def)
      show ?thesis using arguments_cons [OF x(3) ih(1)] b by (simp add: t d)
    qed
  qed
qed

subsection \<open>Paths and file names\<close>

definition normalize_path :: "string \<Rightarrow> string" where
  "normalize_path directory_path =
     (let p = map (\<lambda>c. if c = CHR 0x5C then CHR ''/'' else c) directory_path
      in if p \<noteq> [] \<and> last p \<noteq> CHR ''/'' then p @ ''/'' else p)"

definition upper_ascii :: "char \<Rightarrow> char" where
  "upper_ascii c = (if 97 \<le> byte c \<and> byte c \<le> 122 then chr (byte c - 32) else c)"

text \<open>
  The pattern of a device name at the front of the text, and the digit where the name has one:
  the text behind it, if it ends there or goes on with one of the four dangerous characters.
\<close>

fun match_name :: "string \<Rightarrow> string \<Rightarrow> string option" where
  "match_name [] s = Some s"
| "match_name (p # ps) [] = None"
| "match_name (p # ps) (c # s) = (if upper_ascii c \<noteq> p then None else match_name ps s)"

definition match_number :: "bool \<Rightarrow> string \<Rightarrow> string option" where
  "match_number include_number s =
     (if include_number then
        (case s of [] \<Rightarrow> None | c # r \<Rightarrow> if byte c < 49 \<or> 57 < byte c then None else Some r)
      else Some s)"

definition special_end :: "string \<Rightarrow> bool" where
  "special_end s = (s = [] \<or> hd s = CHR ''.'' \<or> hd s = CHR '':'' \<or> hd s = CHR ''/'' \<or> hd s = CHR 0x5C)"

definition special_rest :: "string \<Rightarrow> bool \<Rightarrow> string \<Rightarrow> string option" where
  "special_rest pattern include_number s =
     (case match_name pattern s of
        None \<Rightarrow> None
      | Some r \<Rightarrow> (case match_number include_number r of
          None \<Rightarrow> None
        | Some r' \<Rightarrow> if special_end r' then Some r' else None))"

definition sanitize_special_file :: "string \<Rightarrow> bool \<Rightarrow> char \<Rightarrow> string \<Rightarrow> string" where
  "sanitize_special_file pattern include_number replacement s =
     (case special_rest pattern include_number s of None \<Rightarrow> s | Some r \<Rightarrow> replacement # r)"

definition sanitize_entry :: "char \<Rightarrow> string \<Rightarrow> string" where
  "sanitize_entry replacement s =
     (let u = upper_ascii (hd s) in
      if u = CHR ''A'' then sanitize_special_file ''AUX'' False replacement s
      else if u = CHR ''C'' then
        sanitize_special_file ''COM'' True replacement (sanitize_special_file ''CON'' False replacement s)
      else if u = CHR ''L'' then sanitize_special_file ''LPT'' True replacement s
      else if u = CHR ''N'' then sanitize_special_file ''NUL'' False replacement s
      else if u = CHR ''P'' then sanitize_special_file ''PRN'' False replacement s
      else if u = CHR ''.'' then sanitize_special_file ''..'' False replacement s
      else s)"

definition forbidden_char :: "char \<Rightarrow> bool" where
  "forbidden_char c =
     (byte c < 32 \<or> (0x80 \<le> byte c \<and> byte c \<le> 0x9F) \<or> c \<in> set ''?<>:*|'' \<or> c = CHR 0x22)"

definition path_separator :: "char \<Rightarrow> bool" where
  "path_separator c = (c = CHR ''/'' \<or> c = CHR 0x5C)"

lemma match_name_length: "match_name p s = Some r \<Longrightarrow> length s = length p + length r"
  by (induction p s rule: match_name.induct) (auto split: if_splits)

lemma match_number_length: "match_number n s = Some r \<Longrightarrow> length r \<le> length s"
  by (auto simp: match_number_def split: if_splits list.splits)

lemma special_rest_length: "special_rest p n s = Some r \<Longrightarrow> length p + length r \<le> length s"
  by (auto simp: special_rest_def dest!: match_name_length match_number_length split: option.splits if_splits)

lemma sanitize_special_length: "p \<noteq> [] \<Longrightarrow> length (sanitize_special_file p n c s) \<le> length s"
  by (cases p) (auto simp: sanitize_special_file_def dest!: special_rest_length split: option.splits)

lemma sanitize_entry_length: "length (sanitize_entry c s) \<le> length s"
proof -
  have "length (sanitize_special_file ''COM'' True c (sanitize_special_file ''CON'' False c s)) \<le> length s"
    by (rule order_trans [OF sanitize_special_length sanitize_special_length]) simp_all
  then show ?thesis by (auto simp: sanitize_entry_def Let_def sanitize_special_length)
qed

text \<open>The loop over the characters; \<open>first\<close> says that the position is 0.\<close>

function sanitize_loop :: "bool \<Rightarrow> bool \<Rightarrow> char \<Rightarrow> string \<Rightarrow> string" where
  "sanitize_loop first check replacement [] = []"
| "sanitize_loop first check replacement (a # s) =
     (case (if check then sanitize_entry replacement (a # s) else a # s) of
        [] \<Rightarrow> []
      | c # r \<Rightarrow>
          if forbidden_char c then replacement # sanitize_loop False False replacement r
          else if path_separator c then
            (if first then replacement # sanitize_loop False False replacement r
             else c # sanitize_loop False True replacement r)
          else c # sanitize_loop False False replacement r)"
  by pat_completeness auto
termination
proof (relation "measure (\<lambda>(f, k, c, s). length s)", goal_cases)
  case (2 first check c a s x y)
  then show ?case using sanitize_entry_length [of c "a # s"] by (auto split: if_splits)
next
  case (3 first check c a s x y)
  then show ?case using sanitize_entry_length [of c "a # s"] by (auto split: if_splits)
next
  case (4 first check c a s x y)
  then show ?case using sanitize_entry_length [of c "a # s"] by (auto split: if_splits)
next
  case (5 first check c a s x y)
  then show ?case using sanitize_entry_length [of c "a # s"] by (auto split: if_splits)
qed simp

definition sanitize_filename :: "string \<Rightarrow> char \<Rightarrow> string" where
  "sanitize_filename data replacement =
     sanitize_loop True True replacement (if 255 < length data then take 255 data else data)"

text \<open>The random numbers of \<open>std::uniform_int_distribution\<close> over the alphabet are an argument.\<close>

definition alphanum :: string where
  "alphanum = ''0123456789abcdefghijklmnopqrstuvwxyzABCDEFGHIJKLMNOPQRSTUVWXYZ''"

definition random_alphanum :: "nat list \<Rightarrow> string" where
  "random_alphanum draws = map (\<lambda>d. alphanum ! d) draws"

subsection \<open>Trimming and splitting\<close>

definition trim :: "string \<Rightarrow> string" where
  "trim v =
     (if v = [] then []
      else let begin = length (takeWhile is_space v)
           in if begin = length v then []
              else let finish = length v - length (takeWhile is_space (rev v))
                   in take (finish - begin) (drop begin v))"

text \<open>\<open>std::string::find\<close>: the first position of a text.\<close>

fun find_sub :: "string \<Rightarrow> string \<Rightarrow> nat option" where
  "find_sub t s =
     (if take (length t) s = t then Some 0
      else case s of [] \<Rightarrow> None | c # r \<Rightarrow> map_option Suc (find_sub t r))"

declare find_sub.simps [simp del]

text \<open>With an empty separator the loop never ends.\<close>

partial_function (option) split_from :: "string \<Rightarrow> string \<Rightarrow> string list option" where
  "split_from sep s =
     (case find_sub sep s of
        None \<Rightarrow> Some [s]
      | Some i \<Rightarrow> Option.bind (split_from sep (drop (i + length sep) s)) (\<lambda>r. Some (take i s # r)))"

definition split_text :: "string \<Rightarrow> string \<Rightarrow> string list option" where
  "split_text v separator = split_from separator v"

definition find_first_of :: "'a list \<Rightarrow> 'a list \<Rightarrow> 'a list" where
  "find_first_of xs ys = dropWhile (\<lambda>x. x \<notin> set ys) xs"

subsection \<open>Sanitised file names are safe\<close>

definition special_names :: "(string \<times> bool) list" where
  "special_names = [(''AUX'', False), (''CON'', False), (''COM'', True), (''LPT'', True), (''NUL'', False),
     (''PRN'', False), (''..'', False)]"

definition entry_ok :: "string \<Rightarrow> bool" where
  "entry_ok s \<longleftrightarrow> (\<forall>(p, n) \<in> set special_names. special_rest p n s = None)"

text \<open>The text from the start (if asked for) and from behind every separator on.\<close>

fun entries :: "bool \<Rightarrow> string \<Rightarrow> string list" where
  "entries k [] = (if k then [[]] else [])"
| "entries k (c # s) = (if k then [c # s] else []) @ entries (path_separator c) s"

abbreviation mark :: char where "mark \<equiv> CHR ''_''"

lemma mark_facts: "upper_ascii mark = mark" "\<not> path_separator mark" "\<not> forbidden_char mark"
  by (code_simp, code_simp, code_simp)

lemma special_rest_first: "upper_ascii c \<noteq> p \<Longrightarrow> special_rest (p # ps) n (c # s) = None"
  by (simp add: special_rest_def)

lemma special_rest_mark: "(p, n) \<in> set special_names \<Longrightarrow> special_rest p n (mark # s) = None"
  by (auto simp: special_names_def special_rest_first mark_facts)

lemma sanitize_special_ok:
  "(p, n) \<in> set special_names \<Longrightarrow> special_rest p n (sanitize_special_file p n mark s) = None"
  by (auto simp: sanitize_special_file_def special_rest_mark split: option.splits)

lemma sanitize_special_keeps:
  "(q, m) \<in> set special_names \<Longrightarrow> special_rest q m s = None \<Longrightarrow> special_rest q m (sanitize_special_file p n mark s) = None"
  by (auto simp: sanitize_special_file_def special_rest_mark split: option.splits)

lemma sanitize_entry_ok: "entry_ok (sanitize_entry mark (c # s))"
proof -
  have n: "special_rest p n (sanitize_entry mark (c # s)) = None" if "(p, n) \<in> set special_names" for p n
  proof (cases "upper_ascii c = hd p")
    case False
    have f: "special_rest p n (c # s) = None"
      using that False by (auto simp: special_names_def special_rest_first)
    show ?thesis
      by (auto simp: sanitize_entry_def Let_def f intro!: sanitize_special_keeps [OF that])
  next
    case True
    show ?thesis
      using that True
      by (auto simp: special_names_def sanitize_entry_def Let_def sanitize_special_ok sanitize_special_keeps)
  qed
  then show ?thesis unfolding entry_ok_def by blast
qed

text \<open>Marking the other characters makes no new special name.\<close>

lemma loop_head:
  assumes "sanitize_loop False False mark s = x # t" "x \<noteq> mark"
  obtains k r where "s = x # r" "t = sanitize_loop False k mark r" "k \<longleftrightarrow> path_separator x" "\<not> forbidden_char x"
  using assms by (cases s) (auto split: if_splits)

lemma match_name_loop:
  assumes "match_name p (sanitize_loop False False mark s) = Some t"
    "\<forall>x \<in> set p. x \<noteq> mark \<and> (\<forall>c. upper_ascii c = x \<longrightarrow> \<not> path_separator c)"
  shows "\<exists>r. match_name p s = Some r \<and> t = sanitize_loop False False mark r"
  using assms
proof (induction p arbitrary: s)
  case (Cons x p)
  obtain y u where y: "sanitize_loop False False mark s = y # u" "upper_ascii y = x" "match_name p u = Some t"
    using Cons.prems(1) by (cases "sanitize_loop False False mark s") (auto split: if_splits)
  have "y \<noteq> mark" "\<not> path_separator y" using y(2) Cons.prems(2) mark_facts(1) by auto
  with y(1) obtain r where r: "s = y # r" "u = sanitize_loop False False mark r"
    by (auto elim!: loop_head)
  show ?case using Cons.IH [of r] Cons.prems(2) y r by simp
qed simp

lemma match_number_loop:
  assumes "match_number n (sanitize_loop False False mark s) = Some t"
  shows "\<exists>r. match_number n s = Some r \<and> t = sanitize_loop False False mark r"
proof (cases n)
  case True
  obtain y u where y: "sanitize_loop False False mark s = y # u" "\<not> (byte y < 49 \<or> 57 < byte y)" "t = u"
    using assms True by (auto simp: match_number_def split: list.splits if_splits)
  have "byte mark = 95" "byte (CHR ''/'') = 47" "byte (CHR 0x5C) = 92" by code_simp+
  then have "y \<noteq> mark" "\<not> path_separator y" using y(2) by (auto simp: path_separator_def)
  with y(1) obtain r where r: "s = y # r" "u = sanitize_loop False False mark r" by (auto elim!: loop_head)
  show ?thesis using y(2,3) r True by (simp add: match_number_def)
qed (use assms in \<open>auto simp: match_number_def\<close>)

lemma special_end_loop: "special_end (sanitize_loop False False mark s) \<Longrightarrow> special_end s"
  by (cases s) (auto simp: special_end_def split: if_splits)

lemma upper_separator: "upper_ascii c = x \<Longrightarrow> path_separator c \<Longrightarrow> path_separator x"
  unfolding path_separator_def by (elim disjE; hypsubst; code_simp)

lemma special_names_plain:
  assumes "(p, n) \<in> set special_names"
  shows "\<forall>x \<in> set p. x \<noteq> mark \<and> (\<forall>c. upper_ascii c = x \<longrightarrow> \<not> path_separator c)"
proof -
  have "\<forall>x \<in> set p. x \<noteq> mark \<and> \<not> path_separator x"
    using assms by (auto simp: special_names_def path_separator_def)
  then show ?thesis by (auto dest: upper_separator [OF refl])
qed

lemma special_rest_loop:
  assumes "(p, n) \<in> set special_names" "special_rest p n s = None"
  shows "special_rest p n (sanitize_loop False False mark s) = None"
proof (rule ccontr)
  assume "special_rest p n (sanitize_loop False False mark s) \<noteq> None"
  then obtain t u where t: "match_name p (sanitize_loop False False mark s) = Some t" "match_number n t = Some u" "special_end u"
    by (auto simp: special_rest_def split: option.splits if_splits)
  obtain r where r: "match_name p s = Some r" "t = sanitize_loop False False mark r"
    using match_name_loop [OF t(1) special_names_plain [OF assms(1)]] by auto
  obtain q where q: "match_number n r = Some q" "u = sanitize_loop False False mark q"
    using match_number_loop t(2) unfolding r(2) by blast
  have "special_end q" using t(3) special_end_loop unfolding q(2) by blast
  then show False using assms(2) r(1) q(1) by (simp add: special_rest_def)
qed

text \<open>The first character of the text may be a separator, which is marked.\<close>

lemma special_rest_loop_first:
  assumes "(p, n) \<in> set special_names" "special_rest p n s = None"
  shows "special_rest p n (sanitize_loop f False mark s) = None"
proof (cases "sanitize_loop f False mark s = sanitize_loop False False mark s")
  case True
  then show ?thesis using special_rest_loop [OF assms] by simp
next
  case False
  then show ?thesis using special_rest_mark [OF assms(1)] by (cases s) (auto split: if_splits)
qed

lemma sanitize_loop_unchecked:
  assumes "(if k then sanitize_entry mark (a # s) else a # s) = c # r"
  shows "sanitize_loop f k mark (a # s) = sanitize_loop f False mark (c # r)"
  using assms by simp

lemma loop_entries: "\<forall>e \<in> set (entries k (sanitize_loop f k mark s)). entry_ok e"
proof (induction s arbitrary: k f rule: measure_induct_rule [of length])
  case (less s)
  show ?case
  proof (cases s)
    case Nil
    then show ?thesis by (simp add: entry_ok_def special_names_def special_rest_def)
  next
    case (Cons a s')
    show ?thesis
    proof (cases "if k then sanitize_entry mark (a # s') else a # s'")
      case Nil
      then show ?thesis by (simp add: Cons entry_ok_def special_names_def special_rest_def)
    next
      case e: (Cons c r)
      have out: "sanitize_loop f k mark s = sanitize_loop f False mark (c # r)"
        unfolding Cons by (rule sanitize_loop_unchecked [OF e])
      have "length r < length s"
        using e sanitize_entry_length [of mark "a # s'"] Cons by (auto split: if_splits)
      note ih = less [OF this]
      have rest: "\<forall>x \<in> set (entries False (sanitize_loop f False mark (c # r))). entry_ok x"
        using ih mark_facts by (auto simp: path_separator_def)
      have first: "entry_ok (sanitize_loop f False mark (c # r))" if k
      proof -
        have "entry_ok (c # r)" using sanitize_entry_ok [of a s'] e that by simp
        then show ?thesis unfolding entry_ok_def using special_rest_loop_first by blast
      qed
      have "set (entries k t) \<subseteq> set (entries False t) \<union> (if k then {t} else {})" for t by (cases t) auto
      then show ?thesis using rest first unfolding out by (auto split: if_splits)
    qed
  qed
qed

lemma loop_step:
  obtains "sanitize_loop f k mark s = []"
  | x j r where "sanitize_loop f k mark s = x # sanitize_loop False j mark r" "length r < length s" "\<not> forbidden_char x"
proof (cases s)
  case (Cons a s')
  show ?thesis
  proof (cases "if k then sanitize_entry mark (a # s') else a # s'")
    case e: (Cons c r)
    have "length r < length s"
      using e sanitize_entry_length [of mark "a # s'"] Cons by (auto split: if_splits)
    moreover have "sanitize_loop f k mark s
      = (if forbidden_char c \<or> path_separator c \<and> f then mark else c)
        # sanitize_loop False (\<not> forbidden_char c \<and> path_separator c \<and> \<not> f) mark r"
      using e unfolding Cons by simp
    ultimately show ?thesis using that(2) mark_facts(3) by presburger
  qed (use that(1) Cons in simp)
qed (use that(1) in simp)

lemma loop_chars: "c \<in> set (sanitize_loop f k mark s) \<Longrightarrow> \<not> forbidden_char c"
proof (induction s arbitrary: k f rule: measure_induct_rule [of length])
  case (less s)
  then show ?case by (cases rule: loop_step [of f k s]) auto
qed

lemma loop_length: "length (sanitize_loop f k mark s) \<le> length s"
proof (induction s arbitrary: k f rule: measure_induct_rule [of length])
  case (less s)
  show ?case
  proof (cases rule: loop_step [of f k s])
    case (2 x j r)
    then show ?thesis using less [of r False j] by simp
  qed simp
qed

text \<open>C17: A sanitised file name has at most 255 bytes, holds no forbidden character, does not start at
  the root, and neither it nor any of its path components is a device name or the parent
  directory.
\<close>

theorem sanitized_name_safe:
  "let t = sanitize_filename data mark in
   length t \<le> 255 \<and> list_all (\<lambda>c. \<not> forbidden_char c) t \<and> \<not> (t \<noteq> [] \<and> path_separator (hd t))
   \<and> list_all entry_ok (entries True t)"
proof -
  define d where "d = (if 255 < length data then take 255 data else data)"
  have t: "sanitize_filename data mark = sanitize_loop True True mark d"
    by (simp add: sanitize_filename_def d_def)
  have "length d \<le> 255" by (simp add: d_def)
  then have l: "length (sanitize_loop True True mark d) \<le> 255"
    using loop_length [of True True d] by linarith
  have h: "\<not> (sanitize_loop True True mark d \<noteq> [] \<and> path_separator (hd (sanitize_loop True True mark d)))"
    using mark_facts by (cases d) (auto split: list.splits)
  show ?thesis unfolding Let_def t list_all_iff
    using l h loop_entries [of True True d] loop_chars by blast
qed

subsection \<open>Trimming, splitting, tags: what they compute\<close>

lemma takeWhile_stop: "\<not> P c \<Longrightarrow> takeWhile P (xs @ c # ys) = takeWhile P (xs @ [c])"
  by (induction xs) auto

lemma trim_strips: "trim v = rev (dropWhile is_space (rev (dropWhile is_space v)))"
proof (cases "dropWhile is_space v")
  case Nil
  then have "takeWhile is_space v = v" by (simp add: takeWhile_eq_all_conv)
  then have "length (takeWhile is_space v) = length v" by (rule arg_cong)
  then show ?thesis unfolding trim_def Let_def Nil by simp
next
  case (Cons c r)
  let ?a = "takeWhile is_space v" and ?d = "dropWhile is_space v"
  let ?n = "length (takeWhile is_space (rev ?d))"
  have c: "\<not> is_space c" using hd_dropWhile [of is_space v] Cons by simp
  have v: "v = ?a @ ?d" by simp
  have w: "takeWhile is_space (rev v) = takeWhile is_space (rev ?d)"
    by (subst v, simp only: rev_append) (use c Cons in \<open>simp add: takeWhile_stop [of is_space c _ "rev (takeWhile is_space v)"]\<close>)
  have l: "length v = length ?a + length ?d" by (metis length_append takeWhile_dropWhile_id)
  have b: "length v \<noteq> length ?a" "v \<noteq> []" using l Cons by auto
  have "trim v = take (length v - ?n - length ?a) (drop (length ?a) v)"
    using b unfolding trim_def Let_def w by simp
  also have "\<dots> = take (length ?d - ?n) ?d"
  proof -
    have "length v - ?n - length ?a = length ?d - ?n" using l by simp
    then show ?thesis by (simp only: dropWhile_eq_drop [of is_space v, symmetric])
  qed
  also have "\<dots> = rev (dropWhile is_space (rev ?d))"
    by (simp only: dropWhile_eq_drop [of is_space "rev ?d"] rev_drop rev_rev_ident length_rev)
  finally show ?thesis .
qed

lemma find_sub_Some: "find_sub t s = Some i \<Longrightarrow> take (length t) (drop i s) = t \<and> i + length t \<le> length s"
proof (induction s arbitrary: i)
  case Nil
  then show ?case by (auto simp: find_sub.simps [of t "[]"] split: if_splits)
next
  case (Cons c s)
  show ?case
  proof (cases "take (length t) (c # s) = t")
    case True
    then have "length t \<le> length (c # s)" by (metis length_take min.cobounded1)
    then show ?thesis using Cons.prems True by (simp add: find_sub.simps [of t "c # s"])
  next
    case False
    then obtain j where "find_sub t s = Some j" "i = Suc j"
      using Cons.prems by (auto simp: find_sub.simps [of t "c # s"])
    then show ?thesis using Cons.IH by simp
  qed
qed

fun join_texts :: "string \<Rightarrow> string list \<Rightarrow> string" where
  "join_texts sep [] = []"
| "join_texts sep [p] = p"
| "join_texts sep (p # q # r) = p @ sep @ join_texts sep (q # r)"

lemma join_Cons: "r \<noteq> [] \<Longrightarrow> join_texts sep (p # r) = p @ sep @ join_texts sep r"
  by (cases r) auto

lemma split_parts: "split_from sep s = Some r \<Longrightarrow> sep \<noteq> [] \<and> r \<noteq> [] \<and> join_texts sep r = s"
proof (erule split_from.raw_induct [where P = "\<lambda>sep s r. sep \<noteq> [] \<and> r \<noteq> [] \<and> join_texts sep r = s", rotated])
  fix rec sep s r
  assume ih: "\<And>sep s r. rec sep s = Some r \<Longrightarrow> sep \<noteq> [] \<and> r \<noteq> [] \<and> join_texts sep r = s"
    and body: "(case find_sub sep s of None \<Rightarrow> Some [s]
      | Some i \<Rightarrow> Option.bind (rec sep (drop (i + length sep) s)) (\<lambda>r. Some (take i s # r))) = Some r"
  show "sep \<noteq> [] \<and> r \<noteq> [] \<and> join_texts sep r = s"
  proof (cases "find_sub sep s")
    case None
    then have "sep \<noteq> []" by (auto simp: find_sub.simps [of "[]" s])
    then show ?thesis using body None by auto
  next
    case (Some i)
    obtain r' where r': "rec sep (drop (i + length sep) s) = Some r'" "r = take i s # r'"
      using body Some by (auto simp: Option.bind_eq_Some_conv)
    have "s = take i s @ sep @ drop (i + length sep) s"
      using find_sub_Some [OF Some] by (metis append_take_drop_id drop_drop add.commute)
    then show ?thesis using ih [OF r'(1)] r'(2) by (simp add: join_Cons)
  qed
qed

lemma split_returns: "sep \<noteq> [] \<Longrightarrow> \<exists>r. split_from sep s = Some r"
proof (induction s rule: measure_induct_rule [of length])
  case (less s)
  show ?case
  proof (cases "find_sub sep s")
    case (Some i)
    have "length (drop (i + length sep) s) < length s"
      using find_sub_Some [OF Some] less(2) by (cases sep) auto
    then obtain r where "split_from sep (drop (i + length sep) s) = Some r" using less by blast
    then show ?thesis using Some by (subst split_from.simps) simp
  qed (subst split_from.simps, simp)
qed

text \<open>C18: Splitting returns exactly when the separator is not empty, and joining the parts gives the text back.\<close>

theorem split_join:
  "(\<exists>r. split_text v sep = Some r \<and> join_texts sep r = v) \<longleftrightarrow> sep \<noteq> []"
  unfolding split_text_def using split_parts split_returns by metis

lemma normalize_path_ends: "normalize_path p = [] \<or> last (normalize_path p) = CHR ''/''"
  by (simp add: normalize_path_def Let_def)

lemma normalize_path_idem: "normalize_path (normalize_path p) = normalize_path p"
  by (auto simp: normalize_path_def Let_def comp_def if_distrib cong: if_cong)

text \<open>The compatibility of tags compares nothing but the number of parameters.\<close>

fun tag_digits :: "nat \<Rightarrow> nat" where
  "tag_digits t = (if t = 0 then 0 else Suc (tag_digits (t div 6)))"

declare tag_digits.simps [simp del]

text \<open>C16: Two tags are compatible exactly when they have the same number of digits: because the code
  compares \<open>a % 6\<close> with itself, the types of the parameters are never looked at.
\<close>

theorem compatible_counts: "is_parameter_tag_compatible a b \<longleftrightarrow> tag_digits a = tag_digits b"
proof (induction a b rule: is_parameter_tag_compatible.induct)
  case (1 a b)
  show ?case
  proof (cases "a = 0 \<or> b = 0")
    case True
    then show ?thesis
      by (auto simp: is_parameter_tag_compatible.simps [of a b] tag_digits.simps [of a] tag_digits.simps [of b])
  next
    case False
    then have "is_parameter_tag_compatible a b = is_parameter_tag_compatible (a div 6) (b div 6)"
      by (subst is_parameter_tag_compatible.simps) simp
    then show ?thesis using 1 False by (simp add: tag_digits.simps [of a] tag_digits.simps [of b])
  qed
qed

text \<open>C15: A tag computed from a route with at most 24 parameters stands for the argument types the
  route names, in the order of the text.
\<close>

theorem tag_arguments:
  assumes "get_parameter_tag s = Inr t" "length (declared_types s) \<le> 24"
  shows "arguments t = Some (declared_types s)"
  using tag_declares [OF assms] by simp

theorem tag_arguments_witness: "arguments 25 = Some [T_int64, T_string]"
proof -
  have t: "get_parameter_tag ''/item/<int>/by/<string>'' = Inr 25" by code_simp
  have "length (declared_types ''/item/<int>/by/<string>'') \<le> 24" by code_simp
  moreover have "declared_types ''/item/<int>/by/<string>'' = [T_int64, T_string]" by code_simp
  ultimately show ?thesis using tag_arguments [OF t] by simp
qed

end
