(* ===== verification/Trie.thy ===== *)
theory Trie
  imports Http Utility
begin

text \<open>
  The search tree of the router (\<open>crow/routing.h\<close>: \<open>Trie\<close>; \<open>crow/common.h\<close>: \<open>routing_params\<close>) and
  what it computes: looking a path up gives the smallest index of the rules that match the path,
  with the values of their parameters in order, whether the tree has been optimised or not.

  A position in the path is the suffix that starts there.
\<close>

subsection \<open>Numbers in a path: \<open>strtoll\<close>, \<open>strtoull\<close>, \<open>strtod\<close>\<close>

text \<open>
  The value and the rest of the text; \<^const>\<open>None\<close> when nothing is converted or \<open>errno\<close> is
  \<open>ERANGE\<close>. The caller has looked at the first character, so there is no white space to skip.
\<close>

definition strtoll :: "string \<Rightarrow> (int \<times> string) option" where
  "strtoll s =
     (case scan_sign s of (neg, u) \<Rightarrow>
        let ds = takeWhile is_digit u; v = (if neg then - int (dec_val ds) else int (dec_val ds))
        in if ds = [] \<or> v < i64_min \<or> i64_max < v then None else Some (v, dropWhile is_digit u))"

definition strtoull :: "string \<Rightarrow> (int \<times> string) option" where
  "strtoull s =
     (case scan_sign s of (neg, u) \<Rightarrow>
        let ds = takeWhile is_digit u; v = int (dec_val ds)
        in if ds = [] \<or> u64_max < v then None
           else Some (if neg then (- v) mod 2 ^ 64 else v, dropWhile is_digit u))"

text \<open>
  \<open>strtod\<close> also reads infinities, NaNs and hexadecimal numbers. Its range error is an infinite
  result of a finite number, or a result below the normal range that is not exact.
\<close>

definition in_range :: "bool \<Rightarrow> nat \<Rightarrow> nat \<Rightarrow> double option" where
  "in_range neg n d =
     (case double_of_frac neg n d of
        Fin s m e \<Rightarrow>
          if n \<noteq> 0 \<and> m < 2 ^ 52 \<and> m * d * 2 ^ nat e \<noteq> n * 2 ^ nat (- e) then None else Some (Fin s m e)
      | _ \<Rightarrow> None)"

text \<open>An exponent: a letter, a sign and digits; the text is left alone when there are no digits.\<close>

definition strtod_exp :: "char \<Rightarrow> string \<Rightarrow> int \<times> string" where
  "strtod_exp letter s =
     (if s = [] \<or> to_lower (hd s) \<noteq> letter then (0, s)
      else case scan_sign (tl s) of (neg, u) \<Rightarrow>
        let ds = takeWhile is_digit u
        in if ds = [] then (0, s)
           else (if neg then - int (dec_val ds) else int (dec_val ds), dropWhile is_digit u))"

definition is_xdigit :: "char \<Rightarrow> bool" where
  "is_xdigit c \<longleftrightarrow> is_digit c \<or> (65 \<le> byte c \<and> byte c \<le> 70) \<or> (97 \<le> byte c \<and> byte c \<le> 102)"

definition xdigit_val :: "char \<Rightarrow> nat" where
  "xdigit_val c = (if is_digit c then digit_val c else if byte c \<le> 70 then byte c - 55 else byte c - 87)"

definition hex_val :: "string \<Rightarrow> nat" where
  "hex_val s = fold (\<lambda>c a. 16 * a + xdigit_val c) s 0"

text \<open>Digits with at most one point: the digits, how many stand behind the point, the rest.\<close>

definition scan_point :: "(char \<Rightarrow> bool) \<Rightarrow> string \<Rightarrow> string \<times> nat \<times> string" where
  "scan_point dig s =
     (let ip = takeWhile dig s; r = dropWhile dig s
      in if r \<noteq> [] \<and> hd r = CHR ''.'' then
           (let fp = takeWhile dig (tl r)
            in if ip = [] \<and> fp = [] then ([], 0, s) else (ip @ fp, length fp, dropWhile dig (tl r)))
         else (ip, 0, r))"

definition scan_word :: "string \<Rightarrow> string \<Rightarrow> string option" where
  "scan_word w s = (if map to_lower (take (length w) s) = w then Some (drop (length w) s) else None)"

definition strtod_hex :: "bool \<Rightarrow> string \<Rightarrow> (double \<times> string) option option" where
  "strtod_hex neg u =
     (case scan_word ''0x'' u of
        None \<Rightarrow> None
      | Some r \<Rightarrow> (case scan_point is_xdigit r of (ds, f, r1) \<Rightarrow>
          if ds = [] then None
          else case strtod_exp (CHR ''p'') r1 of (e, r2) \<Rightarrow>
            let k = e - 4 * int f
            in Some (map_option (\<lambda>d. (d, r2)) (in_range neg (hex_val ds * 2 ^ nat k) (2 ^ nat (- k))))))"

definition strtod_dec :: "bool \<Rightarrow> string \<Rightarrow> (double \<times> string) option" where
  "strtod_dec neg u =
     (case scan_point is_digit u of (ds, f, r1) \<Rightarrow>
        if ds = [] then None
        else case strtod_exp (CHR ''e'') r1 of (e, r2) \<Rightarrow>
          let k = e - int f
          in map_option (\<lambda>d. (d, r2)) (in_range neg (dec_val ds * 10 ^ nat k) (10 ^ nat (- k))))"

text \<open>The optional character sequence of a NaN.\<close>

definition skip_nan_tag :: "string \<Rightarrow> string" where
  "skip_nan_tag s =
     (if s \<noteq> [] \<and> hd s = CHR ''('' then
        (let r = dropWhile (\<lambda>c. is_digit c \<or> (97 \<le> byte (to_lower c) \<and> byte (to_lower c) \<le> 122) \<or> c = CHR ''_'') (tl s)
         in if r \<noteq> [] \<and> hd r = CHR '')'' then tl r else s)
      else s)"

definition strtod :: "string \<Rightarrow> (double \<times> string) option" where
  "strtod s =
     (case scan_sign s of (neg, u) \<Rightarrow>
        (case scan_word ''infinity'' u of
           Some r \<Rightarrow> Some (Inf neg, r)
         | None \<Rightarrow> (case scan_word ''inf'' u of
             Some r \<Rightarrow> Some (Inf neg, r)
           | None \<Rightarrow> (case scan_word ''nan'' u of
               Some r \<Rightarrow> Some (NaN, skip_nan_tag r)
             | None \<Rightarrow> (case strtod_hex neg u of Some r \<Rightarrow> r | None \<Rightarrow> strtod_dec neg u)))))"

subsection \<open>Parameters\<close>

datatype param_type = P_INT | P_UINT | P_DOUBLE | P_STRING | P_PATH

record routing_params =
  int_params :: "int list"
  uint_params :: "int list"
  double_params :: "double list"
  string_params :: "string list"

definition no_params :: routing_params where
  "no_params = \<lparr>int_params = [], uint_params = [], double_params = [], string_params = []\<rparr>"

datatype route_arg = Arg_int int | Arg_uint int | Arg_double double | Arg_string string

fun push_param :: "route_arg \<Rightarrow> routing_params \<Rightarrow> routing_params" where
  "push_param (Arg_int v) p = p\<lparr>int_params := int_params p @ [v]\<rparr>"
| "push_param (Arg_uint v) p = p\<lparr>uint_params := uint_params p @ [v]\<rparr>"
| "push_param (Arg_double v) p = p\<lparr>double_params := double_params p @ [v]\<rparr>"
| "push_param (Arg_string v) p = p\<lparr>string_params := string_params p @ [v]\<rparr>"

text \<open>What a parameter node takes from the front of the (non-empty) rest of the path.\<close>

fun take_param :: "param_type \<Rightarrow> string \<Rightarrow> (route_arg \<times> string) option" where
  "take_param P_INT s =
     (if s \<noteq> [] \<and> (is_digit (hd s) \<or> hd s = CHR ''+'' \<or> hd s = CHR ''-'') then
        map_option (\<lambda>(v, r). (Arg_int v, r)) (strtoll s) else None)"
| "take_param P_UINT s =
     (if s \<noteq> [] \<and> (is_digit (hd s) \<or> hd s = CHR ''+'') then
        map_option (\<lambda>(v, r). (Arg_uint v, r)) (strtoull s) else None)"
| "take_param P_DOUBLE s =
     (if s \<noteq> [] \<and> (is_digit (hd s) \<or> hd s = CHR ''+'' \<or> hd s = CHR ''-'' \<or> hd s = CHR ''.'') then
        map_option (\<lambda>(v, r). (Arg_double v, r)) (strtod s) else None)"
| "take_param P_STRING s =
     (let t = takeWhile (\<lambda>c. c \<noteq> CHR ''/'') s
      in if t \<noteq> [] then Some (Arg_string t, drop (length t) s) else None)"
| "take_param P_PATH s = (if s \<noteq> [] then Some (Arg_string s, []) else None)"

subsection \<open>Nodes\<close>

text \<open>
  A node: its rule index (0 for none), its blueprint index, its key, its parameter kind (none for
  \<open>ParamType::MAX\<close>) and its children.
\<close>

datatype node =
  Node (rule_index: nat) (blueprint_index: "nat option") (key: string) (param: "param_type option") (children: "node list")

definition new_node :: node where
  "new_node = Node 0 None [] None []"

definition is_simple_node :: "node \<Rightarrow> bool" where
  "is_simple_node n \<longleftrightarrow>
     rule_index n = 0 \<and> blueprint_index n = None \<and> length (children n) < 2 \<and> param n = None
     \<and> list_all (\<lambda>x. param x = None) (children n)"

definition trie_is_empty :: "node \<Rightarrow> bool" where
  "trie_is_empty head = (children head = [])"

function (sequential) optimize_node :: "node \<Rightarrow> node" where
  "optimize_node (Node ri bp k p []) = Node ri bp k p []"
| "optimize_node (Node ri bp k p (c # cs)) =
     (if is_simple_node (Node ri bp k p (c # cs))
      then optimize_node (Node (rule_index c) (blueprint_index c) (k @ key c) p (children c))
      else Node ri bp k p (map optimize_node (c # cs)))"
  by pat_completeness auto
termination
proof (relation "measure size", goal_cases)
  case (2 ri bp k p c cs)
  then show ?case by (cases c) simp
next
  case (3 ri bp k p c cs x)
  then show ?case by (auto dest: size_list_estimation' [where f = size, OF _ order_refl])
qed simp

definition trie_optimize :: "node \<Rightarrow> node" where
  "trie_optimize h = Node (rule_index h) (blueprint_index h) (key h) (param h) (map optimize_node (children h))"

definition trie_validate :: "node \<Rightarrow> node res" where
  "trie_validate h =
     (if \<not> is_simple_node h then Inl ''Internal error: Trie header should be simple!'' else Inr (trie_optimize h))"

subsection \<open>Lookup\<close>

record routing_handle_result =
  found_rule :: nat
  blueprint_indices :: "nat list"
  r_params :: routing_params

text \<open>\<open>update_found\<close>.\<close>

definition update_found :: "routing_handle_result \<Rightarrow> routing_handle_result \<Rightarrow> routing_handle_result" where
  "update_found acc ret =
     (let acc' = acc\<lparr>blueprint_indices := blueprint_indices ret\<rparr>
      in if found_rule ret \<noteq> 0 \<and> (found_rule acc = 0 \<or> found_rule ret < found_rule acc)
         then acc'\<lparr>found_rule := found_rule ret, r_params := r_params ret\<rparr> else acc')"

text \<open>What a child takes from the path: its parameter, or its key.\<close>

definition take_child :: "node \<Rightarrow> string \<Rightarrow> (route_arg option \<times> string) option" where
  "take_child c s =
     (case param c of
        Some t \<Rightarrow> map_option (\<lambda>(a, r). (Some a, r)) (take_param t s)
      | None \<Rightarrow> if take (length (key c)) s = key c then Some (None, drop (length (key c)) s) else None)"

definition pop_if_any :: "'a list \<Rightarrow> 'a list" where
  "pop_if_any xs = (if xs \<noteq> [] then butlast xs else [])"

definition push_bp :: "node \<Rightarrow> nat list \<Rightarrow> nat list" where
  "push_bp c bps = (case blueprint_index c of None \<Rightarrow> bps | Some b \<Rightarrow> bps @ [b])"

text \<open>
  \<open>find\<close> on a node. The vector of blueprint indices is shared by the whole recursion, so it is a
  state: each visited child pops an element, pushed by it or not, and a moved-from vector is
  empty. The parameters pushed for a child are popped after it.
\<close>

fun find_node :: "string \<Rightarrow> routing_params \<Rightarrow> nat list \<Rightarrow> node \<Rightarrow> routing_handle_result \<times> nat list"
  and find_children :: "string \<Rightarrow> routing_params \<Rightarrow> nat list \<Rightarrow> node list \<Rightarrow> routing_handle_result \<Rightarrow> bool
    \<Rightarrow> routing_handle_result \<times> bool \<times> nat list" where
  "find_node s ps bps (Node ri bp k p cs) =
     (if s = [] then (\<lparr>found_rule = ri, blueprint_indices = [], r_params = ps\<rparr>, [])
      else case find_children s ps bps cs \<lparr>found_rule = 0, blueprint_indices = [], r_params = no_params\<rparr> False of
        (acc, found_fragment, bps') \<Rightarrow>
          if found_fragment then (acc, bps') else (acc\<lparr>blueprint_indices := bps'\<rparr>, []))"
| "find_children s ps bps [] acc fragment = (acc, fragment, bps)"
| "find_children s ps bps (c # cs) acc fragment =
     (case take_child c s of
        None \<Rightarrow> find_children s ps bps cs acc fragment
      | Some (arg, rest) \<Rightarrow>
          (let ps' = (case arg of None \<Rightarrow> ps | Some a \<Rightarrow> push_param a ps) in
           case find_node rest ps' (push_bp c bps) c of
             (ret, bps') \<Rightarrow> find_children s ps (pop_if_any bps') cs (update_found acc ret) True))"

definition trie_find :: "node \<Rightarrow> string \<Rightarrow> routing_handle_result" where
  "trie_find head req_url = fst (find_node req_url no_params [] head)"

subsection \<open>Insertion\<close>

definition param_traits :: "(string \<times> param_type) list" where
  "param_traits =
     [(''<int>'', P_INT), (''<uint>'', P_UINT), (''<float>'', P_DOUBLE), (''<double>'', P_DOUBLE),
      (''<str>'', P_STRING), (''<string>'', P_STRING), (''<path>'', P_PATH)]"

fun match_trait :: "(string \<times> param_type) list \<Rightarrow> string \<Rightarrow> (param_type \<times> string) option" where
  "match_trait [] s = None"
| "match_trait ((name, ty) # ts) s =
     (if take (length name) s = name then Some (ty, drop (length name) s) else match_trait ts s)"

lemma match_trait_shorter:
  "match_trait ts s = Some (ty, r) \<Longrightarrow> \<forall>(n, t) \<in> set ts. n \<noteq> [] \<Longrightarrow> length r < length s"
proof (induction ts s rule: match_trait.induct)
  case (2 name t ts s)
  show ?case
  proof (cases "take (length name) s = name")
    case True
    have "length name \<le> length s" using arg_cong [OF True, of length] by simp
    then show ?thesis using 2 True by (cases name) auto
  qed (use 2 in auto)
qed simp

lemma param_trait_shorter: "match_trait param_traits s = Some (ty, r) \<Longrightarrow> length r < length s"
  by (erule match_trait_shorter) (simp add: param_traits_def)

text \<open>
  The result: the changed node, the exception for a path that has a rule already, or no end: at a
  \<open><\<close> that starts no known parameter the loop does not advance.
\<close>

datatype 'a add_result = Added 'a | Already | Diverges

definition map_added :: "('a \<Rightarrow> 'b) \<Rightarrow> 'a add_result \<Rightarrow> 'b add_result" where
  "map_added f r = (case r of Added x \<Rightarrow> Added (f x) | Already \<Rightarrow> Already | Diverges \<Rightarrow> Diverges)"

text \<open>The character \<open>key[0]\<close>; the string of a parameter node is empty and has a NUL there.\<close>

definition key_char :: "node \<Rightarrow> char" where
  "key_char n = (case key n of [] \<Rightarrow> nul | c # _ \<Rightarrow> c)"

text \<open>The first child with a property is replaced, or a new child goes to the end.\<close>

definition child_index :: "(node \<Rightarrow> bool) \<Rightarrow> node \<Rightarrow> nat" where
  "child_index P n = length (takeWhile (\<lambda>c. \<not> P c) (children n))"

definition child_or_new :: "(node \<Rightarrow> bool) \<Rightarrow> node \<Rightarrow> node \<Rightarrow> node" where
  "child_or_new P fresh n = (if child_index P n < length (children n) then children n ! child_index P n else fresh)"

definition put_child :: "(node \<Rightarrow> bool) \<Rightarrow> node \<Rightarrow> node \<Rightarrow> node" where
  "put_child P n c =
     Node (rule_index n) (blueprint_index n) (key n) (param n)
       (if child_index P n < length (children n) then (children n)[child_index P n := c] else children n @ [c])"

text \<open>The loop over the text of the rule; \<open>i\<close> is the position, which only the blueprint looks at.\<close>

function add_at :: "nat \<Rightarrow> (nat \<times> nat) option \<Rightarrow> nat \<Rightarrow> string \<Rightarrow> node \<Rightarrow> node add_result" where
  "add_at rule bp i [] n =
     (if rule_index n \<noteq> 0 then Already
      else Added (Node rule (blueprint_index n) (key n) (param n) (children n)))"
| "add_at rule bp i (c # s) n =
     (if c = CHR ''<'' then
        (case match_trait param_traits (c # s) of
           None \<Rightarrow> Diverges
         | Some (ty, r) \<Rightarrow>
             (let P = (\<lambda>x. param x = Some ty) in
              map_added (put_child P n)
                (add_at rule bp (i + (length (c # s) - length r)) r (child_or_new P (Node 0 None [] (Some ty) []) n))))
      else
        (let P = (\<lambda>x. key_char x = c);
             fresh = Node 0 (case bp of Some (len, b) \<Rightarrow> if i = len then Some b else None | None \<Rightarrow> None) [c] None []
         in map_added (put_child P n) (add_at rule bp (i + 1) s (child_or_new P fresh n))))"
  by pat_completeness auto
termination
  by (relation "measure (\<lambda>(rule, bp, i, s, n). length s)") (auto dest: param_trait_shorter)

text \<open>\<open>Trie::add\<close>; a blueprint counts when its prefix is not empty and its index is valid.\<close>

definition trie_add :: "string \<Rightarrow> nat \<Rightarrow> nat \<Rightarrow> nat option \<Rightarrow> node \<Rightarrow> node add_result" where
  "trie_add u rule bp_prefix_length bp head =
     add_at (rule mod 2 ^ 16)
       (case bp of Some b \<Rightarrow> if bp_prefix_length \<noteq> 0 then Some (bp_prefix_length, b) else None | None \<Rightarrow> None) 0 u head"

subsection \<open>The rules a tree holds, and matching a path against a rule\<close>

datatype tok = Chr char | Par param_type

definition step_of :: "node \<Rightarrow> tok list" where
  "step_of c = (case param c of Some t \<Rightarrow> [Par t] | None \<Rightarrow> map Chr (key c))"

fun paths :: "node \<Rightarrow> (tok list \<times> nat) list" where
  "paths (Node ri bp k p cs) =
     (if ri \<noteq> 0 then [([], ri)] else []) @ concat (map (\<lambda>c. map (\<lambda>(q, r). (step_of c @ q, r)) (paths c)) cs)"

definition child_paths :: "node \<Rightarrow> (tok list \<times> nat) list" where
  "child_paths c = map (\<lambda>(q, r). (step_of c @ q, r)) (paths c)"

lemma paths_children:
  "paths n = (if rule_index n \<noteq> 0 then [([], rule_index n)] else []) @ concat (map child_paths (children n))"
  by (cases n) (simp add: child_paths_def [abs_def])

fun match_toks :: "tok list \<Rightarrow> string \<Rightarrow> route_arg list option" where
  "match_toks [] s = (if s = [] then Some [] else None)"
| "match_toks (Chr a # q) s = (case s of [] \<Rightarrow> None | c # r \<Rightarrow> if c = a then match_toks q r else None)"
| "match_toks (Par t # q) s =
     (case take_param t s of None \<Rightarrow> None | Some (a, r) \<Rightarrow> map_option ((#) a) (match_toks q r))"

definition hits :: "string \<Rightarrow> routing_params \<Rightarrow> (tok list \<times> nat) list \<Rightarrow> (nat \<times> routing_params) list" where
  "hits s ps l =
     concat (map (\<lambda>(q, r). case match_toks q s of None \<Rightarrow> [] | Some args \<Rightarrow> [(r, fold push_param args ps)]) l)"

text \<open>The hit with the smallest index, the first one among equals.\<close>

definition pick :: "nat \<times> routing_params \<Rightarrow> nat \<times> routing_params \<Rightarrow> nat \<times> routing_params" where
  "pick acc ret = (if fst ret \<noteq> 0 \<and> (fst acc = 0 \<or> fst ret < fst acc) then ret else acc)"

definition best :: "(nat \<times> routing_params) list \<Rightarrow> nat \<times> routing_params" where
  "best l = foldl pick (0, no_params) l"

definition outcome :: "routing_handle_result \<Rightarrow> nat \<times> routing_params" where
  "outcome r = (if found_rule r = 0 then (0, no_params) else (found_rule r, r_params r))"

lemma pick_assoc: "pick (pick a b) c = pick a (pick b c)"
  by (auto simp: pick_def)

lemma foldl_pick: "fst a \<noteq> 0 \<or> a = (0, no_params) \<Longrightarrow> foldl pick a l = pick a (best l)"
proof (induction l rule: rev_induct)
  case Nil
  then show ?case by (simp add: best_def pick_def)
next
  case (snoc x l)
  then show ?case by (simp add: best_def pick_assoc)
qed

lemma best_nonzero: "fst (best l) \<noteq> 0 \<or> best l = (0, no_params)"
  unfolding best_def by (induction l rule: rev_induct) (auto simp: pick_def)

lemma best_append: "best (l @ m) = pick (best l) (best m)"
  using foldl_pick [OF best_nonzero, of l m] by (simp add: best_def)

lemma hits_append: "hits s ps (l @ m) = hits s ps l @ hits s ps m"
  by (simp add: hits_def)

lemma hits_Nil [simp]: "hits s ps [] = []"
  by (simp add: hits_def)

text \<open>A tree whose literal nodes have a key: each visited child shortens the path.\<close>

fun keys_ok :: "node \<Rightarrow> bool" where
  "keys_ok (Node ri bp k p cs) \<longleftrightarrow> list_all (\<lambda>c. (param c = None \<longrightarrow> key c \<noteq> []) \<and> keys_ok c) cs"

lemma take_param_Nil [simp]: "take_param t [] = None"
  by (cases t) (simp_all add: Let_def)

lemma match_literal: "match_toks (map Chr k @ q) s = (if take (length k) s = k then match_toks q (drop (length k) s) else None)"
  by (induction k arbitrary: s) (auto split: list.split)

lemma match_child:
  "match_toks (step_of c @ q) s =
     (case take_child c s of
        None \<Rightarrow> None
      | Some (arg, rest) \<Rightarrow> map_option (\<lambda>l. (case arg of None \<Rightarrow> l | Some a \<Rightarrow> a # l)) (match_toks q rest))"
  by (auto simp: step_of_def take_child_def match_literal option.map_ident split: option.splits)

lemma hits_child:
  "hits s ps (child_paths c) =
     (case take_child c s of
        None \<Rightarrow> []
      | Some (arg, rest) \<Rightarrow> hits rest (case arg of None \<Rightarrow> ps | Some a \<Rightarrow> push_param a ps) (paths c))"
proof -
  have "hits s ps (map (\<lambda>(q, r). (step_of c @ q, r)) l) =
     (case take_child c s of
        None \<Rightarrow> []
      | Some (arg, rest) \<Rightarrow> hits rest (case arg of None \<Rightarrow> ps | Some a \<Rightarrow> push_param a ps) l)" for l
    by (induction l) (auto simp: hits_def match_child split: option.splits prod.splits)
  then show ?thesis by (simp add: child_paths_def)
qed

lemma no_hits_at_end: "(param c = None \<longrightarrow> key c \<noteq> []) \<Longrightarrow> hits [] ps (child_paths c) = []"
  by (auto simp: hits_child take_child_def split: option.splits)

lemma outcome_update:
  "found_rule acc \<noteq> 0 \<or> r_params acc = no_params \<Longrightarrow>
   outcome (update_found acc ret) = pick (outcome acc) (outcome ret)
   \<and> (found_rule (update_found acc ret) \<noteq> 0 \<or> r_params (update_found acc ret) = no_params)"
  by (auto simp: outcome_def update_found_def pick_def Let_def)

lemma outcome_bps [simp]: "outcome (acc\<lparr>blueprint_indices := b\<rparr>) = outcome acc"
  by (simp add: outcome_def)

lemma find_hits:
  shows "keys_ok n \<Longrightarrow> outcome (fst (find_node s ps bps n)) = best (hits s ps (paths n))"
    and "list_all (\<lambda>c. (param c = None \<longrightarrow> key c \<noteq> []) \<and> keys_ok c) cs \<Longrightarrow>
      found_rule acc \<noteq> 0 \<or> r_params acc = no_params \<Longrightarrow>
      outcome (fst (find_children s ps bps cs acc fragment))
        = pick (outcome acc) (best (hits s ps (concat (map child_paths cs))))"
proof (induction s ps bps n and s ps bps cs acc fragment rule: find_node_find_children.induct)
  case (1 s ps bps ri bp k p cs)
  have own: "hits s ps (if ri \<noteq> 0 then [([], ri)] else []) = (if s = [] \<and> ri \<noteq> 0 then [(ri, ps)] else [])"
    by (simp add: hits_def)
  show ?case
  proof (cases "s = []")
    case True
    have "hits [] ps (concat (map child_paths cs)) = []"
      using 1(2) by (induction cs) (auto simp: hits_append no_hits_at_end)
    then show ?thesis using own True
      by (simp add: paths_children hits_append best_append) (simp add: outcome_def best_def pick_def hits_def)
  next
    case False
    have z: "outcome \<lparr>found_rule = 0, blueprint_indices = [], r_params = no_params\<rparr> = (0, no_params)"
      by (simp add: outcome_def)
    have "pick (0, no_params) (best l) = best l" for l
      using best_nonzero [of l] by (auto simp: pick_def)
    moreover have "hits s ps (paths (Node ri bp k p cs)) = hits s ps (concat (map child_paths cs))"
      using own False by (simp only: paths_children hits_append node.sel) simp
    moreover obtain acc ff b where "find_children s ps bps cs
        \<lparr>found_rule = 0, blueprint_indices = [], r_params = no_params\<rparr> False = (acc, ff, b)"
      by (metis prod_cases3)
    ultimately show ?thesis using 1(1) [OF False] 1(2) False
      by (cases ff) (simp_all add: z del: paths.simps)
  qed
next
  case (2 s ps bps acc fragment)
  show ?case by (simp add: best_def pick_def)
next
  case (3 s ps bps c cs acc fragment)
  show ?case
  proof (cases "take_child c s")
    case None
    then show ?thesis using 3(1,4,5) by (simp add: hits_append hits_child)
  next
    case (Some ar)
    obtain arg rest where ar: "ar = (arg, rest)" by force
    let ?ps = "case arg of None \<Rightarrow> ps | Some a \<Rightarrow> push_param a ps"
    obtain ret bps' where r: "find_node rest ?ps (push_bp c bps) c = (ret, bps')" by force
    have o: "outcome ret = best (hits rest ?ps (paths c))"
      using 3(2) [OF Some ar [symmetric] refl] 3(4) r by simp
    have u: "outcome (update_found acc ret) = pick (outcome acc) (outcome ret)"
      "found_rule (update_found acc ret) \<noteq> 0 \<or> r_params (update_found acc ret) = no_params"
      using outcome_update [OF 3(5)] by simp_all
    have "outcome (fst (find_children s ps bps (c # cs) acc fragment))
      = pick (outcome (update_found acc ret)) (best (hits s ps (concat (map child_paths cs))))"
      using 3(3) [OF Some ar [symmetric] refl r [symmetric]] u(2) 3(4) by (simp add: Some ar r)
    then show ?thesis by (simp add: u(1) o hits_append hits_child best_append Some ar pick_assoc)
  qed
qed

text \<open>Lookup finds the smallest index of the rules whose tokens match the whole path.\<close>

lemma trie_find_best: "keys_ok t \<Longrightarrow> outcome (trie_find t s) = best (hits s no_params (paths t))"
  by (simp add: trie_find_def find_hits)

subsection \<open>Optimising keeps the rules\<close>

lemma optimize_node_step: "child_paths (optimize_node n) = child_paths n"
proof (induction n rule: optimize_node.induct)
  case (2 ri bp k p c cs)
  show ?case
  proof (cases "is_simple_node (Node ri bp k p (c # cs))")
    case True
    then have t: "ri = 0" "cs = []" "p = None" "param c = None" by (simp_all add: is_simple_node_def)
    have "paths (Node (rule_index c) (blueprint_index c) (k @ key c) p (children c)) = paths c"
      by (simp only: paths_children node.sel)
    then have "child_paths (Node ri bp k p (c # cs)) = child_paths (Node (rule_index c) (blueprint_index c) (k @ key c) p (children c))"
      by (simp add: child_paths_def step_of_def t comp_def case_prod_unfold del: paths.simps)
        (simp add: step_of_def t case_prod_unfold)
    then show ?thesis using 2(1) [OF True] True by simp
  next
    case False
    have "map (child_paths \<circ> optimize_node) (c # cs) = map child_paths (c # cs)"
      unfolding map_eq_conv using 2(2) [OF False] by simp
    then have "paths (optimize_node (Node ri bp k p (c # cs))) = paths (Node ri bp k p (c # cs))"
      using False by (simp add: paths_children [of "Node _ _ _ _ _"] map_map [symmetric] del: paths.simps map_map)
    moreover have "step_of (optimize_node (Node ri bp k p (c # cs))) = step_of (Node ri bp k p (c # cs))"
      using False by (cases p) (simp_all add: step_of_def)
    ultimately show ?thesis by (simp only: child_paths_def)
  qed
qed simp

lemma optimize_keeps_rules: "paths (trie_optimize h) = paths h"
  by (simp add: paths_children trie_optimize_def optimize_node_step comp_def)

lemma keys_ok_children: "keys_ok n \<longleftrightarrow> list_all (\<lambda>c. (param c = None \<longrightarrow> key c \<noteq> []) \<and> keys_ok c) (children n)"
  by (cases n) simp

lemma optimize_node_keys:
  "keys_ok n \<Longrightarrow> keys_ok (optimize_node n) \<and> param (optimize_node n) = param n \<and> (key n \<noteq> [] \<longrightarrow> key (optimize_node n) \<noteq> [])"
proof (induction n rule: optimize_node.induct)
  case (2 ri bp k p c cs)
  show ?case
  proof (cases "is_simple_node (Node ri bp k p (c # cs))")
    case True
    have "keys_ok c" using 2(3) by simp
    then show ?thesis using 2(1) [OF True] True by (simp add: keys_ok_children [of c])
  next
    case False
    have "\<forall>x \<in> set (c # cs). (param (optimize_node x) = None \<longrightarrow> key (optimize_node x) \<noteq> []) \<and> keys_ok (optimize_node x)"
    proof
      fix x assume x: "x \<in> set (c # cs)"
      then have "keys_ok x" "param x = None \<longrightarrow> key x \<noteq> []" using 2(3) by (auto simp: list_all_iff)
      then show "(param (optimize_node x) = None \<longrightarrow> key (optimize_node x) \<noteq> []) \<and> keys_ok (optimize_node x)"
        using 2(2) [OF False x] by auto
    qed
    then show ?thesis using False by (simp add: list_all_iff)
  qed
qed simp

lemma optimize_keys: "keys_ok h \<Longrightarrow> keys_ok (trie_optimize h)"
  unfolding trie_optimize_def keys_ok_children [of h]
  by (auto simp: list_all_iff optimize_node_keys)

text \<open>C12: Optimising a tree changes neither which rule a path finds nor its parameters.\<close>

theorem optimized_lookup:
  assumes "keys_ok h"
  shows "outcome (trie_find (trie_optimize h) req_url) = outcome (trie_find h req_url)"
  using assms by (simp add: trie_find_best optimize_keys optimize_keeps_rules)

definition demo_tree :: node where
  "demo_tree = Node 0 None [] None [Node 0 None ''/'' None [Node 0 None ''a'' None [Node 3 None ''b'' None []], Node 4 None [] (Some P_INT) []]]"

theorem optimized_lookup_witness:
  "outcome (trie_find (trie_optimize demo_tree) ''/ab'') = outcome (trie_find demo_tree ''/ab'')
   \<and> trie_optimize demo_tree \<noteq> demo_tree"
proof -
  have "keys_ok demo_tree" "trie_optimize demo_tree \<noteq> demo_tree" by code_simp+
  then show ?thesis using optimized_lookup [of demo_tree "''/ab''"] by blast
qed

subsection \<open>Insertion adds exactly the rule\<close>

function rule_toks :: "string \<Rightarrow> tok list option" where
  "rule_toks [] = Some []"
| "rule_toks (c # s) =
     (if c = CHR ''<'' then
        (case match_trait param_traits (c # s) of
           None \<Rightarrow> None
         | Some (ty, r) \<Rightarrow> map_option ((#) (Par ty)) (rule_toks r))
      else map_option ((#) (Chr c)) (rule_toks s))"
  by pat_completeness auto
termination
  by (relation "measure length") (auto dest: param_trait_shorter)

text \<open>A tree before it is optimised: keys of one character, no two children alike.\<close>

definition child_ok :: "node \<Rightarrow> bool" where
  "child_ok c = (case param c of Some t \<Rightarrow> key c = [] | None \<Rightarrow> length (key c) = 1 \<and> key c \<noteq> [nul])"

fun raw :: "node \<Rightarrow> bool" where
  "raw (Node ri bp k p cs) \<longleftrightarrow> distinct (map step_of cs) \<and> list_all (\<lambda>c. child_ok c \<and> raw c) cs"

lemma raw_children: "raw n \<longleftrightarrow> distinct (map step_of (children n)) \<and> list_all (\<lambda>c. child_ok c \<and> raw c) (children n)"
  by (cases n) simp

lemma raw_keys_ok: "raw n \<Longrightarrow> keys_ok n"
  by (induction n) (auto simp: list_all_iff child_ok_def)

text \<open>Replacing the child with a given step, or adding one.\<close>

lemma child_split:
  obtains (old) xs c ys where "children n = xs @ c # ys" "P c" "child_or_new P f n = c"
    "\<And>c'. put_child P n c' = Node (rule_index n) (blueprint_index n) (key n) (param n) (xs @ c' # ys)"
  | (fresh) "\<forall>c \<in> set (children n). \<not> P c" "child_or_new P f n = f"
    "\<And>c'. put_child P n c' = Node (rule_index n) (blueprint_index n) (key n) (param n) (children n @ [c'])"
proof (cases "child_index P n < length (children n)")
  case True
  let ?i = "child_index P n"
  have c: "children n = take ?i (children n) @ children n ! ?i # drop (Suc ?i) (children n)"
    by (rule id_take_nth_drop [OF True])
  have "\<not> \<not> P (children n ! ?i)"
    using True nth_length_takeWhile [of "\<lambda>c. \<not> P c" "children n"] by (simp add: child_index_def)
  then show ?thesis
    using old [OF c] True by (simp add: child_or_new_def put_child_def upd_conv_take_nth_drop)
next
  case False
  then have "length (takeWhile (\<lambda>c. \<not> P c) (children n)) = length (children n)"
    using length_takeWhile_le [of "\<lambda>c. \<not> P c" "children n"] by (simp add: child_index_def)
  then have "takeWhile (\<lambda>c. \<not> P c) (children n) = children n"
    by (metis append_Nil2 append_eq_conv_conj takeWhile_eq_take take_all_iff order_refl)
  then have "\<forall>c \<in> set (children n). \<not> P c" by (simp add: takeWhile_eq_all_conv)
  then show ?thesis using fresh False by (simp add: child_or_new_def put_child_def)
qed

lemma child_paths_starts: "child_ok c \<Longrightarrow> (q, r) \<in> set (child_paths c) \<Longrightarrow> \<exists>q'. q = step_of c @ q' \<and> (q', r) \<in> set (paths c)"
  by (auto simp: child_paths_def)

lemma step_singleton: "child_ok c \<Longrightarrow> \<exists>t. step_of c = [t]"
  by (auto simp: child_ok_def step_of_def length_Suc_conv split: option.splits)

text \<open>The rules behind a child, seen from its parent.\<close>

lemma tail_rules:
  assumes "distinct (map step_of cs)" "list_all (\<lambda>c. child_ok c \<and> raw c) cs" "c \<in> set cs" "step_of c = [t]"
  shows "(t # q, r) \<in> set (concat (map child_paths cs)) \<longleftrightarrow> (q, r) \<in> set (paths c)"
proof
  assume "(t # q, r) \<in> set (concat (map child_paths cs))"
  then obtain d where d: "d \<in> set cs" "(t # q, r) \<in> set (child_paths d)" by auto
  then obtain u where "step_of d = [u]" using assms(2) step_singleton by (auto simp: list_all_iff)
  with d(2) have "step_of d = step_of c" "(q, r) \<in> set (paths d)" using assms(4) by (auto simp: child_paths_def)
  moreover have "d = c" using assms(1,3) d(1) calculation(1) by (auto simp: distinct_map dest: inj_onD)
  ultimately show "(q, r) \<in> set (paths c)" by simp
next
  assume "(q, r) \<in> set (paths c)"
  then show "(t # q, r) \<in> set (concat (map child_paths cs))"
    using assms(3,4) by (force simp: child_paths_def)
qed

definition adds :: "nat \<Rightarrow> tok list \<Rightarrow> node \<Rightarrow> node add_result \<Rightarrow> bool" where
  "adds rule q n res \<longleftrightarrow>
     (if q \<in> fst ` set (paths n) then res = Already
      else \<exists>n'. res = Added n' \<and> set (paths n') = insert (q, rule) (set (paths n)) \<and> raw n'
        \<and> key n' = key n \<and> param n' = param n)"

lemma step_of_eq: "key c = key d \<Longrightarrow> param c = param d \<Longrightarrow> step_of c = step_of d \<and> child_ok c = child_ok d"
  by (cases "param d") (simp_all add: step_of_def child_ok_def)

lemma cons_in_paths:
  "(t # q \<in> fst ` set (paths n)) = (\<exists>r. (t # q, r) \<in> set (concat (map child_paths (children n))))"
  unfolding paths_children [of n] by (force simp: image_iff)

lemma adds_step:
  assumes raw: "raw n" and P: "\<forall>c \<in> set (children n). P c \<longleftrightarrow> step_of c = [t]"
    and f: "child_ok f" "raw f" "step_of f = [t]" "paths f = []"
    and sub: "adds rule q (child_or_new P f n) res"
  shows "adds rule (t # q) n (map_added (put_child P n) res)"
proof (cases rule: child_split [of n P f])
  case (old xs c ys)
  have c: "c \<in> set (children n)" using old(1) by simp
  have st: "step_of c = [t]" using P c old(2) by simp
  have d: "distinct (map step_of (children n))" and ok: "list_all (\<lambda>c. child_ok c \<and> raw c) (children n)"
    using raw unfolding raw_children [of n] by blast+
  have mem: "t # q \<in> fst ` set (paths n) \<longleftrightarrow> q \<in> fst ` set (paths c)"
    unfolding cons_in_paths tail_rules [OF d ok c st] by force
  show ?thesis
  proof (cases "q \<in> fst ` set (paths c)")
    case True
    then show ?thesis using sub mem unfolding adds_def old(3) by (simp add: map_added_def)
  next
    case False
    then obtain c' where c': "res = Added c'" "set (paths c') = insert (q, rule) (set (paths c))" "raw c'"
        "key c' = key c" "param c' = param c"
      using sub unfolding adds_def old(3) by auto
    have st': "step_of c' = step_of c" "child_ok c' = child_ok c" using step_of_eq [OF c'(4,5)] by auto
    have cp: "set (child_paths c') = insert (t # q, rule) (set (child_paths c))"
      using c'(2) st st' by (auto simp: child_paths_def)
    let ?n = "put_child P n c'"
    have ch: "children ?n = xs @ c' # ys" "rule_index ?n = rule_index n" "key ?n = key n" "param ?n = param n"
      by (simp_all add: old(4))
    have "set (paths ?n) = insert (t # q, rule) (set (paths n))"
      unfolding paths_children [of ?n] paths_children [of n] ch old(1) using cp by auto
    moreover have "raw ?n"
      using d ok c'(3) st' unfolding raw_children [of ?n] ch old(1) by auto
    ultimately show ?thesis using False mem ch c'(1) by (simp add: adds_def map_added_def)
  qed
next
  case fresh
  obtain c' where c': "res = Added c'" "set (paths c') = {(q, rule)}" "raw c'" "key c' = key f" "param c' = param f"
    using sub unfolding adds_def fresh(2) f(4) by auto
  have st': "step_of c' = [t]" "child_ok c'" using step_of_eq [OF c'(4,5)] f by auto
  have no: "\<forall>c \<in> set (children n). step_of c \<noteq> [t]" using fresh(1) P by simp
  have d: "distinct (map step_of (children n))" and ok: "list_all (\<lambda>c. child_ok c \<and> raw c) (children n)"
    using raw unfolding raw_children [of n] by blast+
  have mem: "t # q \<notin> fst ` set (paths n)"
  proof
    assume "t # q \<in> fst ` set (paths n)"
    then obtain r c where c: "c \<in> set (children n)" "(t # q, r) \<in> set (child_paths c)"
      unfolding cons_in_paths by auto
    obtain u where u: "step_of c = [u]" using ok c(1) step_singleton by (auto simp: list_all_iff)
    then have "u = t" using c(2) by (auto simp: child_paths_def)
    then show False using no c(1) u by simp
  qed
  let ?n = "put_child P n c'"
  have ch: "children ?n = children n @ [c']" "rule_index ?n = rule_index n" "key ?n = key n" "param ?n = param n"
    by (simp_all add: fresh(3))
  have "set (child_paths c') = {(t # q, rule)}" using c'(2) st' by (simp add: child_paths_def)
  then have "set (paths ?n) = insert (t # q, rule) (set (paths n))"
    unfolding paths_children [of ?n] paths_children [of n] ch by auto
  moreover have "raw ?n"
    using d ok c'(3) st' no unfolding raw_children [of ?n] ch by auto
  ultimately show ?thesis using mem ch c'(1) by (simp add: adds_def map_added_def)
qed

lemma child_or_new_cases: "child_or_new P f n = f \<or> child_or_new P f n \<in> set (children n)"
  by (simp add: child_or_new_def)

lemma key_char_step: "child_ok c \<Longrightarrow> a \<noteq> nul \<Longrightarrow> key_char c = a \<longleftrightarrow> step_of c = [Chr a]"
  by (cases "key c") (auto simp: child_ok_def key_char_def step_of_def split: option.splits)

lemma param_step: "child_ok c \<Longrightarrow> param c = Some ty \<longleftrightarrow> step_of c = [Par ty]"
  by (auto simp: child_ok_def step_of_def split: option.splits)

lemma match_trait_suffix: "match_trait ts s = Some (ty, r) \<Longrightarrow> set r \<subseteq> set s"
  by (induction ts s rule: match_trait.induct) (auto split: if_splits dest: in_set_dropD)

lemma add_at_rules:
  assumes "raw n" "nul \<notin> set s" "rule \<noteq> 0"
  shows "case rule_toks s of None \<Rightarrow> add_at rule bp i s n = Diverges | Some q \<Rightarrow> adds rule q n (add_at rule bp i s n)"
  using assms
proof (induction rule bp i s n rule: add_at.induct)
  case (1 rule bp i n)
  have "[] \<in> fst ` set (paths n) \<longleftrightarrow> rule_index n \<noteq> 0"
  proof -
    have "[] \<notin> fst ` set (child_paths c)" if "c \<in> set (children n)" for c
    proof -
      have "child_ok c" using that 1(1) unfolding raw_children [of n] list_all_iff by blast
      then obtain t where "step_of c = [t]" using step_singleton by blast
      then show ?thesis by (auto simp: child_paths_def)
    qed
    then show ?thesis unfolding paths_children [of n] by force
  qed
  moreover have "set (paths (Node rule (blueprint_index n) (key n) (param n) (children n))) = insert ([], rule) (set (paths n))"
    if "rule_index n = 0" using that 1(3) by (simp only: paths_children [of "Node _ _ _ _ _"] paths_children [of n] node.sel) simp
  moreover have "raw (Node rule (blueprint_index n) (key n) (param n) (children n))"
    using 1(1) unfolding raw_children [of n] by simp
  ultimately show ?case by (auto simp: adds_def)
next
  case (2 rule bp i c s n)
  have ok: "\<forall>x \<in> set (children n). child_ok x \<and> raw x" using 2(3) unfolding raw_children [of n] list_all_iff by blast
  show ?case
  proof (cases "c = CHR ''<''")
    case True
    show ?thesis
    proof (cases "match_trait param_traits (c # s)")
      case None
      then show ?thesis using True by simp
    next
      case (Some tr)
      obtain ty r where tr: "tr = (ty, r)" by force
      let ?P = "\<lambda>x. param x = Some ty" and ?f = "Node 0 None [] (Some ty) []"
      have f: "child_ok ?f" "raw ?f" "step_of ?f = [Par ty]" "paths ?f = []"
        by (simp_all add: child_ok_def step_of_def)
      have sub: "raw (child_or_new ?P ?f n)" using child_or_new_cases [of ?P ?f n] ok f(2) by auto
      have nn: "nul \<notin> set r" using match_trait_suffix Some tr 2(4) by blast
      have P: "\<forall>x \<in> set (children n). ?P x \<longleftrightarrow> step_of x = [Par ty]" using ok param_step by blast
      note ih = 2(1) [OF True Some tr [symmetric] refl sub nn 2(5)]
      show ?thesis
      proof (cases "rule_toks r")
        case None
        then show ?thesis using ih True Some tr by (simp add: map_added_def Let_def)
      next
        case q: (Some q)
        then show ?thesis using adds_step [OF 2(3) P f] ih True Some tr by (simp add: Let_def)
      qed
    qed
  next
    case False
    let ?P = "\<lambda>x. key_char x = c"
    let ?f = "Node 0 (case bp of Some (len, b) \<Rightarrow> if i = len then Some b else None | None \<Rightarrow> None) [c] None []"
    have cn: "c \<noteq> nul" using 2(4) by auto
    have f: "child_ok ?f" "raw ?f" "step_of ?f = [Chr c]" "paths ?f = []"
      using cn by (simp_all add: child_ok_def step_of_def)
    have sub: "raw (child_or_new ?P ?f n)" using child_or_new_cases [of ?P ?f n] ok f(2) by auto
    have nn: "nul \<notin> set s" using 2(4) by simp
    have P: "\<forall>x \<in> set (children n). ?P x \<longleftrightarrow> step_of x = [Chr c]" using ok key_char_step cn by blast
    note ih = 2(2) [OF False refl refl sub nn 2(5)]
    show ?thesis
    proof (cases "rule_toks s")
      case None
      then show ?thesis using ih False by (simp add: map_added_def Let_def)
    next
      case q: (Some q)
      then show ?thesis using adds_step [OF 2(3) P f] ih False by (simp add: Let_def)
    qed
  qed
qed

end
