(* ===== verification/Router.thy ===== *)
theory Router
  imports Trie
begin

text \<open>
  Rules and the router (\<open>crow/routing.h\<close>), without blueprints: registering rules, the lookup that
  answers OPTIONS, HEAD, redirects, 404 and 405, and the arguments a handler is called with.

  The code behind a rule is the type \<open>'h\<close>; the router only stores and returns it.
\<close>

subsection \<open>Lists of local middlewares\<close>

type_synonym middleware_indices = "nat list"

definition mw_push :: "nat list \<Rightarrow> middleware_indices \<Rightarrow> middleware_indices" where
  "mw_push idxs m = m @ idxs"

definition merge_front :: "middleware_indices \<Rightarrow> middleware_indices \<Rightarrow> middleware_indices" where
  "merge_front other m = other @ m"

definition merge_back :: "middleware_indices \<Rightarrow> middleware_indices \<Rightarrow> middleware_indices" where
  "merge_back other m = m @ other"

definition mw_pop_back :: "middleware_indices \<Rightarrow> middleware_indices \<Rightarrow> middleware_indices" where
  "mw_pop_back other m = take (length m - length other) m"

text \<open>\<open>std::unique\<close> drops repetitions of neighbours.\<close>

definition mw_pack :: "middleware_indices \<Rightarrow> middleware_indices" where
  "mw_pack m = remdups_adj (sort m)"

lemma sorted_remdups_adj_distinct: "sorted xs \<Longrightarrow> distinct (remdups_adj xs)" for xs :: "nat list"
  by (induction xs rule: remdups_adj.induct) (auto simp: order_antisym)

lemma mw_pack_set: "set (mw_pack m) = set m" and mw_pack_strict: "sorted (mw_pack m) \<and> distinct (mw_pack m)"
proof -
  show "set (mw_pack m) = set m" by (simp add: mw_pack_def)
  have "sorted (mw_pack m)" by (simp add: mw_pack_def sorted_remdups_adj)
  moreover have "distinct (mw_pack m)"
    unfolding mw_pack_def by (rule sorted_remdups_adj_distinct) simp
  ultimately show "sorted (mw_pack m) \<and> distinct (mw_pack m)" by simp
qed

lemma mw_pop_merge: "mw_pop_back other (merge_back other m) = m"
  by (simp add: mw_pop_back_def merge_back_def)

subsection \<open>Rules\<close>

datatype rule_kind = Dynamic_rule | Tagged_rule | Websocket_rule

text \<open>
  \<open>rl_handler\<close> is empty until the user gives the rule its function; \<open>rl_upgrade\<close> holds the handlers of
  the WebSocket rule that replaces the rule when the router is validated.
\<close>

record 'h rule =
  rl_kind :: rule_kind
  rl_rule :: string
  rl_name :: string
  rl_methods :: "32 word"
  rl_mw :: middleware_indices
  rl_handler :: "'h option"
  rl_upgrade :: "'h option"
  rl_added :: bool

definition method_bit :: "nat \<Rightarrow> 32 word" where
  "method_bit i = push_bit i 1"

definition new_rule :: "rule_kind \<Rightarrow> string \<Rightarrow> 'h rule" where
  "new_rule k r =
     \<lparr>rl_kind = k, rl_rule = r, rl_name = [], rl_methods = method_bit (method_index Get), rl_mw = [],
      rl_handler = None, rl_upgrade = None, rl_added = False\<rparr>"

text \<open>
  \<open>methods(m, \<dots>)\<close>. The two methods whose number is 32 or 33 have no bit in the mask: the shift of the
  source is undefined for them, here it is 0.
\<close>

fun rule_methods :: "http_method list \<Rightarrow> 'h rule \<Rightarrow> 'h rule" where
  "rule_methods [] r = r"
| "rule_methods [m] r = r\<lparr>rl_methods := method_bit (method_index m)\<rparr>"
| "rule_methods (m # ms) r =
     (let r' = rule_methods ms r in r'\<lparr>rl_methods := rl_methods r' OR method_bit (method_index m)\<rparr>)"

definition rule_set_name :: "string \<Rightarrow> 'h rule \<Rightarrow> 'h rule" where
  "rule_set_name n r = r\<lparr>rl_name := n\<rparr>"

definition rule_set_handler :: "'h \<Rightarrow> 'h rule \<Rightarrow> 'h rule" where
  "rule_set_handler h r = r\<lparr>rl_handler := Some h\<rparr>"

definition rule_websocket :: "'h \<Rightarrow> 'h rule \<Rightarrow> 'h rule" where
  "rule_websocket h r = r\<lparr>rl_upgrade := Some h\<rparr>"

definition rule_middlewares :: "nat list \<Rightarrow> 'h rule \<Rightarrow> 'h rule" where
  "rule_middlewares idxs r = r\<lparr>rl_mw := mw_push idxs (rl_mw r)\<rparr>"

text \<open>\<open>DynamicRule::operator()\<close> compares the tag of its text with the types of the function.\<close>

definition dynamic_set_handler :: "cpp_arg list \<Rightarrow> 'h \<Rightarrow> 'h rule \<Rightarrow> 'h rule res" where
  "dynamic_set_handler args h r =
     bind_res (get_parameter_tag_runtime (rl_rule r)) (\<lambda>tag.
       if \<not> is_parameter_tag_compatible tag (compute_parameter_tag_from_args_list args)
       then Inl (''route_dynamic: Handler type is mismatched with URL parameters: '' @ rl_rule r)
       else Inr (r\<lparr>rl_handler := Some h\<rparr>))"

text \<open>The methods of a rule by number, in the order \<open>foreach_method\<close> visits them.\<close>

definition foreach_method :: "'h rule \<Rightarrow> nat list" where
  "foreach_method r = filter (\<lambda>i. rl_methods r AND method_bit i \<noteq> 0) [0..<method_index InternalMethodCount]"

definition rule_upgrade :: "'h rule \<Rightarrow> 'h rule" where
  "rule_upgrade r =
     (case rl_upgrade r of
        None \<Rightarrow> r
      | Some h \<Rightarrow> (new_rule Websocket_rule (rl_rule r))\<lparr>rl_handler := Some h\<rparr>)"

definition rule_validate :: "'h rule \<Rightarrow> unit res" where
  "rule_validate r =
     (let missing = Inl (rl_name r @ (if rl_name r \<noteq> [] then '': '' else []) @ ''no handler for url '' @ rl_rule r) in
      case rl_kind r of
        Websocket_rule \<Rightarrow> Inr ()
      | Dynamic_rule \<Rightarrow> if rl_handler r = None then missing else Inr ()
      | Tagged_rule \<Rightarrow>
          if rl_rule r = [] then Inl ''basic_string::at''
          else if hd (rl_rule r) \<noteq> CHR ''/'' then Inl (''Internal error: Routes must start with a '/'' @ [CHR 0x27])
          else if rl_handler r = None then missing else Inr ())"

subsection \<open>The arguments of a handler\<close>

text \<open>
  \<open>routing_handler_call_helper::call\<close>: each argument is read from the vector of its type at the
  number of arguments of that type before it. A position outside the vector is undefined.
\<close>

definition nth_opt :: "'a list \<Rightarrow> nat \<Rightarrow> 'a option" where
  "nth_opt xs i = (if i < length xs then Some (xs ! i) else None)"

fun call_args :: "nat \<Rightarrow> nat \<Rightarrow> nat \<Rightarrow> nat \<Rightarrow> handler_arg list \<Rightarrow> routing_params \<Rightarrow> route_arg list option" where
  "call_args ni nu nd ns [] p = Some []"
| "call_args ni nu nd ns (T_int64 # ts) p =
     Option.bind (nth_opt (int_params p) ni) (\<lambda>v. map_option ((#) (Arg_int v)) (call_args (ni + 1) nu nd ns ts p))"
| "call_args ni nu nd ns (T_uint64 # ts) p =
     Option.bind (nth_opt (uint_params p) nu) (\<lambda>v. map_option ((#) (Arg_uint v)) (call_args ni (nu + 1) nd ns ts p))"
| "call_args ni nu nd ns (T_double # ts) p =
     Option.bind (nth_opt (double_params p) nd) (\<lambda>v. map_option ((#) (Arg_double v)) (call_args ni nu (nd + 1) ns ts p))"
| "call_args ni nu nd ns (T_string # ts) p =
     Option.bind (nth_opt (string_params p) ns) (\<lambda>v. map_option ((#) (Arg_string v)) (call_args ni nu nd (ns + 1) ts p))"

subsection \<open>The router\<close>

record 'h per_method =
  pm_rules :: "'h rule option list"
  pm_trie :: node

text \<open>Rule indices 0 and 1 have a special meaning and hold no rule.\<close>

definition new_per_method :: "'h per_method" where
  "new_per_method = \<lparr>pm_rules = [None, None], pm_trie = new_node\<rparr>"

datatype exn = Bad_request string | Std_exception string | Unknown_exception

record 'h router =
  per_methods :: "'h per_method list"
  all_rules :: "'h rule list"
  catchall :: "(request \<Rightarrow> response \<Rightarrow> response \<times> exn option) option"
  exception_handler :: "exn \<Rightarrow> response \<Rightarrow> response"

definition default_exception_handler :: "exn \<Rightarrow> response \<Rightarrow> response" where
  "default_exception_handler e res =
     (let res = response_move res (response_code 500) in
      case e of
        Bad_request what \<Rightarrow> (response_move res (response_code 400))\<lparr>body := what\<rparr>
      | _ \<Rightarrow> res)"

definition new_router :: "'h router" where
  "new_router =
     \<lparr>per_methods = replicate (method_index InternalMethodCount) new_per_method, all_rules = [], catchall = None,
      exception_handler = default_exception_handler\<rparr>"

definition new_rule_dynamic :: "string \<Rightarrow> 'h router \<Rightarrow> 'h router" where
  "new_rule_dynamic r R = R\<lparr>all_rules := all_rules R @ [new_rule Dynamic_rule r]\<rparr>"

definition new_rule_tagged :: "string \<Rightarrow> 'h router \<Rightarrow> 'h router" where
  "new_rule_tagged r R = R\<lparr>all_rules := all_rules R @ [new_rule Tagged_rule r]\<rparr>"

text \<open>
  \<open>internal_add_rule_object\<close>, for the methods of the rule in order. The result is empty when
  \<open>Trie::add\<close> does not end.
\<close>

fun drop_last_slash :: "string \<Rightarrow> string option" where
  "drop_last_slash r = (if 1 < length r \<and> last r = CHR ''/'' then Some (butlast r) else None)"

definition pm_add :: "'h rule \<Rightarrow> 'h per_method \<Rightarrow> 'h per_method res option" where
  "pm_add r pm =
     (let pm1 = pm\<lparr>pm_rules := pm_rules pm @ [Some r]\<rparr> in
      case trie_add (rl_rule r) (length (pm_rules pm1) - 1) 0 None (pm_trie pm1) of
        Diverges \<Rightarrow> None
      | Already \<Rightarrow> Some (Inl (''handler already exists for '' @ rl_rule r))
      | Added t \<Rightarrow>
          (let pm2 = pm1\<lparr>pm_trie := t\<rparr> in
           case drop_last_slash (rl_rule r) of
             None \<Rightarrow> Some (Inr pm2)
           | Some r' \<Rightarrow> (case trie_add r' 1 0 None (pm_trie pm2) of
               Diverges \<Rightarrow> None
             | Already \<Rightarrow> Some (Inl (''handler already exists for '' @ r'))
             | Added t' \<Rightarrow> Some (Inr (pm2\<lparr>pm_trie := t'\<rparr>)))))"

fun add_for_methods :: "'h rule \<Rightarrow> nat list \<Rightarrow> 'h per_method list \<Rightarrow> 'h per_method list res option" where
  "add_for_methods r [] pms = Some (Inr pms)"
| "add_for_methods r (m # ms) pms =
     (case pm_add r (pms ! m) of
        None \<Rightarrow> None
      | Some (Inl e) \<Rightarrow> Some (Inl e)
      | Some (Inr pm) \<Rightarrow> add_for_methods r ms (pms[m := pm]))"

definition internal_add_rule_object :: "'h rule \<Rightarrow> 'h per_method list \<Rightarrow> 'h per_method list res option" where
  "internal_add_rule_object r pms =
     (let r' = r\<lparr>rl_mw := mw_pack (rl_mw r)\<rparr> in add_for_methods r' (foreach_method r') pms)"

text \<open>\<open>Router::validate\<close>: the rules not added yet are upgraded, checked and inserted.\<close>

fun validate_rules :: "'h rule list \<Rightarrow> 'h per_method list \<Rightarrow> ('h rule list \<times> 'h per_method list) res option" where
  "validate_rules [] pms = Some (Inr ([], pms))"
| "validate_rules (r # rs) pms =
     (if rl_added r then
        map_option (\<lambda>x. bind_res x (\<lambda>(rs', pms'). Inr (r # rs', pms'))) (validate_rules rs pms)
      else
        let u = rule_upgrade r in
        case rule_validate u of
          Inl e \<Rightarrow> Some (Inl e)
        | Inr _ \<Rightarrow> (case internal_add_rule_object u pms of
            None \<Rightarrow> None
          | Some (Inl e) \<Rightarrow> Some (Inl e)
          | Some (Inr pms') \<Rightarrow>
              map_option (\<lambda>x. bind_res x (\<lambda>(rs', pms''). Inr (u\<lparr>rl_mw := mw_pack (rl_mw u), rl_added := True\<rparr> # rs', pms'')))
                (validate_rules rs pms')))"

fun validate_tries :: "'h per_method list \<Rightarrow> 'h per_method list res" where
  "validate_tries [] = Inr []"
| "validate_tries (pm # pms) =
     bind_res (trie_validate (pm_trie pm)) (\<lambda>t. bind_res (validate_tries pms) (\<lambda>pms'. Inr (pm\<lparr>pm_trie := t\<rparr> # pms')))"

definition router_validate :: "'h router \<Rightarrow> 'h router res option" where
  "router_validate R =
     (case validate_rules (all_rules R) (per_methods R) of
        None \<Rightarrow> None
      | Some (Inl e) \<Rightarrow> Some (Inl e)
      | Some (Inr (rs, pms)) \<Rightarrow> Some (bind_res (validate_tries pms) (\<lambda>pms'. Inr (R\<lparr>all_rules := rs, per_methods := pms'\<rparr>))))"

subsection \<open>Answering a request\<close>

definition pm_find :: "'h router \<Rightarrow> nat \<Rightarrow> string \<Rightarrow> routing_handle_result" where
  "pm_find R i u = trie_find (pm_trie (per_methods R ! i)) u"

definition any_method_finds :: "'h router \<Rightarrow> string \<Rightarrow> bool" where
  "any_method_finds R u \<longleftrightarrow> list_ex (\<lambda>pm. found_rule (trie_find (pm_trie pm) u) \<noteq> 0) (per_methods R)"

text \<open>\<open>get_error\<close>, when no blueprint is registered: the code, then the global catch-all rule.\<close>

definition get_error :: "'h router \<Rightarrow> int \<Rightarrow> request \<Rightarrow> response \<Rightarrow> response" where
  "get_error R c req res =
     (let res = res\<lparr>code := c\<rparr> in
      case catchall R of
        None \<Rightarrow> res
      | Some f \<Rightarrow> (case f req res of
          (res', None) \<Rightarrow> res'
        | (res', Some e) \<Rightarrow> exception_handler R e res'))"

text \<open>What \<open>handle_initial\<close> returns when no rule is found yet.\<close>

definition nothing_found :: routing_handle_result where
  "nothing_found = \<lparr>found_rule = 0, blueprint_indices = [], r_params = no_params\<rparr>"

definition allowed :: "'h router \<Rightarrow> (nat \<Rightarrow> bool) \<Rightarrow> string" where
  "allowed R P =
     foldl (\<lambda>s i. if P i then s @ '', '' @ method_name (http_methods ! i) else s) ''OPTIONS, HEAD''
       (filter (\<lambda>i. i \<noteq> method_index Head) [0..<method_index InternalMethodCount])"

text \<open>
  \<open>handle_initial\<close>: the response, the rule found and its method. \<open>fin\<close> is \<open>response::end\<close>.
\<close>

definition handle_initial ::
  "(response \<Rightarrow> response) \<Rightarrow> 'h router \<Rightarrow> request \<Rightarrow> response \<Rightarrow> response \<times> routing_handle_result \<times> http_method" where
  "handle_initial fin R req res =
     (let m = req_method req; u = url req in
      if m = InternalMethodCount then (res, nothing_found, InternalMethodCount)
      else if m = Head then
        (let found = pm_find R (method_index Head) u in
         if found_rule found = 0 then
           (let found = pm_find R (method_index Get) u in
            if found_rule found = 0
            then (fin (response_move res (response_code 404)), found, InternalMethodCount)
            else (res\<lparr>skip_body := True\<rparr>, found, Get))
         else (res\<lparr>skip_body := True\<rparr>, found, Head))
      else if m = Options then
        (if u = ''/*'' then
           (let allow = allowed R (\<lambda>i. \<not> trie_is_empty (pm_trie (per_methods R ! i))) in
            (fin (set_header ''Allow'' allow (response_move res (response_code 204))), nothing_found, Options))
         else if any_method_finds R u then
           (let allow = allowed R (\<lambda>i. found_rule (pm_find R i u) \<noteq> 0) in
            (fin (set_header ''Allow'' allow (response_move res (response_code 204))), nothing_found, Options))
         else (fin (response_move res (response_code 404)), nothing_found, InternalMethodCount))
      else
        (let found = pm_find R (method_index m) u in
         if found_rule found = 0 then
           (if any_method_finds R u
            then (fin (get_error R 405 req res), found, InternalMethodCount)
            else (fin (get_error R 404 req res), found, InternalMethodCount))
         else (res, found, m)))"

text \<open>What \<open>handle\<close> and \<open>handle_upgrade\<close> do with the rule found.\<close>

datatype 'h action = Answered response | Run_rule "'h rule" routing_params response | Corrupted | No_rule

definition redirect_slash :: "(response \<Rightarrow> response) \<Rightarrow> request \<Rightarrow> response \<Rightarrow> response" where
  "redirect_slash fin req res =
     fin (add_header ''Location'' (url req @ ''/'') (response_move res (response_code 301)))"

definition rule_at :: "'h per_method \<Rightarrow> nat \<Rightarrow> routing_params \<Rightarrow> response \<Rightarrow> 'h action" where
  "rule_at pm i ps res = (case pm_rules pm ! i of None \<Rightarrow> No_rule | Some r \<Rightarrow> Run_rule r ps res)"

definition router_handle ::
  "(response \<Rightarrow> response) \<Rightarrow> 'h router \<Rightarrow> request \<Rightarrow> response \<Rightarrow> routing_handle_result \<Rightarrow> http_method \<Rightarrow> 'h action" where
  "router_handle fin R req res found m =
     (let pm = per_methods R ! method_index m; i = found_rule found in
      if length (pm_rules pm) \<le> i then Corrupted
      else if i = 1 then Answered (redirect_slash fin req res)
      else rule_at pm i (r_params found) res)"

definition router_handle_upgrade :: "(response \<Rightarrow> response) \<Rightarrow> 'h router \<Rightarrow> request \<Rightarrow> response \<Rightarrow> 'h action" where
  "router_handle_upgrade fin R req res =
     (if req_method req = InternalMethodCount then Answered res
      else
        let pm = per_methods R ! method_index (req_method req); i = found_rule (trie_find (pm_trie pm) (url req)) in
        if i = 0 then
          (if any_method_finds R (url req) then Answered (fin (response_move res (response_code 405)))
           else Answered (fin (response_move res (response_code 404))))
        else if length (pm_rules pm) \<le> i then Corrupted
        else if i = 1 then Answered (redirect_slash fin req res)
        else rule_at pm i no_params res)"

subsection \<open>The arguments arrive in the order of the path\<close>

fun arg_type :: "route_arg \<Rightarrow> handler_arg" where
  "arg_type (Arg_int v) = T_int64"
| "arg_type (Arg_uint v) = T_uint64"
| "arg_type (Arg_double v) = T_double"
| "arg_type (Arg_string v) = T_string"

fun param_arg_type :: "param_type \<Rightarrow> handler_arg" where
  "param_arg_type P_INT = T_int64"
| "param_arg_type P_UINT = T_uint64"
| "param_arg_type P_DOUBLE = T_double"
| "param_arg_type P_STRING = T_string"
| "param_arg_type P_PATH = T_string"

fun tok_types :: "tok list \<Rightarrow> handler_arg list" where
  "tok_types [] = []"
| "tok_types (Chr c # q) = tok_types q"
| "tok_types (Par t # q) = param_arg_type t # tok_types q"

text \<open>The vectors from the given positions on hold the rest of the arguments.\<close>

definition holds_from :: "nat \<Rightarrow> nat \<Rightarrow> nat \<Rightarrow> nat \<Rightarrow> route_arg list \<Rightarrow> routing_params \<Rightarrow> bool" where
  "holds_from ni nu nd ns args p \<longleftrightarrow>
     drop ni (int_params p) = int_params (fold push_param args no_params)
     \<and> drop nu (uint_params p) = uint_params (fold push_param args no_params)
     \<and> drop nd (double_params p) = double_params (fold push_param args no_params)
     \<and> drop ns (string_params p) = string_params (fold push_param args no_params)"

definition params_append :: "routing_params \<Rightarrow> routing_params \<Rightarrow> routing_params" where
  "params_append p q =
     \<lparr>int_params = int_params p @ int_params q, uint_params = uint_params p @ uint_params q,
      double_params = double_params p @ double_params q, string_params = string_params p @ string_params q\<rparr>"

lemma fold_push: "fold push_param args p = params_append p (fold push_param args no_params)"
proof (induction args rule: rev_induct)
  case (snoc a args)
  then show ?case by (cases a) (simp_all add: params_append_def)
qed (simp add: params_append_def no_params_def)

lemma nth_opt_drop: "drop n xs = v # r \<Longrightarrow> nth_opt xs n = Some v \<and> drop (n + 1) xs = r"
proof -
  assume d: "drop n xs = v # r"
  then have "n < length xs" by (metis drop_all linorder_not_le list.discI)
  with d have "xs ! n # drop (Suc n) xs = v # r" by (simp add: Cons_nth_drop_Suc)
  with \<open>n < length xs\<close> show ?thesis by (simp add: nth_opt_def)
qed

lemma pushed_Cons:
  "fold push_param (a # args) no_params = params_append (push_param a no_params) (fold push_param args no_params)"
  using fold_push [of args "push_param a no_params"] by simp

lemma no_params_sel [simp]:
  "int_params no_params = []" "uint_params no_params = []" "double_params no_params = []" "string_params no_params = []"
  by (simp_all add: no_params_def)

lemma call_args_order:
  "holds_from ni nu nd ns args p \<Longrightarrow> call_args ni nu nd ns (map arg_type args) p = Some args"
proof (induction args arbitrary: ni nu nd ns)
  case (Cons a args)
  note h = Cons.prems [unfolded holds_from_def pushed_Cons params_append_def]
  show ?case
  proof (cases a)
    case (Arg_int v)
    then show ?thesis using h nth_opt_drop [of ni "int_params p" v "int_params (fold push_param args no_params)"]
        Cons.IH [of "ni + 1" nu nd ns] by (simp add: holds_from_def)
  next
    case (Arg_uint v)
    then show ?thesis using h nth_opt_drop [of nu "uint_params p" v "uint_params (fold push_param args no_params)"]
        Cons.IH [of ni "nu + 1" nd ns] by (simp add: holds_from_def)
  next
    case (Arg_double v)
    then show ?thesis using h nth_opt_drop [of nd "double_params p" v "double_params (fold push_param args no_params)"]
        Cons.IH [of ni nu "nd + 1" ns] by (simp add: holds_from_def)
  next
    case (Arg_string v)
    then show ?thesis using h nth_opt_drop [of ns "string_params p" v "string_params (fold push_param args no_params)"]
        Cons.IH [of ni nu nd "ns + 1"] by (simp add: holds_from_def)
  qed
qed simp

lemma take_param_type: "take_param t s = Some (a, r) \<Longrightarrow> arg_type a = param_arg_type t"
  by (cases t) (auto simp: Let_def split: if_splits)

lemma match_toks_types: "match_toks q s = Some args \<Longrightarrow> map arg_type args = tok_types q"
  by (induction q s arbitrary: args rule: match_toks.induct)
    (auto split: if_splits option.splits list.splits dest: take_param_type)

text \<open>The parameters a route declares are the parameter tokens of its tree.\<close>

lemma declared_skip: "CHR ''<'' \<notin> set n \<Longrightarrow> declared_types (n @ s) = declared_types s"
  by (induction n) auto

lemma dropWhile_name: "CHR ''>'' \<notin> set n \<Longrightarrow>
    dropWhile (\<lambda>d. d \<noteq> CHR ''>'') (n @ CHR ''>'' # r) = CHR ''>'' # r
    \<and> takeWhile (\<lambda>d. d \<noteq> CHR ''>'') (n @ CHR ''>'' # r) = n"
  by (induction n) auto

lemma match_trait_In: "match_trait ts s = Some (ty, r) \<Longrightarrow> \<exists>n. (n, ty) \<in> set ts \<and> s = n @ r"
  by (induction ts s rule: match_trait.induct) (auto split: if_splits intro: append_take_drop_id [symmetric] dest: sym)

lemma trait_declares:
  assumes "match_trait param_traits (CHR ''<'' # s) = Some (ty, r)"
  shows "declared_types (CHR ''<'' # s) = param_arg_type ty # declared_types r"
proof -
  obtain n where n: "(n, ty) \<in> set param_traits" "CHR ''<'' # s = n @ r" using match_trait_In [OF assms] by auto
  then obtain m where m: "n = CHR ''<'' # m @ ''>''" "CHR ''>'' \<notin> set m" "named_type m = param_arg_type ty"
    by (auto simp: param_traits_def named_type_def Cons_eq_append_conv)
  then have "s = m @ CHR ''>'' # r" using n(2) by simp
  then show ?thesis using m(2,3) by (simp add: dropWhile_name)
qed

lemma rule_toks_declared: "rule_toks s = Some q \<Longrightarrow> declared_types s = tok_types q"
proof (induction s arbitrary: q rule: rule_toks.induct)
  case (2 c s)
  show ?case
  proof (cases "c = CHR ''<''")
    case True
    then obtain ty r q' where t: "match_trait param_traits (c # s) = Some (ty, r)" "rule_toks r = Some q'" "q = Par ty # q'"
      using 2(3) by (auto split: option.splits)
    have "declared_types r = tok_types q'" by (rule 2(1) [OF True t(1) refl t(2)])
    then show ?thesis using trait_declares [of s ty r] t True by simp
  next
    case False
    then show ?thesis using 2 by auto
  qed
qed simp

lemma trait_shape:
  assumes "match_trait param_traits (CHR ''<'' # s) = Some (ty, r)"
  obtains m where "s = m @ CHR ''>'' # r" "CHR ''>'' \<notin> set m"
proof -
  obtain n where n: "(n, ty) \<in> set param_traits" "CHR ''<'' # s = n @ r" using match_trait_In [OF assms] by auto
  then obtain m where "n = CHR ''<'' # m @ ''>''" "CHR ''>'' \<notin> set m"
    by (auto simp: param_traits_def Cons_eq_append_conv)
  then show thesis using that n(2) by simp
qed

lemma tag_test_trait:
  "is_int s \<or> is_uint s \<or> is_float s \<or> is_str s \<or> is_path s \<Longrightarrow> match_trait param_traits s \<noteq> None"
  by (auto simp: tag_tests is_equ_n_take param_traits_def numeral_eq_Suc)

lemma tagged_has_toks: "get_parameter_tag s = Inr t \<Longrightarrow> \<exists>q. rule_toks s = Some q"
proof (induction s arbitrary: t rule: measure_induct_rule [of length])
  case (less s)
  show ?case
  proof (cases s)
    case (Cons c s')
    show ?thesis
    proof (cases "c = CHR ''<''")
      case True
      have tests: "is_int s \<or> is_uint s \<or> is_float s \<or> is_str s \<or> is_path s"
        using less(2) unfolding Cons True by (auto simp: Let_def split: if_splits)
      then obtain ty r where m: "match_trait param_traits (CHR ''<'' # s') = Some (ty, r)"
        using tag_test_trait [OF tests] Cons True by auto
      obtain n where n: "s' = n @ CHR ''>'' # r" "CHR ''>'' \<notin> set n" by (rule trait_shape [OF m])
      have c: "find_closing_tag s = Inr x \<Longrightarrow> x = CHR ''>'' # r" for x
        using closing_suffix [of s x] dropWhile_name [OF n(2), of r] unfolding Cons True n(1) by simp
      obtain x where x: "get_parameter_tag (CHR ''>'' # r) = Inr x"
        using less(2) c unfolding Cons True by (auto simp: Let_def split: if_splits)
      then have "get_parameter_tag r = Inr x" by simp
      moreover have "length r < length s" unfolding Cons n(1) by simp
      ultimately obtain q where "rule_toks r = Some q" using less(1) by blast
      then show ?thesis using m by (simp add: Cons True)
    next
      case False
      then show ?thesis using less(1) [of s'] less(2) Cons by auto
    qed
  qed simp
qed

text \<open>C13: A handler registered for a route with at most 24 parameters is called with one argument for
  each parameter of the route, of the type the route names, in the order of the path; the router
  never reads outside its vectors.
\<close>

theorem route_arguments:
  assumes "get_parameter_tag rule = Inr tag" "length (declared_types rule) \<le> 24"
    and "rule_toks rule = Some q" "match_toks q path = Some args"
  shows "arguments tag = Some (map arg_type args)
    \<and> call_args 0 0 0 0 (map arg_type args) (fold push_param args no_params) = Some args"
proof
  have "declared_types rule = map arg_type args"
    using rule_toks_declared [OF assms(3)] match_toks_types [OF assms(4)] by simp
  then show "arguments tag = Some (map arg_type args)" using tag_declares [OF assms(1,2)] by simp
  show "call_args 0 0 0 0 (map arg_type args) (fold push_param args no_params) = Some args"
    by (rule call_args_order) (simp add: holds_from_def)
qed

theorem route_arguments_witness:
  "call_args 0 0 0 0 [T_int64, T_string] (fold push_param [Arg_int 7, Arg_string ''bob''] no_params)
     = Some [Arg_int 7, Arg_string ''bob'']"
proof -
  have t: "get_parameter_tag ''/<int>/<string>'' = Inr 25" by code_simp
  have d: "length (declared_types ''/<int>/<string>'') \<le> 24" by code_simp
  have q: "rule_toks ''/<int>/<string>'' = Some [Chr (CHR ''/''), Par P_INT, Chr (CHR ''/''), Par P_STRING]" by code_simp
  have m: "match_toks [Chr (CHR ''/''), Par P_INT, Chr (CHR ''/''), Par P_STRING] ''/7/bob'' = Some [Arg_int 7, Arg_string ''bob'']"
    by code_simp
  show ?thesis using route_arguments [OF t d q m] by simp
qed

subsection \<open>The table of a method\<close>

text \<open>
  What the tree of a method has to hold for its vector of rules: every rule under its position,
  and index 1 for every rule with a trailing slash, without the slash.
\<close>

definition rule_entry :: "'h rule option list \<Rightarrow> nat \<Rightarrow> 'h rule \<Rightarrow> bool" where
  "rule_entry rules i r \<longleftrightarrow> 2 \<le> i \<and> i < length rules \<and> rules ! i = Some r"

definition pm_table :: "'h rule option list \<Rightarrow> (tok list \<times> nat) set" where
  "pm_table rules =
     {(q, i). \<exists>r. rule_entry rules i r \<and> rule_toks (rl_rule r) = Some q}
     \<union> {(q, i). i = 1 \<and> (\<exists>j r s. rule_entry rules j r \<and> drop_last_slash (rl_rule r) = Some s \<and> rule_toks s = Some q)}"

definition pm_ok :: "'h per_method \<Rightarrow> bool" where
  "pm_ok pm \<longleftrightarrow> raw (pm_trie pm) \<and> 2 \<le> length (pm_rules pm) \<and> set (paths (pm_trie pm)) = pm_table (pm_rules pm)"

lemma rule_entry_snoc:
  "2 \<le> length rules \<Longrightarrow> rule_entry (rules @ [Some r]) i r' \<longleftrightarrow> rule_entry rules i r' \<or> i = length rules \<and> r' = r"
  by (auto simp: rule_entry_def nth_append)

lemma pm_table_snoc:
  assumes "2 \<le> length rules" "rule_toks (rl_rule r) = Some q"
  shows "pm_table (rules @ [Some r]) = insert (q, length rules)
    (pm_table rules \<union> {(p, i). i = 1 \<and> (\<exists>s. drop_last_slash (rl_rule r) = Some s \<and> rule_toks s = Some p)})"
  unfolding pm_table_def rule_entry_snoc [OF assms(1)] using assms(2)
  by (auto simp del: drop_last_slash.simps)

lemma trie_add_ok:
  assumes "raw t" "nul \<notin> set u" "i \<noteq> 0" "i < 2 ^ 16" "trie_add u i 0 None t = Added t'"
  shows "\<exists>q. rule_toks u = Some q \<and> set (paths t') = insert (q, i) (set (paths t)) \<and> raw t' \<and> q \<notin> fst ` set (paths t)"
proof -
  have "case rule_toks u of None \<Rightarrow> add_at i None 0 u t = Diverges | Some q \<Rightarrow> adds i q t (add_at i None 0 u t)"
    by (rule add_at_rules) (use assms in auto)
  moreover have "add_at i None 0 u t = Added t'" using assms(4,5) by (simp add: trie_add_def)
  ultimately show ?thesis by (auto simp: adds_def split: option.splits if_splits)
qed

lemma drop_last_slash_nul: "drop_last_slash r = Some s \<Longrightarrow> nul \<notin> set r \<Longrightarrow> nul \<notin> set s"
  by (auto split: if_splits dest: in_set_butlastD)

lemma pm_add_ok:
  assumes "pm_ok pm" "nul \<notin> set (rl_rule r)" "length (pm_rules pm) < 2 ^ 16" "pm_add r pm = Some (Inr pm')"
  shows "pm_ok pm' \<and> pm_rules pm' = pm_rules pm @ [Some r]"
proof -
  let ?n = "length (pm_rules pm)"
  have n: "?n \<noteq> 0" using assms(1) by (auto simp: pm_ok_def)
  have tab: "set (paths (pm_trie pm)) = pm_table (pm_rules pm)" and two: "2 \<le> ?n" and raw: "raw (pm_trie pm)"
    using assms(1) by (simp_all add: pm_ok_def)
  obtain t where t: "trie_add (rl_rule r) ?n 0 None (pm_trie pm) = Added t"
    using assms(4) by (auto simp: pm_add_def Let_def split: add_result.splits)
  obtain q where q: "rule_toks (rl_rule r) = Some q" "set (paths t) = insert (q, ?n) (set (paths (pm_trie pm)))" "raw t"
    using trie_add_ok [OF raw assms(2) n assms(3) t] by auto
  note snoc = pm_table_snoc [OF two q(1)]
  show ?thesis
  proof (cases "drop_last_slash (rl_rule r)")
    case None
    then have "pm' = pm\<lparr>pm_rules := pm_rules pm @ [Some r], pm_trie := t\<rparr>"
      using assms(4) t by (simp add: pm_add_def del: drop_last_slash.simps)
    then show ?thesis using q two tab snoc None by (auto simp: pm_ok_def)
  next
    case (Some s)
    then obtain t' where t': "trie_add s 1 0 None t = Added t'"
        "pm' = pm\<lparr>pm_rules := pm_rules pm @ [Some r], pm_trie := t'\<rparr>"
      using assms(4) t by (auto simp: pm_add_def Let_def simp del: drop_last_slash.simps split: add_result.splits)
    obtain p where p: "rule_toks s = Some p" "set (paths t') = insert (p, 1) (set (paths t))" "raw t'"
      using trie_add_ok [OF q(3) drop_last_slash_nul [OF Some assms(2)] _ _ t'(1)] by auto
    then show ?thesis using q two tab snoc Some t'(2) by (auto simp: pm_ok_def simp del: drop_last_slash.simps)
  qed
qed

subsection \<open>What a validated router holds\<close>

definition prepared :: "'h rule \<Rightarrow> 'h rule" where
  "prepared r = (let u = rule_upgrade r in u\<lparr>rl_mw := mw_pack (rl_mw u)\<rparr>)"

definition rules_for :: "nat \<Rightarrow> 'h rule list \<Rightarrow> 'h rule option list" where
  "rules_for m rs = map Some (filter (\<lambda>r. m \<in> set (foreach_method r)) (map prepared rs))"

definition pm_ready :: "'h per_method \<Rightarrow> bool" where
  "pm_ready pm \<longleftrightarrow> keys_ok (pm_trie pm) \<and> 2 \<le> length (pm_rules pm) \<and> set (paths (pm_trie pm)) = pm_table (pm_rules pm)"

lemma prepared_text [simp]: "rl_rule (prepared r) = rl_rule r"
  by (simp add: prepared_def rule_upgrade_def new_rule_def Let_def split: option.split)

lemma add_for_methods_ok:
  assumes "add_for_methods r ms pms = Some (Inr pms')" "nul \<notin> set (rl_rule r)" "distinct ms" "\<forall>m \<in> set ms. m < length pms"
    and "\<forall>m < length pms. pm_ok (pms ! m) \<and> (m \<in> set ms \<longrightarrow> length (pm_rules (pms ! m)) < 2 ^ 16)"
  shows "length pms' = length pms
    \<and> (\<forall>m < length pms. pm_ok (pms' ! m)
         \<and> pm_rules (pms' ! m) = pm_rules (pms ! m) @ (if m \<in> set ms then [Some r] else []))"
  using assms
proof (induction r ms pms rule: add_for_methods.induct)
  case (2 r m ms pms)
  obtain pm where pm: "pm_add r (pms ! m) = Some (Inr pm)" "add_for_methods r ms (pms[m := pm]) = Some (Inr pms')"
    using 2(2) by (auto split: option.splits sum.splits)
  have ok: "pm_ok pm \<and> pm_rules pm = pm_rules (pms ! m) @ [Some r]"
    using 2(3,5) 2(6) [rule_format, of m] by (intro pm_add_ok [OF _ _ _ pm(1)]) simp_all
  have "length pms' = length (pms[m := pm])
    \<and> (\<forall>i < length (pms[m := pm]). pm_ok (pms' ! i)
         \<and> pm_rules (pms' ! i) = pm_rules (pms[m := pm] ! i) @ (if i \<in> set ms then [Some r] else []))"
    using 2(3-6) ok by (intro 2(1) [OF pm(1) refl pm(2)]) (auto simp: nth_list_update)
  then show ?case using 2(4,5) ok by (auto simp: nth_list_update)
qed simp

lemma foreach_method_bounds: "distinct (foreach_method r)" "m \<in> set (foreach_method r) \<Longrightarrow> m < method_index InternalMethodCount"
  by (simp_all add: foreach_method_def)

lemma validate_rules_ok:
  assumes "validate_rules rs pms = Some (Inr (rs', pms'))"
    and "\<forall>r \<in> set rs. \<not> rl_added r \<and> nul \<notin> set (rl_rule r)" "length pms = method_index InternalMethodCount"
    and "\<forall>m < length pms. pm_ok (pms ! m) \<and> length (pm_rules (pms ! m)) + length rs \<le> 2 ^ 16"
  shows "length pms' = length pms
    \<and> (\<forall>m < length pms. pm_ok (pms' ! m) \<and> pm_rules (pms' ! m) = pm_rules (pms ! m) @ rules_for m rs)"
  using assms
proof (induction rs arbitrary: pms rs')
  case (Cons r rs)
  let ?u = "rule_upgrade r"
  obtain pms1 rs1 where p: "internal_add_rule_object ?u pms = Some (Inr pms1)" "validate_rules rs pms1 = Some (Inr (rs1, pms'))"
    using Cons.prems(1,2) by (auto simp: Let_def split: option.splits sum.splits)
  have a: "add_for_methods (prepared r) (foreach_method (prepared r)) pms = Some (Inr pms1)"
    using p(1) by (simp add: internal_add_rule_object_def prepared_def Let_def)
  have 1: "length pms1 = length pms
    \<and> (\<forall>m < length pms. pm_ok (pms1 ! m)
         \<and> pm_rules (pms1 ! m) = pm_rules (pms ! m) @ (if m \<in> set (foreach_method (prepared r)) then [Some (prepared r)] else []))"
    using Cons.prems(2-4) foreach_method_bounds by (intro add_for_methods_ok [OF a]) fastforce+
  have "length pms' = length pms1
    \<and> (\<forall>m < length pms1. pm_ok (pms' ! m) \<and> pm_rules (pms' ! m) = pm_rules (pms1 ! m) @ rules_for m rs)"
    using 1 Cons.prems(2-4) by (intro Cons.IH [OF p(2)]) auto
  then show ?case using 1 by (auto simp: rules_for_def)
qed (simp add: rules_for_def)

lemma trie_validate_ready: "pm_ok pm \<Longrightarrow> trie_validate (pm_trie pm) = Inr t \<Longrightarrow> pm_ready (pm\<lparr>pm_trie := t\<rparr>)"
proof -
  assume ok: "pm_ok pm" and v: "trie_validate (pm_trie pm) = Inr t"
  have t: "t = trie_optimize (pm_trie pm)" using v by (simp add: trie_validate_def split: if_splits)
  have r: "raw (pm_trie pm)" "2 \<le> length (pm_rules pm)" "set (paths (pm_trie pm)) = pm_table (pm_rules pm)"
    using ok unfolding pm_ok_def by blast+
  have "keys_ok t" unfolding t by (rule optimize_keys [OF raw_keys_ok [OF r(1)]])
  moreover have "paths t = paths (pm_trie pm)" unfolding t by (rule optimize_keeps_rules)
  ultimately show ?thesis using r(2,3) unfolding pm_ready_def by simp
qed

lemma validate_tries_ready:
  assumes "validate_tries pms = Inr pms'" "\<forall>m < length pms. pm_ok (pms ! m)"
  shows "length pms' = length pms \<and> (\<forall>m < length pms. pm_ready (pms' ! m) \<and> pm_rules (pms' ! m) = pm_rules (pms ! m))"
  using assms
proof (induction pms arbitrary: pms')
  case (Cons pm pms)
  obtain t pms1 where t: "trie_validate (pm_trie pm) = Inr t" "validate_tries pms = Inr pms1" "pms' = pm\<lparr>pm_trie := t\<rparr> # pms1"
    using Cons.prems(1) by auto
  have "pm_ok pm" "\<forall>m < length pms. pm_ok (pms ! m)" using Cons.prems(2) by (auto simp: All_less_Suc2)
  then show ?case using Cons.IH [OF t(2)] trie_validate_ready [OF _ t(1)] t(3) by (auto simp: nth_Cons split: nat.split)
qed simp

lemma new_pm_ok: "pm_ok new_per_method"
  by (simp add: pm_ok_def new_per_method_def new_node_def pm_table_def rule_entry_def)

text \<open>
  After validation the tree of every method holds exactly the rules registered for it, each
  under its position in the vector of rules of that method, and the redirect for those that end in a
  slash.
\<close>

lemma validated_tables:
  assumes "router_validate (new_router\<lparr>all_rules := rs\<rparr>) = Some (Inr (R :: 'h router))"
    and "\<forall>r \<in> set rs. \<not> rl_added r \<and> nul \<notin> set (rl_rule r)" "length rs \<le> 65534" "m < method_index InternalMethodCount"
  shows "pm_ready (per_methods R ! m) \<and> pm_rules (per_methods R ! m) = [None, None] @ rules_for m rs"
proof -
  let ?pms = "replicate (method_index InternalMethodCount) (new_per_method :: 'h per_method)"
  obtain rs' pms pms' where v: "validate_rules rs ?pms = Some (Inr (rs', pms))" "validate_tries pms = Inr pms'" "per_methods R = pms'"
    using assms(1) by (auto simp: router_validate_def new_router_def split: option.splits sum.splits prod.splits)
  have 1: "length pms = length ?pms
    \<and> (\<forall>m < length ?pms. pm_ok (pms ! m) \<and> pm_rules (pms ! m) = pm_rules (?pms ! m) @ rules_for m rs)"
    using assms(2,3) new_pm_ok by (intro validate_rules_ok [OF v(1)]) (auto simp: new_per_method_def)
  have "length pms' = length pms \<and> (\<forall>m < length pms. pm_ready (pms' ! m) \<and> pm_rules (pms' ! m) = pm_rules (pms ! m))"
    using 1 by (intro validate_tries_ready [OF v(2)]) simp
  then show ?thesis using 1 assms(4) v(3) by (simp add: new_per_method_def)
qed

subsection \<open>Which rule a path finds\<close>

lemma best_least: "(\<forall>x \<in> set l. fst x \<noteq> 0) \<Longrightarrow>
    if l = [] then best l = (0, no_params) else best l \<in> set l \<and> (\<forall>x \<in> set l. fst (best l) \<le> fst x)"
proof (induction l rule: rev_induct)
  case (snoc x l)
  have b: "best (l @ [x]) = pick (best l) x" by (simp add: best_def)
  show ?case
  proof (cases "l = []")
    case True
    then show ?thesis using snoc.prems by (simp add: best_def pick_def)
  next
    case False
    then have m: "best l \<in> set l" "\<forall>y \<in> set l. fst (best l) \<le> fst y" "fst x \<noteq> 0" "fst (best l) \<noteq> 0"
      using snoc by auto
    then show ?thesis unfolding b by (auto simp: pick_def intro: less_imp_le order_trans)
  qed
qed (simp add: best_def)

lemma paths_nonzero: "(q, i) \<in> set (paths n) \<Longrightarrow> i \<noteq> 0"
  by (induction n arbitrary: q) (auto split: if_splits)

lemma in_hits: "(i, ps) \<in> set (hits s p0 l) \<longleftrightarrow> (\<exists>q args. (q, i) \<in> set l \<and> match_toks q s = Some args \<and> ps = fold push_param args p0)"
  by (force simp: hits_def split: option.splits)

text \<open>
  The rule found for a path is the one with the smallest index among the rules of the method that
  match the whole path, a redirect (index 1) before every other rule.
\<close>

lemma found_least:
  assumes "pm_ready pm" "trie_find (pm_trie pm) path = found"
  shows "found_rule found = 0 \<and> (\<forall>(q, i) \<in> pm_table (pm_rules pm). match_toks q path = None)
    \<or> (\<exists>q args. (q, found_rule found) \<in> pm_table (pm_rules pm) \<and> match_toks q path = Some args
         \<and> r_params found = fold push_param args no_params)
      \<and> (\<forall>(q, i) \<in> pm_table (pm_rules pm). match_toks q path \<noteq> None \<longrightarrow> found_rule found \<le> i)"
proof -
  let ?l = "hits path no_params (paths (pm_trie pm))"
  have o: "outcome found = best ?l" using assms by (simp add: pm_ready_def trie_find_best flip: assms(2))
  have tab: "set (paths (pm_trie pm)) = pm_table (pm_rules pm)" using assms(1) by (simp add: pm_ready_def)
  have nz: "\<forall>x \<in> set ?l. fst x \<noteq> 0" using paths_nonzero by (fastforce simp: in_hits)
  show ?thesis
  proof (cases "?l = []")
    case True
    have "match_toks q path = None" if "(q, i) \<in> set (paths (pm_trie pm))" for q i
    proof (rule ccontr)
      assume "match_toks q path \<noteq> None"
      then obtain args where "match_toks q path = Some args" by blast
      with that have "(i, fold push_param args no_params) \<in> set ?l" unfolding in_hits by blast
      then show False using True by simp
    qed
    then have "\<forall>(q, i) \<in> set (paths (pm_trie pm)). match_toks q path = None" by blast
    moreover have "found_rule found = 0" using o True by (auto simp: outcome_def best_def split: if_splits)
    ultimately show ?thesis using tab by simp
  next
    case False
    then have b: "best ?l \<in> set ?l" "\<forall>x \<in> set ?l. fst (best ?l) \<le> fst x" using best_least [OF nz] by simp_all
    then have "fst (best ?l) \<noteq> 0" using nz by blast
    then have "found_rule found \<noteq> 0" unfolding o [symmetric] outcome_def by (simp split: if_splits)
    then have f: "best ?l = (found_rule found, r_params found)" unfolding o [symmetric] outcome_def by simp
    have "\<exists>q args. (q, found_rule found) \<in> pm_table (pm_rules pm) \<and> match_toks q path = Some args
         \<and> r_params found = fold push_param args no_params"
      using b(1) unfolding f in_hits tab by auto
    moreover have "found_rule found \<le> i" if t: "(q, i) \<in> pm_table (pm_rules pm)" and n: "match_toks q path \<noteq> None" for q i
    proof -
      obtain args where "match_toks q path = Some args" using n by blast
      with t have "(i, fold push_param args no_params) \<in> set ?l" unfolding in_hits tab by blast
      then show ?thesis using b(2) unfolding f by force
    qed
    ultimately show ?thesis by blast
  qed
qed

text \<open>C11: In a router that passed validation, a request path is answered by the first registered rule of
  its method that matches the whole path, with the parameters read from the path; a redirect to a
  rule that ends in a slash comes before every other rule; and no rule is found only when none
  matches.
\<close>

theorem first_matching_rule:
  assumes "router_validate (new_router\<lparr>all_rules := rs\<rparr>) = Some (Inr (R :: 'h router))"
    and "\<forall>r \<in> set rs. \<not> rl_added r \<and> nul \<notin> set (rl_rule r)" "length rs \<le> 65534" "m < method_index InternalMethodCount"
  shows "let found = pm_find R m path; table = pm_table ([None, None] @ rules_for m rs) in
    found_rule found = 0 \<and> (\<forall>(q, i) \<in> table. match_toks q path = None)
    \<or> (\<exists>q args. (q, found_rule found) \<in> table \<and> match_toks q path = Some args
         \<and> r_params found = fold push_param args no_params)
      \<and> (\<forall>(q, i) \<in> table. match_toks q path \<noteq> None \<longrightarrow> found_rule found \<le> i)"
  using validated_tables [OF assms] found_least [of "per_methods R ! m" path "pm_find R m path"]
  unfolding Let_def pm_find_def by metis

text \<open>The vector of rules is never indexed outside: \<open>handle\<close> does not report a corrupted tree.\<close>

lemma handle_not_corrupted:
  assumes "pm_ready (per_methods R ! method_index m)" "found = pm_find R (method_index m) (url req)" "found_rule found \<noteq> 0"
  shows "router_handle fin R req res found m \<noteq> Corrupted \<and> router_handle fin R req res found m \<noteq> No_rule"
proof -
  let ?pm = "per_methods R ! method_index m"
  obtain q where "(q, found_rule found) \<in> pm_table (pm_rules ?pm)"
    using found_least [OF assms(1), of "url req" found] assms(2,3) by (auto simp: pm_find_def)
  then have "found_rule found = 1 \<and> 2 \<le> length (pm_rules ?pm)
      \<or> 2 \<le> found_rule found \<and> found_rule found < length (pm_rules ?pm) \<and> (\<exists>r. pm_rules ?pm ! found_rule found = Some r)"
    unfolding pm_table_def rule_entry_def by auto
  then show ?thesis by (auto simp: router_handle_def rule_at_def Let_def split: option.splits)
qed

subsection \<open>When validation succeeds\<close>

lemma bit_method: "bit (method_bit k) n \<longleftrightarrow> n = k \<and> k < 32"
  by (auto simp: method_bit_def bit_simps)

lemma method_bits_meet: "(method_bit k AND method_bit i \<noteq> 0) \<longleftrightarrow> i = k \<and> k < 32"
proof -
  have "method_bit k AND method_bit i \<noteq> 0 \<longleftrightarrow> (\<exists>n. bit (method_bit k AND method_bit i) n)"
    by (metis bit_0_eq bot_apply bot_bool_def bit_eqI)
  then show ?thesis by (auto simp: bit_and_iff bit_method)
qed

lemma filter_one: "k < n \<Longrightarrow> filter (\<lambda>i. i = k) [0..<n] = [k]"
  by (induction n) (auto simp: less_Suc_eq filter_empty_conv)

lemma foreach_one_method:
  assumes "rl_methods r = method_bit (method_index m)" "method_index m < 32"
  shows "foreach_method r = [method_index m]"
proof -
  have "method_index m < method_index InternalMethodCount"
    using assms(2) by (simp add: method_index_def http_methods_def)
  then show ?thesis using assms by (simp add: foreach_method_def method_bits_meet filter_one)
qed

text \<open>The rules of one method, added one after the other.\<close>

fun add_all :: "'h rule list \<Rightarrow> 'h per_method \<Rightarrow> 'h per_method res option" where
  "add_all [] pm = Some (Inr pm)"
| "add_all (r # rs) pm =
     (case pm_add r pm of None \<Rightarrow> None | Some (Inl e) \<Rightarrow> Some (Inl e) | Some (Inr pm') \<Rightarrow> add_all rs pm')"

definition rule_ok :: "nat \<Rightarrow> 'h rule \<Rightarrow> nat \<Rightarrow> bool" where
  "rule_ok n r m \<longleftrightarrow> \<not> rl_added r \<and> rule_validate (rule_upgrade r) = Inr () \<and> foreach_method (prepared r) = [m] \<and> m < n"

definition rules_of_method :: "'h rule list \<Rightarrow> nat \<Rightarrow> 'h rule list" where
  "rules_of_method rs m = map prepared (filter (\<lambda>r. foreach_method (prepared r) = [m]) rs)"

lemma validate_rules_returns:
  assumes "\<forall>r \<in> set rs. \<exists>m. rule_ok (length pms) r m"
    and "\<forall>m < length pms. add_all (rules_of_method rs m) (pms ! m) = Some (Inr (pms' m))"
  shows "\<exists>rs' out. validate_rules rs pms = Some (Inr (rs', out)) \<and> length out = length pms \<and> (\<forall>m < length pms. out ! m = pms' m)"
  using assms
proof (induction rs arbitrary: pms)
  case (Cons r rs)
  obtain m where m: "rule_ok (length pms) r m" using Cons.prems(1) by auto
  then have f: "foreach_method (prepared r) = [m]" "m < length pms" by (simp_all add: rule_ok_def)
  have "add_all (prepared r # rules_of_method rs m) (pms ! m) = Some (Inr (pms' m))"
    using Cons.prems(2) [rule_format, OF f(2)] f(1) by (simp add: rules_of_method_def)
  then obtain pm where pm: "pm_add (prepared r) (pms ! m) = Some (Inr pm)" "add_all (rules_of_method rs m) pm = Some (Inr (pms' m))"
    by (auto split: option.splits sum.splits)
  have i: "internal_add_rule_object (rule_upgrade r) pms = Some (Inr (pms[m := pm]))"
    using f(1) pm(1) by (simp add: internal_add_rule_object_def prepared_def Let_def)
  have rest: "add_all (rules_of_method rs k) (pms[m := pm] ! k) = Some (Inr (pms' k))" if "k < length pms" for k
  proof (cases "k = m")
    case True
    then show ?thesis using pm(2) f(2) by simp
  next
    case False
    then show ?thesis using Cons.prems(2) [rule_format, OF that] f(1) by (simp add: rules_of_method_def)
  qed
  have "\<exists>rs' out. validate_rules rs (pms[m := pm]) = Some (Inr (rs', out)) \<and> length out = length (pms[m := pm])
      \<and> (\<forall>k < length (pms[m := pm]). out ! k = pms' k)"
    by (rule Cons.IH) (use Cons.prems(1) rest in auto)
  then show ?case using m i by (auto simp: rule_ok_def Let_def)
qed (simp add: rules_of_method_def)

lemma validate_tries_returns:
  "\<forall>m < length pms. is_simple_node (pm_trie (pms ! m)) \<Longrightarrow> \<exists>out. validate_tries pms = Inr out"
  by (induction pms) (auto simp: trie_validate_def All_less_Suc2)

lemma router_validates:
  fixes rs :: "'h rule list"
  assumes "\<forall>r \<in> set rs. \<exists>m. rule_ok (method_index InternalMethodCount) r m"
    and "\<forall>m < method_index InternalMethodCount. \<exists>pm. add_all (rules_of_method rs m) new_per_method = Some (Inr pm) \<and> is_simple_node (pm_trie pm)"
  shows "\<exists>R. router_validate (new_router\<lparr>all_rules := rs\<rparr>) = Some (Inr R)"
proof -
  let ?pms = "replicate (method_index InternalMethodCount) (new_per_method :: 'h per_method)"
  obtain f where f: "\<forall>m < method_index InternalMethodCount. add_all (rules_of_method rs m) new_per_method = Some (Inr (f m)) \<and> is_simple_node (pm_trie (f m))"
    using assms(2) by metis
  obtain rs' out where v: "validate_rules rs ?pms = Some (Inr (rs', out))" "length out = length ?pms" "\<forall>m < length ?pms. out ! m = f m"
    using validate_rules_returns [of rs ?pms f] assms(1) f by auto
  have "\<exists>t. validate_tries out = Inr t" by (rule validate_tries_returns) (use v f in simp)
  then show ?thesis using v(1) by (auto simp: router_validate_def new_router_def)
qed

end
