(* ===== verification/Middleware.thy ===== *)
theory Middleware
  imports Http
begin

text \<open>
  How middleware is called around a handler (\<open>crow/middleware.h\<close>). The tuple of middleware is a list; the template
  recursion over it is recursion on the list. A middleware works on the request, the response and the contexts of
  all middleware, \<open>'k\<close>.
\<close>

subsection \<open>Middleware and criteria\<close>

type_synonym 'k mw_state = "request \<times> response \<times> 'k"

definition mw_response :: "'k mw_state \<Rightarrow> response" where
  "mw_response s = fst (snd s)"

record 'k middleware =
  call_global :: bool
  before_handle :: "'k mw_state \<Rightarrow> 'k mw_state"
  after_handle :: "'k mw_state \<Rightarrow> 'k mw_state"

text \<open>
  Which middleware is enabled: the global ones, or those of a list of indices. The slider moves through the list as
  the helper moves through the tuple, forwards or backwards; what is left of the list stands for it, from the front
  or, reversed, from the back.
\<close>

datatype criteria = Only_global | Dynamic "nat list"

definition dynamic_forward :: "nat list \<Rightarrow> criteria" where
  "dynamic_forward indices = Dynamic indices"

definition dynamic_backward :: "nat list \<Rightarrow> criteria" where
  "dynamic_backward indices = Dynamic (rev indices)"

fun mw_enabled :: "criteria \<Rightarrow> nat \<Rightarrow> 'k middleware \<Rightarrow> bool \<times> criteria" where
  "mw_enabled Only_global n mw = (call_global mw, Only_global)"
| "mw_enabled (Dynamic []) n mw = (False, Dynamic [])"
| "mw_enabled (Dynamic (i # ix)) n mw = (if i = n then (True, Dynamic ix) else (False, Dynamic (i # ix)))"

subsection \<open>The helpers\<close>

fun middleware_call_helper :: "criteria \<Rightarrow> nat \<Rightarrow> 'k middleware list \<Rightarrow> 'k mw_state \<Rightarrow> bool \<times> 'k mw_state" where
  "middleware_call_helper cc n [] s = (False, s)"
| "middleware_call_helper cc n (mw # mws) s =
     (case mw_enabled cc n mw of (en, cc') \<Rightarrow>
        if \<not> en then middleware_call_helper cc' (n + 1) mws s
        else
          let s1 = before_handle mw s
          in if completed (mw_response s1) then (True, after_handle mw s1)
             else case middleware_call_helper cc' (n + 1) mws s1 of
               (stop, s2) \<Rightarrow> if stop then (True, after_handle mw s2) else (False, s2))"

text \<open>\<open>after_handlers_call_helper\<close> from the last middleware to the first: the list comes with its indices, reversed.\<close>

fun after_handlers_from :: "criteria \<Rightarrow> (nat \<times> 'k middleware) list \<Rightarrow> 'k mw_state \<Rightarrow> 'k mw_state" where
  "after_handlers_from cc [] s = s"
| "after_handlers_from cc ((n, mw) # mws) s =
     (case mw_enabled cc n mw of (en, cc') \<Rightarrow> after_handlers_from cc' mws (if en then after_handle mw s else s))"

definition after_handlers_call_helper :: "criteria \<Rightarrow> 'k middleware list \<Rightarrow> 'k mw_state \<Rightarrow> 'k mw_state" where
  "after_handlers_call_helper cc mws s = after_handlers_from cc (rev (zip [0..<length mws] mws)) s"

subsection \<open>Which middleware runs\<close>

text \<open>The middleware with the given indices, in the order of the tuple.\<close>

definition chosen :: "nat list \<Rightarrow> 'k middleware list \<Rightarrow> 'k middleware list" where
  "chosen ix mws = map snd (filter (\<lambda>(n, mw). n \<in> set ix) (zip [0..<length mws] mws))"

fun run_chain :: "'k middleware list \<Rightarrow> 'k mw_state \<Rightarrow> bool \<times> 'k mw_state" where
  "run_chain [] s = (False, s)"
| "run_chain (mw # mws) s =
     (let s1 = before_handle mw s
      in if completed (mw_response s1) then (True, after_handle mw s1)
         else case run_chain mws s1 of (stop, s2) \<Rightarrow> if stop then (True, after_handle mw s2) else (False, s2))"

lemma helper_dynamic:
  "sorted_wrt (<) ix \<Longrightarrow> \<forall>i\<in>set ix. n \<le> i \<Longrightarrow>
   middleware_call_helper (Dynamic ix) n mws s =
   run_chain (map snd (filter (\<lambda>(m, mw). m \<in> set ix) (zip [n..<n + length mws] mws))) s"
proof (induction mws arbitrary: ix n s)
  case (Cons mw mws)
  have z: "zip [n..<n + length (mw # mws)] (mw # mws) = (n, mw) # zip [Suc n..<Suc n + length mws] mws"
    by (simp add: upt_rec)
  show ?case
  proof (cases ix)
    case Nil
    with Cons.IH[of "[]" "Suc n" s] z show ?thesis by simp
  next
    case (Cons i js)
    have le: "m \<in> set (zip [Suc n..<Suc n + length mws] mws) \<Longrightarrow> n < fst m" for m
      by (cases m) (auto dest!: set_zip_leftD simp del: upt_Suc)
    show ?thesis
    proof (cases "i = n")
      case True
      have f: "filter (\<lambda>(m, mw). m \<in> set ix) (zip [Suc n..<Suc n + length mws] mws) =
          filter (\<lambda>(m, mw). m \<in> set js) (zip [Suc n..<Suc n + length mws] mws)"
        using le True \<open>ix = i # js\<close> by (intro filter_cong) fastforce+
      have "middleware_call_helper (Dynamic js) (n + 1) mws s' =
          run_chain (map snd (filter (\<lambda>(m, mw). m \<in> set js) (zip [Suc n..<Suc n + length mws] mws))) s'" for s'
        using Cons.IH[of js "Suc n" s'] Cons.prems True \<open>ix = i # js\<close> by fastforce
      then show ?thesis using z f True \<open>ix = i # js\<close> by (simp add: Let_def del: upt_Suc)
    next
      case False
      then have "n \<notin> set ix" using Cons.prems \<open>ix = i # js\<close> by auto
      moreover have "\<forall>i\<in>set ix. Suc n \<le> i" using Cons.prems False \<open>ix = i # js\<close> by fastforce
      ultimately show ?thesis using z False \<open>ix = i # js\<close> Cons.IH[of ix "Suc n" s] Cons.prems
        by (simp del: upt_Suc)
    qed
  qed
qed simp


lemma after_from_dynamic:
  "sorted_wrt (>) ix \<Longrightarrow> sorted_wrt (>) (map fst mws) \<Longrightarrow> set ix \<subseteq> fst ` set mws \<Longrightarrow>
   after_handlers_from (Dynamic ix) mws s = fold after_handle (map snd (filter (\<lambda>(m, mw). m \<in> set ix) mws)) s"
proof (induction mws arbitrary: ix s)
  case (Cons e mws)
  obtain n mw where e: "e = (n, mw)" by force
  show ?case
  proof (cases ix)
    case Nil
    with Cons.IH[of "[]" s] Cons.prems e show ?thesis by simp
  next
    case (Cons i js)
    show ?thesis
    proof (cases "i = n")
      case True
      have f: "filter (\<lambda>(m, mw). m \<in> set ix) mws = filter (\<lambda>(m, mw). m \<in> set js) mws"
        using Cons.prems(2) True \<open>ix = i # js\<close> e by (intro filter_cong) auto
      have "set js \<subseteq> fst ` set mws" using Cons.prems True \<open>ix = i # js\<close> e by auto
      with Cons.IH[of js "after_handle mw s"] Cons.prems True f \<open>ix = i # js\<close> e show ?thesis by simp
    next
      case False
      then have i: "i \<in> fst ` set mws" using Cons.prems(3) \<open>ix = i # js\<close> e by auto
      then have "i < n" using Cons.prems(2) e by auto
      then have n: "n \<notin> set ix" using Cons.prems(1) \<open>ix = i # js\<close> False by auto
      then have "set ix \<subseteq> fst ` set mws" using Cons.prems(3) e by auto
      with Cons.IH[of ix s] Cons.prems n False \<open>ix = i # js\<close> e show ?thesis by simp
    qed
  qed
qed simp

text \<open>C37: For the packed indices of a rule - sorted, without repetition - the sliders enable exactly the middleware at
  those indices: before the handler in the order of the application, after it in the reverse order.
\<close>

theorem chosen_middleware_runs:
  assumes "sorted_wrt (<) ix" and "\<forall>i\<in>set ix. i < length mws"
  shows "middleware_call_helper (dynamic_forward ix) 0 mws s = run_chain (chosen ix mws) s \<and>
    after_handlers_call_helper (dynamic_backward ix) mws s = fold after_handle (rev (chosen ix mws)) s"
proof
  show "middleware_call_helper (dynamic_forward ix) 0 mws s = run_chain (chosen ix mws) s"
    using helper_dynamic[OF assms(1), of 0 mws s] by (simp add: dynamic_forward_def chosen_def)
  have "after_handlers_from (Dynamic (rev ix)) (rev (zip [0..<length mws] mws)) s =
      fold after_handle (map snd (filter (\<lambda>(m, mw). m \<in> set (rev ix)) (rev (zip [0..<length mws] mws)))) s"
  proof (rule after_from_dynamic)
    show "sorted_wrt (>) (rev ix)" using assms(1) by (simp add: sorted_wrt_rev)
    show "sorted_wrt (>) (map fst (rev (zip [0..<length mws] mws)))"
      by (simp add: rev_map[symmetric] sorted_wrt_rev)
    have "fst ` set (zip [0..<length mws] mws) = {0..<length mws}"
      by (simp add: image_set)
    then show "set (rev ix) \<subseteq> fst ` set (rev (zip [0..<length mws] mws))" using assms(2) by auto
  qed
  then show "after_handlers_call_helper (dynamic_backward ix) mws s = fold after_handle (rev (chosen ix mws)) s"
    by (simp add: after_handlers_call_helper_def dynamic_backward_def chosen_def rev_map rev_filter)
qed

definition tag_mw :: "nat \<Rightarrow> nat list middleware" where
  "tag_mw n =
     \<lparr>call_global = False, before_handle = (\<lambda>(q, r, k). (q, r, k @ [n])), after_handle = (\<lambda>(q, r, k). (q, r, k @ [n + 10]))\<rparr>"

theorem chosen_middleware_runs_witness:
  "middleware_call_helper (dynamic_forward [0, 2]) 0 [tag_mw 0, tag_mw 1, tag_mw 2] (empty_request, empty_response, []) =
     (False, empty_request, empty_response, [0, 2]) \<and>
   after_handlers_call_helper (dynamic_backward [0, 2]) [tag_mw 0, tag_mw 1, tag_mw 2] (empty_request, empty_response, []) =
     (empty_request, empty_response, [12, 10])"
  using chosen_middleware_runs[of "[0, 2]" "[tag_mw 0, tag_mw 1, tag_mw 2]" "(empty_request, empty_response, [])"]
  by (simp add: chosen_def tag_mw_def mw_response_def empty_response_def upt_rec)

text \<open>A chain that is not stopped runs every before handler in order and no after handler.\<close>

lemma run_chain_through:
  "fst (run_chain mws s) = False \<Longrightarrow> snd (run_chain mws s) = fold before_handle mws s"
proof (induction mws arbitrary: s)
  case (Cons mw mws)
  then show ?case
    using Cons.IH[of "before_handle mw s"]
    by (cases "run_chain mws (before_handle mw s)") (auto simp: Let_def split: if_splits)
qed simp

end
