(* ===== verification/Timer.thy ===== *)
theory Timer
  imports Prelude
begin

text \<open>
  The task timer (\<open>crow/task_timer.h\<close>), with which connections close themselves after a time without a request.
  Time is a number of milliseconds; a task is a value of type \<open>'t\<close> that the tick hands to the caller to run. The
  map of tasks is the list of its entries, by increasing identifier.
\<close>

subsection \<open>Operations\<close>

record 't task_timer =
  tasks :: "(nat \<times> nat \<times> 't) list"
  highest_id :: nat
  tick_length :: nat
  default_timeout :: nat

definition new_timer :: "nat \<Rightarrow> 't task_timer" where
  "new_timer tick = \<lparr>tasks = [], highest_id = 0, tick_length = tick, default_timeout = 5\<rparr>"

definition timer_cancel :: "nat \<Rightarrow> 't task_timer \<Rightarrow> 't task_timer" where
  "timer_cancel i tm = tm\<lparr>tasks := filter (\<lambda>(j, d, t). j \<noteq> i) (tasks tm)\<rparr>"

text \<open>\<open>std::map::insert\<close> leaves an entry that is there.\<close>

fun insert_task :: "nat \<times> nat \<times> 't \<Rightarrow> (nat \<times> nat \<times> 't) list \<Rightarrow> (nat \<times> nat \<times> 't) list" where
  "insert_task e [] = [e]"
| "insert_task e (f # fs) =
     (if fst e < fst f then e # f # fs else if fst e = fst f then f # fs else f # insert_task e fs)"

definition timer_schedule_in :: "nat \<Rightarrow> 't \<Rightarrow> nat \<Rightarrow> 't task_timer \<Rightarrow> nat \<times> 't task_timer" where
  "timer_schedule_in now t timeout tm =
     (let i = highest_id tm + 1
      in (i, tm\<lparr>highest_id := i, tasks := insert_task (i, now + timeout * tick_length tm, t) (tasks tm)\<rparr>))"

definition timer_schedule :: "nat \<Rightarrow> 't \<Rightarrow> 't task_timer \<Rightarrow> nat \<times> 't task_timer" where
  "timer_schedule now t tm = timer_schedule_in now t (default_timeout tm) tm"

definition set_default_timeout :: "nat \<Rightarrow> 't task_timer \<Rightarrow> 't task_timer" where
  "set_default_timeout n tm = tm\<lparr>default_timeout := n\<rparr>"

text \<open>The tasks that a tick runs, in order, and the timer after it.\<close>

definition process_tasks :: "nat \<Rightarrow> 't task_timer \<Rightarrow> 't list \<times> 't task_timer" where
  "process_tasks now tm =
     (let finished = filter (\<lambda>(i, d, t). d < now) (tasks tm);
          rest = filter (\<lambda>(i, d, t). i \<notin> fst ` set finished) (tasks tm)
      in (map (\<lambda>(i, d, t). t) finished,
          tm\<lparr>tasks := rest, highest_id := (if rest = [] then 0 else highest_id tm)\<rparr>))"

definition tick_handler :: "bool \<Rightarrow> nat \<Rightarrow> 't task_timer \<Rightarrow> 't list \<times> 't task_timer" where
  "tick_handler ec now tm = (if ec then ([], tm) else process_tasks now tm)"

subsection \<open>The invariant\<close>

definition timer_ok :: "'t task_timer \<Rightarrow> bool" where
  "timer_ok tm \<longleftrightarrow> sorted_wrt (<) (map fst (tasks tm)) \<and> (\<forall>e\<in>set (tasks tm). fst e \<le> highest_id tm)"

lemma insert_task_last:
  "\<forall>f\<in>set fs. fst f < fst e \<Longrightarrow> insert_task e fs = fs @ [e]"
  by (induction fs) auto

lemma timer_ok_new: "timer_ok (new_timer n)"
  by (simp add: timer_ok_def new_timer_def)

lemma timer_ok_cancel: "timer_ok tm \<Longrightarrow> timer_ok (timer_cancel i tm)"
  by (auto simp: timer_ok_def timer_cancel_def sorted_wrt_map intro: sorted_wrt_filter)

lemma schedule_tasks:
  "timer_ok tm \<Longrightarrow> timer_schedule_in now t timeout tm =
     (highest_id tm + 1, tm\<lparr>highest_id := highest_id tm + 1,
        tasks := tasks tm @ [(highest_id tm + 1, now + timeout * tick_length tm, t)]\<rparr>)"
  by (simp add: timer_schedule_in_def Let_def, subst insert_task_last) (auto simp: timer_ok_def)

lemma timer_ok_schedule: "timer_ok tm \<Longrightarrow> timer_ok (snd (timer_schedule_in now t timeout tm))"
  by (subst schedule_tasks) (auto simp: timer_ok_def sorted_wrt_append)

lemma process_tasks_eq:
  assumes "timer_ok tm"
  shows "process_tasks now tm =
    (let rest = filter (\<lambda>(i, d, t). now \<le> d) (tasks tm)
     in (map (\<lambda>(i, d, t). t) (filter (\<lambda>(i, d, t). d < now) (tasks tm)),
         tm\<lparr>tasks := rest, highest_id := (if rest = [] then 0 else highest_id tm)\<rparr>))"
proof -
  have dist: "distinct (map fst (tasks tm))" using assms by (auto simp: timer_ok_def strict_sorted_iff)
  have "fst e \<notin> fst ` set (filter (\<lambda>(i, d, t). d < now) (tasks tm)) \<longleftrightarrow> now \<le> fst (snd e)" if e: "e \<in> set (tasks tm)" for e
  proof
    assume "fst e \<notin> fst ` set (filter (\<lambda>(i, d, t). d < now) (tasks tm))"
    moreover have "fst (snd e) < now \<Longrightarrow> e \<in> set (filter (\<lambda>(i, d, t). d < now) (tasks tm))" using e by (simp add: split_beta)
    ultimately show "now \<le> fst (snd e)" by (meson imageI linorder_not_less)
  next
    assume le: "now \<le> fst (snd e)"
    show "fst e \<notin> fst ` set (filter (\<lambda>(i, d, t). d < now) (tasks tm))"
    proof
      assume "fst e \<in> fst ` set (filter (\<lambda>(i, d, t). d < now) (tasks tm))"
      then obtain f where f: "f \<in> set (tasks tm)" "fst (snd f) < now" "fst e = fst f" by auto
      with dist e have "e = f" by (metis eq_key_imp_eq_value prod.collapse)
      with f le show False by simp
    qed
  qed
  then have "filter (\<lambda>(i, d, t). i \<notin> fst ` set (filter (\<lambda>(i, d, t). d < now) (tasks tm))) (tasks tm) =
      filter (\<lambda>(i, d, t). now \<le> d) (tasks tm)"
    by (intro filter_cong) (auto simp: split_beta)
  then show ?thesis by (simp only: process_tasks_def Let_def)
qed

lemma timer_ok_process: "timer_ok tm \<Longrightarrow> timer_ok (snd (process_tasks now tm))"
proof -
  assume ok: "timer_ok tm"
  define rest where "rest = filter (\<lambda>(i, d, t). now \<le> d) (tasks tm)"
  have "sorted_wrt (<) (map fst rest)" "\<forall>e\<in>set rest. fst e \<le> highest_id tm"
    using ok by (auto simp: timer_ok_def rest_def sorted_wrt_map intro: sorted_wrt_filter)
  then show ?thesis
    by (cases rest) (auto simp: process_tasks_eq[OF ok] Let_def rest_def[symmetric] timer_ok_def)
qed

text \<open>C36: A tick runs exactly the tasks whose time has passed, each once, and keeps the others.
\<close>

theorem tick_runs_due_tasks:
  assumes "timer_ok tm" and "process_tasks now tm = (run, tm')"
  shows "run = map (\<lambda>(i, d, t). t) (filter (\<lambda>(i, d, t). d < now) (tasks tm)) \<and>
    tasks tm' = filter (\<lambda>(i, d, t). now \<le> d) (tasks tm) \<and> timer_ok tm'"
  using assms(2) process_tasks_eq[OF assms(1), of now] timer_ok_process[OF assms(1), of now] by (auto simp: Let_def)

lemma tick_runs_due_tasks_witness:
  "process_tasks 6000 (snd (timer_schedule 3000 ''b'' (snd (timer_schedule 0 ''a'' (new_timer 1000))))) =
     ([''a''], \<lparr>tasks = [(2, 8000, ''b'')], highest_id = 2, tick_length = 1000, default_timeout = 5\<rparr>) \<and>
   timer_ok \<lparr>tasks = [(2, 8000, ''b'')], highest_id = 2, tick_length = 1000, default_timeout = 5\<rparr>"
proof -
  let ?tm = "snd (timer_schedule 3000 ''b'' (snd (timer_schedule 0 ''a'' (new_timer 1000))))"
  have "timer_ok ?tm" by (simp add: timer_schedule_def timer_ok_schedule timer_ok_new)
  moreover have run: "process_tasks 6000 ?tm =
     ([''a''], \<lparr>tasks = [(2, 8000, ''b'')], highest_id = 2, tick_length = 1000, default_timeout = 5\<rparr>)" by code_simp
  ultimately show ?thesis using tick_runs_due_tasks[of ?tm 6000] by blast
qed

text \<open>
  Identifiers are issued again once no task is left, so a stale one cancels the task of somebody else.
\<close>

lemma stale_identifier_cancels_another:
  "let (i, t1) = timer_schedule 0 ''first'' (new_timer 1000);
       (run, t2) = process_tasks 6000 t1;
       (j, t3) = timer_schedule 6000 ''second'' t2
   in run = [''first''] \<and> i = j \<and> tasks (timer_cancel i t3) = []"
  by code_simp

end
