(* ===== verification/Connection.thy ===== *)
theory Connection
  imports Requests Router Middleware Timer
begin

text \<open>
  A connection (\<open>crow/http_connection.h\<close>) with the application behind it (\<open>crow/app.h\<close>,
  \<open>Router::handle_rule\<close> of \<open>crow/routing.h\<close>): what a connection does between the bytes it reads and the bytes
  it writes. The HTTP parser reaches it through its three callbacks.

  The socket is what has been written to it and whether it is open; errors of the peer are not modelled. The
  buffers of a response are one text. \<open>'k\<close> is the state of the application and of the contexts of the middleware.
\<close>

subsection \<open>The application\<close>

text \<open>
  What a route handler does with its response: it returns one, changes the one it was given and ends it now or
  later, or throws.
\<close>

datatype handled = Answer response | Ends response | Later response | Throws exn

record ('h, 'k) crow_app =
  app_router :: "'h router"
  app_middlewares :: "'k middleware list"
  app_run :: "'h rule \<Rightarrow> routing_params \<Rightarrow> request \<Rightarrow> response \<Rightarrow> 'k \<Rightarrow> handled \<times> 'k"
  app_fresh :: "'k \<Rightarrow> 'k"
  app_server_name :: string
  app_date :: string
  app_stream_threshold :: nat
  app_file :: "string \<Rightarrow> string option"
  app_order :: "ci_map \<Rightarrow> ci_map"

text \<open>
  \<open>app_run\<close> is \<open>rule.handle\<close>; \<open>app_fresh\<close> makes new contexts; \<open>app_file\<close> is the content of a file that
  \<open>stat\<close> finds; \<open>app_order\<close> is the order in which an \<open>unordered_multimap\<close> is iterated.

  \<open>complete_request_handler_\<close>: none, one that does nothing, that of the connection, or the one \<open>handle_rule\<close> puts
  before it.
\<close>

datatype 'h completion = No_completion | Ignore_completion | Complete_request | Rule_then_complete "'h rule"

record ('h, 'k) connection =
  cn_id :: nat
  cn_now :: nat
  cn_timer :: "nat task_timer"
  cn_task_id :: nat
  cn_req :: request
  cn_res :: response
  cn_completion :: "'h completion"
  cn_found :: "routing_handle_result \<times> http_method"
  cn_close :: bool
  cn_continue :: bool
  cn_need_after :: bool
  cn_need_read :: bool
  cn_add_keep_alive :: bool
  cn_open :: bool
  cn_reading :: bool
  cn_buffers :: string
  cn_body_copy :: string
  cn_wire :: string
  cn_app :: 'k
  cn_upgraded :: "'h rule option"
  cn_crashed :: bool
  cn_calls :: "parser_call list"

definition new_connection :: "nat \<Rightarrow> nat \<Rightarrow> nat task_timer \<Rightarrow> 'k \<Rightarrow> ('h, 'k) connection" where
  "new_connection i now tm k =
     \<lparr>cn_id = i, cn_now = now, cn_timer = tm, cn_task_id = 0, cn_req = empty_request, cn_res = empty_response,
      cn_completion = No_completion, cn_found = (nothing_found, InternalMethodCount), cn_close = False,
      cn_continue = False, cn_need_after = False, cn_need_read = False, cn_add_keep_alive = False, cn_open = True,
      cn_reading = False, cn_buffers = [], cn_body_copy = [], cn_wire = [], cn_app = k, cn_upgraded = None,
      cn_crashed = False, cn_calls = []\<rparr>"

subsection \<open>The timer and the parser\<close>

definition cancel_deadline_timer :: "('h, 'k) connection \<Rightarrow> ('h, 'k) connection" where
  "cancel_deadline_timer c = c\<lparr>cn_timer := timer_cancel (cn_task_id c) (cn_timer c)\<rparr>"

definition start_deadline :: "('h, 'k) connection \<Rightarrow> ('h, 'k) connection" where
  "start_deadline c =
     (let d = cancel_deadline_timer c
      in case timer_schedule (cn_now d) (cn_id d) (cn_timer d) of (i, tm) \<Rightarrow> d\<lparr>cn_timer := tm, cn_task_id := i\<rparr>)"

text \<open>The task of the deadline.\<close>

definition deadline_task :: "('h, 'k) connection \<Rightarrow> ('h, 'k) connection" where
  "deadline_task c = (if \<not> cn_open c then c else c\<lparr>cn_open := False\<rparr>)"

definition call_parser :: "parser_call \<Rightarrow> ('h, 'k) connection \<Rightarrow> ('h, 'k) connection" where
  "call_parser p c = c\<lparr>cn_calls := cn_calls c @ [p]\<rparr>"

definition do_read :: "('h, 'k) connection \<Rightarrow> ('h, 'k) connection" where
  "do_read c = c\<lparr>cn_reading := True\<rparr>"

subsection \<open>Writing a response\<close>

definition send :: "string \<Rightarrow> ('h, 'k) connection \<Rightarrow> ('h, 'k) connection" where
  "send s c = (if cn_open c then c\<lparr>cn_wire := cn_wire c @ s\<rparr> else c)"

definition do_write_sync :: "string \<Rightarrow> ('h, 'k) connection \<Rightarrow> ('h, 'k) connection" where
  "do_write_sync s c =
     (let d = (send s c)\<lparr>cn_res := response_clear (cn_res c), cn_body_copy := []\<rparr>
      in if cn_continue d then d\<lparr>cn_continue := False\<rparr> else call_parser Call_clear d)"

definition status_texts :: "(int \<times> string) list" where
  "status_texts =
     [(100, ''HTTP/1.1 100 Continue''), (101, ''HTTP/1.1 101 Switching Protocols''),
      (200, ''HTTP/1.1 200 OK''), (201, ''HTTP/1.1 201 Created''), (202, ''HTTP/1.1 202 Accepted''),
      (203, ''HTTP/1.1 203 Non-Authoritative Information''), (204, ''HTTP/1.1 204 No Content''),
      (205, ''HTTP/1.1 205 Reset Content''), (206, ''HTTP/1.1 206 Partial Content''),
      (300, ''HTTP/1.1 300 Multiple Choices''), (301, ''HTTP/1.1 301 Moved Permanently''),
      (302, ''HTTP/1.1 302 Found''), (303, ''HTTP/1.1 303 See Other''), (304, ''HTTP/1.1 304 Not Modified''),
      (307, ''HTTP/1.1 307 Temporary Redirect''), (308, ''HTTP/1.1 308 Permanent Redirect''),
      (400, ''HTTP/1.1 400 Bad Request''), (401, ''HTTP/1.1 401 Unauthorized''), (403, ''HTTP/1.1 403 Forbidden''),
      (404, ''HTTP/1.1 404 Not Found''), (405, ''HTTP/1.1 405 Method Not Allowed''),
      (406, ''HTTP/1.1 406 Not Acceptable''), (407, ''HTTP/1.1 407 Proxy Authentication Required''),
      (409, ''HTTP/1.1 409 Conflict''), (410, ''HTTP/1.1 410 Gone''), (413, ''HTTP/1.1 413 Payload Too Large''),
      (415, ''HTTP/1.1 415 Unsupported Media Type''), (416, ''HTTP/1.1 416 Range Not Satisfiable''),
      (417, ''HTTP/1.1 417 Expectation Failed''), (428, ''HTTP/1.1 428 Precondition Required''),
      (429, ''HTTP/1.1 429 Too Many Requests''), (451, ''HTTP/1.1 451 Unavailable For Legal Reasons''),
      (500, ''HTTP/1.1 500 Internal Server Error''), (501, ''HTTP/1.1 501 Not Implemented''),
      (502, ''HTTP/1.1 502 Bad Gateway''), (503, ''HTTP/1.1 503 Service Unavailable''),
      (504, ''HTTP/1.1 504 Gateway Timeout''), (506, ''HTTP/1.1 506 Variant Also Negotiates'')]"

abbreviation crlf :: string where "crlf \<equiv> [cr, lf]"

definition status_line :: "int \<Rightarrow> string option" where
  "status_line n = map_option (\<lambda>s. s @ crlf) (map_of status_texts n)"

text \<open>
  \<open>prepare_buffers\<close> for an open socket: the response with its code and its body settled, and the text of its head.
\<close>

definition settle_response :: "response \<Rightarrow> response" where
  "settle_response r =
     (let r1 = (if status_line (code r) = None then r\<lparr>code := 500\<rparr> else r)
      in if 400 \<le> code r1 \<and> body r1 = [] then r1\<lparr>body := drop 9 (the (status_line (code r1)))\<rparr> else r1)"

definition header_texts :: "ci_map \<Rightarrow> string" where
  "header_texts hs = concat (map (\<lambda>(k, v). k @ '': '' @ v @ crlf) hs)"

definition response_head :: "('h, 'k) crow_app \<Rightarrow> bool \<Rightarrow> response \<Rightarrow> string" where
  "response_head a keep r =
     the (status_line (code r)) @ header_texts (app_order a (headers r)) @
     (if \<not> manual_length_header r \<and> ci_count ''content-length'' (headers r) = 0
      then ''Content-Length: '' @ dec_digits (length (body r)) @ crlf else []) @
     (if ci_count ''server'' (headers r) = 0 then ''Server: '' @ app_server_name a @ crlf else []) @
     (if ci_count ''date'' (headers r) = 0 then ''Date: '' @ app_date a @ crlf else []) @
     (if keep then ''Connection: Keep-Alive'' @ crlf else []) @ crlf"

definition prepare_buffers :: "('h, 'k) crow_app \<Rightarrow> ('h, 'k) connection \<Rightarrow> ('h, 'k) connection" where
  "prepare_buffers a c =
     (let d = c\<lparr>cn_completion := No_completion\<rparr>
      in if \<not> cn_open d then d
         else let r = settle_response (cn_res d)
              in d\<lparr>cn_res := r, cn_buffers := response_head a (cn_add_keep_alive d) r\<rparr>)"

function chunks_of :: "string \<Rightarrow> string list" where
  "chunks_of s = (if s = [] then [] else take 16384 s # chunks_of (drop 16384 s))"
  by pat_completeness auto
termination by (relation "measure length") auto

declare chunks_of.simps [simp del]

text \<open>
  A write without an error code throws when the socket is closed. After the chunks the response is ended, with no
  handler set, and cleared.
\<close>

definition finish_stream :: "('h, 'k) connection \<Rightarrow> ('h, 'k) connection" where
  "finish_stream c =
     (let d = (if cn_close c then c\<lparr>cn_open := False\<rparr> else c)
      in call_parser Call_clear (d\<lparr>cn_res := response_clear (response_end None (cn_res d)), cn_buffers := []\<rparr>))"

definition do_write_static :: "('h, 'k) crow_app \<Rightarrow> ('h, 'k) connection \<Rightarrow> ('h, 'k) connection" where
  "do_write_static a c =
     (if \<not> cn_open c then c\<lparr>cn_crashed := True\<rparr>
      else finish_stream (fold do_write_sync
             (case app_file a (file_path (cn_res c)) of None \<Rightarrow> [] | Some s \<Rightarrow> chunks_of s) (send (cn_buffers c) c)))"

definition do_write_general :: "('h, 'k) crow_app \<Rightarrow> ('h, 'k) connection \<Rightarrow> ('h, 'k) connection" where
  "do_write_general a c =
     (if length (body (cn_res c)) < app_stream_threshold a then
        let b = body (cn_res c);
            d = do_write_sync (cn_buffers c @ b)
                  (c\<lparr>cn_res := (cn_res c)\<lparr>body := cn_body_copy c\<rparr>, cn_body_copy := b, cn_buffers := cn_buffers c @ b\<rparr>)
        in if cn_need_read d then do_read (start_deadline (d\<lparr>cn_need_read := False\<rparr>)) else d
      else if \<not> cn_open c then c\<lparr>cn_crashed := True\<rparr>
      else finish_stream (fold do_write_sync (chunks_of (body (cn_res c)))
             (cancel_deadline_timer (send (cn_buffers c) c))))"

definition mw_state_of :: "('h, 'k) connection \<Rightarrow> 'k mw_state" where
  "mw_state_of c = (cn_req c, cn_res c, cn_app c)"

definition with_mw_state :: "'k mw_state \<Rightarrow> ('h, 'k) connection \<Rightarrow> ('h, 'k) connection" where
  "with_mw_state s c = (case s of (q, r, k) \<Rightarrow> c\<lparr>cn_req := q, cn_res := r, cn_app := k\<rparr>)"

definition complete_request :: "('h, 'k) crow_app \<Rightarrow> ('h, 'k) connection \<Rightarrow> ('h, 'k) connection" where
  "complete_request a c =
     (let d = (if cn_need_after c
               then with_mw_state (after_handlers_call_helper Only_global (app_middlewares a) (mw_state_of c))
                      (c\<lparr>cn_need_after := False\<rparr>)
               else c);
          e = prepare_buffers a d
      in if file_path (cn_res e) \<noteq> [] then do_write_static a e else do_write_general a e)"

text \<open>\<open>response::end\<close> on the response of the connection.\<close>

definition run_completion :: "('h, 'k) crow_app \<Rightarrow> 'h completion \<Rightarrow> ('h, 'k) connection \<Rightarrow> ('h, 'k) connection" where
  "run_completion a f c =
     (case f of
        No_completion \<Rightarrow> c
      | Ignore_completion \<Rightarrow> c
      | Complete_request \<Rightarrow> complete_request a c
      | Rule_then_complete r \<Rightarrow>
          complete_request a
            (with_mw_state (after_handlers_call_helper (dynamic_backward (rl_mw r)) (app_middlewares a) (mw_state_of c)) c))"

definition conn_end :: "('h, 'k) crow_app \<Rightarrow> ('h, 'k) connection \<Rightarrow> ('h, 'k) connection" where
  "conn_end a c =
     (if completed (cn_res c) then c
      else
        let d = c\<lparr>cn_res := response_end None (cn_res c)\<rparr>
        in if cn_completion d = No_completion then d
           else let e = run_completion a (cn_completion d) d
                in e\<lparr>cn_res := (cn_res e)\<lparr>manual_length_header := False, skip_body := False\<rparr>\<rparr>)"

subsection \<open>The callbacks of the parser\<close>

definition conn_handle_url :: "('h, 'k) crow_app \<Rightarrow> ('h, 'k) connection \<Rightarrow> ('h, 'k) connection" where
  "conn_handle_url a c =
     (case handle_initial (response_end None) (app_router a) (cn_req c) (cn_res c) of
        (res, found, m) \<Rightarrow>
          let d = c\<lparr>cn_res := res, cn_found := (found, m)\<rparr>
          in if found_rule found = 0
             then complete_request a ((call_parser Call_done d)\<lparr>cn_need_after := True\<rparr>)
             else d)"

definition conn_handle_header :: "('h, 'k) crow_app \<Rightarrow> ('h, 'k) connection \<Rightarrow> ('h, 'k) connection" where
  "conn_handle_header a c =
     (if http_ver_major (cn_req c) = 1 \<and> http_ver_minor (cn_req c) = 1 \<and>
         get_header_value (req_headers (cn_req c)) ''expect'' = ''100-continue''
      then do_write_sync (''HTTP/1.1 100 Continue'' @ crlf @ crlf)
             (c\<lparr>cn_continue := True, cn_buffers := ''HTTP/1.1 100 Continue'' @ crlf @ crlf\<rparr>)
      else c)"

text \<open>\<open>rule.handle\<close> in the \<open>try\<close> of \<open>Router::handle\<close>.\<close>

definition run_rule :: "('h, 'k) crow_app \<Rightarrow> 'h rule \<Rightarrow> routing_params \<Rightarrow> ('h, 'k) connection \<Rightarrow> ('h, 'k) connection" where
  "run_rule a r ps c =
     (case app_run a r ps (cn_req c) (cn_res c) (cn_app c) of
        (out, k) \<Rightarrow>
          let d = c\<lparr>cn_app := k\<rparr>
          in case out of
               Answer r \<Rightarrow> conn_end a (d\<lparr>cn_res := response_move (cn_res d) r\<rparr>)
             | Ends r \<Rightarrow> conn_end a (d\<lparr>cn_res := r\<rparr>)
             | Later r \<Rightarrow> d\<lparr>cn_res := r\<rparr>
             | Throws x \<Rightarrow> conn_end a (d\<lparr>cn_res := exception_handler (app_router a) x (cn_res d)\<rparr>))"

text \<open>\<open>Router::handle_rule\<close>; with no middleware at all it is only the call of the rule.\<close>

definition handle_rule :: "('h, 'k) crow_app \<Rightarrow> 'h rule \<Rightarrow> routing_params \<Rightarrow> ('h, 'k) connection \<Rightarrow> ('h, 'k) connection" where
  "handle_rule a r ps c =
     (if app_middlewares a = [] \<or> rl_mw r = [] then run_rule a r ps c
      else
        let d = with_mw_state (snd (middleware_call_helper (dynamic_forward (rl_mw r)) 0 (app_middlewares a)
                  (mw_state_of c))) (c\<lparr>cn_completion := Ignore_completion\<rparr>)
        in if completed (cn_res d) then run_completion a (cn_completion c) d
           else run_rule a r ps (d\<lparr>cn_completion := Rule_then_complete r\<rparr>))"

definition app_handle :: "('h, 'k) crow_app \<Rightarrow> ('h, 'k) connection \<Rightarrow> ('h, 'k) connection" where
  "app_handle a c =
     (case cn_found c of (found, m) \<Rightarrow>
        case router_handle (\<lambda>r. r) (app_router a) (cn_req c) (cn_res c) found m of
          Answered r \<Rightarrow> conn_end a (c\<lparr>cn_res := r\<rparr>)
        | Run_rule r ps res \<Rightarrow> handle_rule a r ps (c\<lparr>cn_res := res\<rparr>)
        | _ \<Rightarrow> c\<lparr>cn_crashed := True\<rparr>)"

text \<open>
  \<open>handle_upgrade\<close>: a WebSocket rule takes the socket over; the default of the other rules answers 404 into a
  response that has no completion handler.
\<close>

definition conn_handle_upgrade :: "('h, 'k) crow_app \<Rightarrow> ('h, 'k) connection \<Rightarrow> ('h, 'k) connection" where
  "conn_handle_upgrade a c =
     (case router_handle_upgrade (response_end None) (app_router a) (cn_req c) (cn_res c) of
        Answered r \<Rightarrow> c\<lparr>cn_res := r\<rparr>
      | Run_rule r ps res \<Rightarrow>
          (if rl_kind r = Websocket_rule then c\<lparr>cn_res := res, cn_upgraded := Some r, cn_open := False\<rparr>
           else c\<lparr>cn_res := response_end None (response_move res (response_code 404))\<rparr>)
      | _ \<Rightarrow> c\<lparr>cn_crashed := True\<rparr>)"

definition call_global_before :: "('h, 'k) crow_app \<Rightarrow> ('h, 'k) connection \<Rightarrow> ('h, 'k) connection" where
  "call_global_before a c =
     with_mw_state (snd (middleware_call_helper Only_global 0 (app_middlewares a) (mw_state_of c))) c"

definition handle_valid :: "('h, 'k) crow_app \<Rightarrow> ('h, 'k) connection \<Rightarrow> ('h, 'k) connection" where
  "handle_valid a c =
     (let d = call_global_before a (c\<lparr>cn_completion := No_completion\<rparr>)
      in if \<not> completed (cn_res d) then
           let e = app_handle a (d\<lparr>cn_completion := Complete_request, cn_need_after := True\<rparr>)
           in if cn_add_keep_alive e then e\<lparr>cn_res := set_header ''connection'' ''Keep-Alive'' (cn_res e)\<rparr> else e
         else complete_request a d)"

definition conn_handle :: "('h, 'k) crow_app \<Rightarrow> ('h, 'k) connection \<Rightarrow> ('h, 'k) connection" where
  "conn_handle a c0 =
     (let c1 = cancel_deadline_timer c0; req = cn_req c1;
          c = c1\<lparr>cn_add_keep_alive := keep_alive req, cn_close := close_connection req, cn_app := app_fresh a (cn_app c1)\<rparr>
      in if check_version req 1 1 \<and> ci_count ''host'' (req_headers req) = 0 then
           complete_request a (c\<lparr>cn_res := response_move (cn_res c) (response_code 400), cn_need_after := False\<rparr>)
         else if check_version req 1 1 \<and> upgrade req \<and> take 2 (req_get_header_value req ''upgrade'') \<noteq> ''h2'' then
           conn_handle_upgrade a ((call_global_before a c)\<lparr>cn_close := True\<rparr>)
         else handle_valid a (c\<lparr>cn_need_after := False\<rparr>))"

text \<open>The handlers the parser calls: each gets the request and leaves its calls of the parser behind.\<close>

definition as_handler ::
    "(('h, 'k) connection \<Rightarrow> ('h, 'k) connection) \<Rightarrow> request \<Rightarrow> ('h, 'k) connection \<Rightarrow> ('h, 'k) connection \<times> parser_call list" where
  "as_handler f q c = (let d = f (c\<lparr>cn_req := q, cn_calls := []\<rparr>) in (d\<lparr>cn_calls := []\<rparr>, cn_calls d))"

definition connection_handlers :: "('h, 'k) crow_app \<Rightarrow> ('h, 'k) connection handlers" where
  "connection_handlers a =
     \<lparr>handle_url = as_handler (conn_handle_url a), handle_header = as_handler (conn_handle_header a),
      handle_message = as_handler (conn_handle a)\<rparr>"

subsection \<open>The life of a connection\<close>

definition update_conn :: "(('h, 'k) connection \<Rightarrow> ('h, 'k) connection) \<Rightarrow>
    ('h, 'k) connection http_parser \<Rightarrow> ('h, 'k) connection http_parser" where
  "update_conn f p = p\<lparr>connection := f (connection p)\<rparr>"

definition conn_start :: "bool \<Rightarrow> ('h, 'k) connection http_parser \<Rightarrow> ('h, 'k) connection http_parser" where
  "conn_start ec p =
     (if ec then p else update_conn do_read (parser_clear (update_conn start_deadline p)))"

text \<open>The completion of a read, with an error or the bytes that came; \<open>None\<close> is a failed assertion of the parser.\<close>

definition on_read :: "('h, 'k) crow_app \<Rightarrow> nat \<Rightarrow> bool \<Rightarrow> string \<Rightarrow> ('h, 'k) connection http_parser \<Rightarrow>
    ('h, 'k) connection http_parser option" where
  "on_read a addr ec data p0 =
     (let p = update_conn (\<lambda>c. c\<lparr>cn_reading := False\<rparr>) p0;
          e = \<lparr>env_handlers = connection_handlers a, buffer_address = addr, buffer_data = data\<rparr>
      in Option.bind (if ec then Some (False, p) else feed e p) (\<lambda>(ret, q).
         if \<not> (ret \<and> cn_open (connection q)) then
           Option.bind (parser_done e (update_conn cancel_deadline_timer q)) (\<lambda>(_, s).
             Some (update_conn (\<lambda>c. c\<lparr>cn_open := False\<rparr>) s))
         else if cn_close (connection q) then
           map_option snd (parser_done e (update_conn cancel_deadline_timer q))
         else if \<not> cn_need_after (connection q) then Some (update_conn (\<lambda>c. do_read (start_deadline c)) q)
         else Some (update_conn (\<lambda>c. c\<lparr>cn_need_read := True\<rparr>) q)))"

subsection \<open>A request and its response\<close>

text \<open>A connection that waits for a request, with a response object that no request has touched yet.\<close>

definition clean :: "response \<Rightarrow> bool" where
  "clean r \<longleftrightarrow> \<not> completed r \<and> \<not> skip_body r \<and> \<not> manual_length_header r"

definition idle :: "('h, 'k) connection http_parser \<Rightarrow> bool" where
  "idle p \<longleftrightarrow> ready p \<and> cn_open (connection p) \<and> cn_completion (connection p) = No_completion \<and>
     \<not> cn_continue (connection p) \<and> \<not> cn_need_read (connection p) \<and> cn_body_copy (connection p) = [] \<and>
     \<not> cn_crashed (connection p) \<and> cn_upgraded (connection p) = None \<and> clean (cn_res (connection p))"

text \<open>The response object after a handler that does not leave it for later, before it is ended.\<close>

fun outcome :: "('h, 'k) crow_app \<Rightarrow> response \<Rightarrow> handled \<Rightarrow> response option" where
  "outcome a res (Answer r) = Some (response_move res r)"
| "outcome a res (Ends r) = Some r"
| "outcome a res (Throws x) = Some (exception_handler (app_router a) x res)"
| "outcome a res (Later r) = None"

text \<open>What is written for it: the response is ended and goes through the after handlers of the middleware.\<close>

definition reply :: "('h, 'k) crow_app \<Rightarrow> request \<Rightarrow> response \<Rightarrow> 'k \<Rightarrow> response \<times> 'k" where
  "reply a req r k =
     (case after_handlers_call_helper Only_global (app_middlewares a) (req, response_end None r, k) of
        (q, s, k') \<Rightarrow> (settle_response s, k'))"

lemma settle_response_fields [simp]:
  "file_path (settle_response r) = file_path r" "manual_length_header (settle_response r) = manual_length_header r"
  by (simp_all add: settle_response_def Let_def)

lemma send_fields [simp]:
  "cn_res (send s c) = cn_res c" "cn_continue (send s c) = cn_continue c" "cn_calls (send s c) = cn_calls c"
  by (simp_all add: send_def)

text \<open>\<open>complete_request\<close> on an open connection, for a response that is small and not a file.\<close>

lemma complete_small:
  assumes "cn_open c" "cn_need_after c" "\<not> cn_continue c" "\<not> cn_need_read c" "cn_body_copy c = []" "cn_calls c = []"
    and after: "after_handlers_call_helper Only_global (app_middlewares a) (cn_req c, cn_res c, cn_app c) = (q, s, k)"
    and s: "file_path s = []" "length (body (settle_response s)) < app_stream_threshold a"
  shows "\<exists>d. complete_request a c = d \<and>
    cn_wire d = cn_wire c @ response_head a (cn_add_keep_alive c) (settle_response s) @ body (settle_response s) \<and>
    cn_app d = k \<and> cn_calls d = [Call_clear] \<and> cn_open d \<and> cn_completion d = No_completion \<and> \<not> cn_continue d \<and>
    \<not> cn_need_read d \<and> cn_body_copy d = [] \<and> \<not> cn_need_after d \<and> cn_add_keep_alive d = cn_add_keep_alive c \<and>
    cn_close d = cn_close c \<and> cn_crashed d = cn_crashed c \<and> cn_upgraded d = cn_upgraded c \<and> \<not> completed (cn_res d)"
  using assms
  by (simp add: complete_request_def mw_state_of_def with_mw_state_def prepare_buffers_def Let_def do_write_general_def
      do_write_sync_def send_def call_parser_def response_clear_def)

lemma ready_after_clear:
  "hp_errno f = CHPE_OK \<Longrightarrow> handle_message h (hp_req f) (connection f) = (c, [Call_clear]) \<Longrightarrow>
   ready ((on_message_complete h f)\<lparr>hp_nread := 0\<rparr>) \<and> connection (on_message_complete h f) = c"
  by (simp add: on_message_complete_def run_handler_def parser_clear_def ready_def)

lemma start_deadline_fields [simp]:
  "cn_open (start_deadline c) = cn_open c" "cn_wire (start_deadline c) = cn_wire c" "cn_app (start_deadline c) = cn_app c"
  "cn_completion (start_deadline c) = cn_completion c" "cn_continue (start_deadline c) = cn_continue c"
  "cn_need_read (start_deadline c) = cn_need_read c" "cn_body_copy (start_deadline c) = cn_body_copy c"
  "cn_res (start_deadline c) = cn_res c" "cn_crashed (start_deadline c) = cn_crashed c" "cn_upgraded (start_deadline c) = cn_upgraded c"
  by (simp_all add: start_deadline_def cancel_deadline_timer_def Let_def split: prod.split)

lemma cancel_fields [simp]:
  "cn_req (cancel_deadline_timer c) = cn_req c" "cn_app (cancel_deadline_timer c) = cn_app c"
  "cn_res (cancel_deadline_timer c) = cn_res c" "cn_found (cancel_deadline_timer c) = cn_found c"
  "cn_open (cancel_deadline_timer c) = cn_open c" "cn_wire (cancel_deadline_timer c) = cn_wire c"
  "cn_completion (cancel_deadline_timer c) = cn_completion c" "cn_continue (cancel_deadline_timer c) = cn_continue c"
  "cn_need_read (cancel_deadline_timer c) = cn_need_read c" "cn_body_copy (cancel_deadline_timer c) = cn_body_copy c"
  "cn_crashed (cancel_deadline_timer c) = cn_crashed c" "cn_upgraded (cancel_deadline_timer c) = cn_upgraded c"
  "cn_calls (cancel_deadline_timer c) = cn_calls c"
  by (simp_all add: cancel_deadline_timer_def)

lemma handle_answers:
  assumes c: "cn_open c" "\<not> cn_continue c" "\<not> cn_need_read c" "cn_body_copy c = []" "cn_calls c = []"
      "\<not> cn_crashed c" "cn_upgraded c = None" "cn_res c = res" "cn_found c = (found, m')" "cn_req c = W"
    and W: "check_version W 1 1" "keep_alive W" "\<not> close_connection W" "\<not> upgrade W" "ci_count ''host'' (req_headers W) \<noteq> 0"
    and before: "middleware_call_helper Only_global 0 (app_middlewares a) (W, res, app_fresh a (cn_app c)) = (b, W, res, app_fresh a (cn_app c))"
    and route: "router_handle (\<lambda>r. r) (app_router a) W res found m' = Run_rule r ps res" "rl_mw r = []"
    and run: "app_run a r ps W res (app_fresh a (cn_app c)) = (out, k)" "outcome a res out = Some rr"
    and r: "\<not> completed res" "\<not> completed rr" "reply a W rr k = (s, k')" "file_path s = []"
      "length (body s) < app_stream_threshold a"
  shows "\<exists>d. as_handler (conn_handle a) W c = (d, [Call_clear]) \<and>
    cn_wire d = cn_wire c @ response_head a True s @ body s \<and> cn_app d = k' \<and> cn_open d \<and> \<not> cn_close d \<and>
    cn_completion d = No_completion \<and> \<not> cn_continue d \<and> \<not> cn_need_read d \<and> \<not> cn_need_after d \<and>
    cn_body_copy d = [] \<and> \<not> cn_crashed d \<and> cn_upgraded d = None \<and> clean (cn_res d)"
proof -
  obtain q t where t: "after_handlers_call_helper Only_global (app_middlewares a) (W, response_end None rr, k) = (q, t, k')"
    "s = settle_response t"
    using r(3) by (auto simp: reply_def split: prod.splits)
  define c1 where "c1 = cancel_deadline_timer (c\<lparr>cn_req := W, cn_calls := []\<rparr>)"
  define c2 where "c2 = c1\<lparr>cn_add_keep_alive := True, cn_close := False, cn_app := app_fresh a (cn_app c1), cn_need_after := False,
    cn_completion := No_completion\<rparr>"
  define c3 where "c3 = c2\<lparr>cn_completion := Complete_request, cn_need_after := True\<rparr>"
  define c4 where "c4 = c3\<lparr>cn_app := k, cn_res := response_end None rr\<rparr>"
  have c1: "cn_req c1 = W" "cn_app c1 = cn_app c" "cn_res c1 = res" "cn_found c1 = (found, m')" "cn_calls c1 = []"
    "cn_open c1" "\<not> cn_continue c1" "\<not> cn_need_read c1" "cn_body_copy c1 = []" "\<not> cn_crashed c1" "cn_upgraded c1 = None"
    "cn_wire c1 = cn_wire c"
    using c by (simp_all add: c1_def)
  have "call_global_before a c2 = c2"
    using c1 by (simp add: call_global_before_def before mw_state_of_def with_mw_state_def c2_def)
  then have hv: "handle_valid a (c1\<lparr>cn_add_keep_alive := True, cn_close := False, cn_app := app_fresh a (cn_app c1), cn_need_after := False\<rparr>) =
      (let e = app_handle a c3 in if cn_add_keep_alive e then e\<lparr>cn_res := set_header ''connection'' ''Keep-Alive'' (cn_res e)\<rparr> else e)"
    using c1 r(1) by (simp add: handle_valid_def Let_def c2_def c3_def)
  have "app_handle a c3 = conn_end a (c3\<lparr>cn_app := k, cn_res := rr\<rparr>)"
    using c1 route run by (cases out) (simp_all add: app_handle_def handle_rule_def run_rule_def Let_def c3_def c2_def)
  also have "\<dots> = (let e = complete_request a c4 in e\<lparr>cn_res := (cn_res e)\<lparr>manual_length_header := False, skip_body := False\<rparr>\<rparr>)"
    using r(2) by (simp add: conn_end_def Let_def c4_def c3_def c2_def run_completion_def)
  finally have ah: "app_handle a c3 = \<dots>" .
  have "cn_open c4 \<and> cn_need_after c4 \<and> \<not> cn_continue c4 \<and> \<not> cn_need_read c4 \<and> cn_body_copy c4 = [] \<and> cn_calls c4 = [] \<and>
      cn_req c4 = W \<and> cn_app c4 = k \<and> cn_wire c4 = cn_wire c \<and> cn_add_keep_alive c4 \<and> \<not> cn_close c4 \<and> \<not> cn_crashed c4 \<and>
      cn_upgraded c4 = None \<and> cn_res c4 = response_end None rr"
    using c1 by (simp add: c4_def c3_def c2_def)
  with complete_small[of c4 a q t k'] t r(4,5)
  have "cn_wire (complete_request a c4) = cn_wire c @ response_head a True s @ body s \<and> cn_app (complete_request a c4) = k' \<and>
      cn_calls (complete_request a c4) = [Call_clear] \<and> cn_open (complete_request a c4) \<and>
      cn_completion (complete_request a c4) = No_completion \<and> \<not> cn_continue (complete_request a c4) \<and>
      \<not> cn_need_read (complete_request a c4) \<and> cn_body_copy (complete_request a c4) = [] \<and>
      \<not> cn_need_after (complete_request a c4) \<and> cn_add_keep_alive (complete_request a c4) \<and> \<not> cn_close (complete_request a c4) \<and>
      \<not> cn_crashed (complete_request a c4) \<and> cn_upgraded (complete_request a c4) = None \<and>
      \<not> completed (cn_res (complete_request a c4))"
    by simp
  moreover have "conn_handle a (c\<lparr>cn_req := W, cn_calls := []\<rparr>) = handle_valid a (c1\<lparr>cn_add_keep_alive := True, cn_close := False,
      cn_app := app_fresh a (cn_app c1), cn_need_after := False\<rparr>)"
    using W c1 by (simp add: conn_handle_def Let_def c1_def)
  ultimately show ?thesis by (simp add: as_handler_def hv ah Let_def clean_def set_header_def)
qed

text \<open>
  A waiting connection that reads a well-formed HTTP/1.1 request for a route whose handler returns a response,
  ends the one it is given or throws, writes exactly the response that leaves - completed, passed through the after handlers of the middleware, with the head that
  the framework adds - and then waits for the next request with nothing left of this one.
\<close>

lemma request_is_answered:
  assumes "idle p"
    and "m \<noteq> InternalMethodCount" "m \<noteq> Connect" "url_path path" "url_query q"
    and "list_all (\<lambda>(k, v). plain_name k \<and> plain_value v) hs"
    and "bo \<noteq> None \<longrightarrow> length (the bo) \<le> ullong_max - 10"
    and "length (request_head m path q CHR ''1'' CHR ''1'' hs bo) < max_header_size"
    and "W = whole_request m path q CHR ''1'' CHR ''1'' hs bo"
    and "ci_count ''host'' (req_headers W) \<noteq> 0" and "get_header_value (req_headers W) ''expect'' \<noteq> ''100-continue''"
    and "handle_initial (response_end None) (app_router a) (url_request m path q) (cn_res (connection p)) = (res, found, m')"
    and "found_rule found \<noteq> 0" and "\<not> completed res"
    and "router_handle (\<lambda>r. r) (app_router a) W res found m' = Run_rule r ps res" and "rl_mw r = []"
    and "middleware_call_helper Only_global 0 (app_middlewares a) (W, res, app_fresh a (cn_app (connection p))) =
      (b, W, res, app_fresh a (cn_app (connection p)))"
    and "app_run a r ps W res (app_fresh a (cn_app (connection p))) = (out, k)"
    and "outcome a res out = Some rr" and "\<not> completed rr" and "reply a W rr k = (s, k')" and "file_path s = []" and "length (body s) < app_stream_threshold a"
  shows "\<exists>p'. on_read a addr False (request_text m path q CHR ''1'' CHR ''1'' hs bo) p = Some p' \<and> idle p' \<and>
    cn_wire (connection p') = cn_wire (connection p) @ response_head a True s @ body s \<and>
    cn_app (connection p') = k' \<and> cn_reading (connection p')"
proof -
  define h where "h = connection_handlers a"
  define p1 where "p1 = update_conn (\<lambda>c. c\<lparr>cn_reading := False\<rparr>) p"
  define c where "c = connection p1"
  define c1 where "c1 = c\<lparr>cn_req := url_request m path q, cn_calls := [], cn_res := res, cn_found := (found, m')\<rparr>"
  define hd where "hd = head_request m path q CHR ''1'' CHR ''1'' hs bo"
  define c2 where "c2 = c1\<lparr>cn_req := hd, cn_calls := []\<rparr>"
  have cp: "cn_res c = cn_res (connection p)" "cn_app c = cn_app (connection p)" "cn_wire c = cn_wire (connection p)"
    "cn_open c" "cn_completion c = No_completion" "\<not> cn_continue c" "\<not> cn_need_read c" "cn_body_copy c = []"
    "\<not> cn_crashed c" "cn_upgraded c = None"
    using assms(1) by (simp_all add: c_def p1_def update_conn_def idle_def)
  have p1: "ready p1" using assms(1) by (simp add: p1_def update_conn_def idle_def ready_def)
  have dig: "is_digit CHR ''1''" by code_simp
  have dv: "digit_val CHR ''1'' = 1" using digit_is_one(1)[OF dig] by simp
  have W: "W = hd\<lparr>req_body := (case bo of None \<Rightarrow> [] | Some s \<Rightarrow> s)\<rparr>" by (simp add: assms(9) whole_request_def hd_def)
  have hu: "handle_url h (url_request m path q) (connection p1) = (c1, [])"
    using assms(12,13) cp
    by (simp add: h_def connection_handlers_def as_handler_def conn_handle_url_def Let_def c_def[symmetric] c1_def)
  have hh: "handle_header h hd c1 = (c2, [])"
    using assms(11) W by (simp add: h_def connection_handlers_def as_handler_def conn_handle_header_def Let_def c2_def)
  obtain f where f: "feed \<lparr>env_handlers = h, buffer_address = addr, buffer_data = request_text m path q CHR ''1'' CHR ''1'' hs bo\<rparr> p1 =
      Some (True, (on_message_complete h f)\<lparr>hp_nread := 0\<rparr>)" "hp_req f = W" "connection f = c2" "hp_errno f = CHPE_OK"
    using feed_request[OF assms(2-5) dig dig assms(6-8) p1 hu hh[unfolded hd_def], of addr] assms(9) by blast
  have Wf: "check_version W 1 1" "keep_alive W" "\<not> close_connection W" "\<not> upgrade W"
    using dv by (simp_all add: W hd_def head_request_def check_version_def url_request_def empty_request_def)
  have "\<exists>d. as_handler (conn_handle a) W (c2\<lparr>cn_req := W\<rparr>) = (d, [Call_clear]) \<and>
    cn_wire d = cn_wire (c2\<lparr>cn_req := W\<rparr>) @ response_head a True s @ body s \<and> cn_app d = k' \<and> cn_open d \<and> \<not> cn_close d \<and>
    cn_completion d = No_completion \<and> \<not> cn_continue d \<and> \<not> cn_need_read d \<and> \<not> cn_need_after d \<and>
    cn_body_copy d = [] \<and> \<not> cn_crashed d \<and> cn_upgraded d = None \<and> clean (cn_res d)"
    by (rule handle_answers[where res = res and found = found and m' = m' and ps = ps and r = r and rr = rr and k = k and out = out])
      (use cp assms(10,14-23) Wf in \<open>simp_all add: c2_def c1_def\<close>)
  moreover have "as_handler (conn_handle a) W (c2\<lparr>cn_req := W\<rparr>) = as_handler (conn_handle a) W c2"
    by (simp add: as_handler_def)
  ultimately obtain d where d: "as_handler (conn_handle a) W c2 = (d, [Call_clear])"
    "cn_wire d = cn_wire c2 @ response_head a True s @ body s" "cn_app d = k'" "cn_open d" "\<not> cn_close d"
    "cn_completion d = No_completion" "\<not> cn_continue d" "\<not> cn_need_read d" "\<not> cn_need_after d"
    "cn_body_copy d = []" "\<not> cn_crashed d" "cn_upgraded d = None" "clean (cn_res d)"
    by auto
  define p2 where "p2 = (on_message_complete h f)\<lparr>hp_nread := 0\<rparr>"
  have p2: "ready p2" "connection p2 = d"
    using ready_after_clear[of f h d] f(2-4) d(1) by (simp_all add: p2_def h_def connection_handlers_def)
  have "on_read a addr False (request_text m path q CHR ''1'' CHR ''1'' hs bo) p =
      Some (update_conn (\<lambda>c. do_read (start_deadline c)) p2)"
    using f(1) p2(2) d by (simp add: on_read_def Let_def p1_def[symmetric] h_def[symmetric] p2_def[symmetric])
  moreover have "idle (update_conn (\<lambda>c. do_read (start_deadline c)) p2)"
    using p2 d by (simp add: idle_def update_conn_def ready_def do_read_def)
  ultimately show ?thesis using p2(2) d(2,3) cp by (simp add: update_conn_def do_read_def c2_def c1_def)
qed

subsection \<open>Requests that are not answered as they should be\<close>

lemma global_before_wire [simp]: "cn_wire (call_global_before a c) = cn_wire c" "cn_calls (call_global_before a c) = cn_calls c"
  by (simp_all add: call_global_before_def with_mw_state_def split: prod.split)

text \<open>
  A request to upgrade that no WebSocket rule takes: the 404 (or 405, or redirection) that the router puts into the
  response is never written, since the response has no completion handler.
\<close>

lemma refused_upgrade_is_silent:
  assumes "check_version (cn_req c) 1 1" "ci_count ''host'' (req_headers (cn_req c)) \<noteq> 0" "upgrade (cn_req c)"
    "take 2 (req_get_header_value (cn_req c) ''upgrade'') \<noteq> ''h2''"
  shows "cn_wire (conn_handle a c) = cn_wire c \<and> cn_calls (conn_handle a c) = cn_calls c \<and> cn_close (conn_handle a c) \<or>
    cn_crashed (conn_handle a c)"
  using assms
  by (auto simp: conn_handle_def Let_def conn_handle_upgrade_def split: action.split)

lemma sync_writes [simp]:
  "cn_need_read (fold do_write_sync bs c) = cn_need_read c" "cn_reading (fold do_write_sync bs c) = cn_reading c"
  by (induction bs arbitrary: c) (auto simp: do_write_sync_def send_def call_parser_def Let_def)

text \<open>A response that is ended later and streamed never starts the read that waits for it.\<close>

lemma late_stream_ends_reading:
  assumes "cn_need_read c" "app_stream_threshold a \<le> length (body (cn_res c))" "cn_open c"
  shows "cn_need_read (do_write_general a c) \<and> cn_reading (do_write_general a c) = cn_reading c"
  using assms
  by (simp add: do_write_general_def Let_def finish_stream_def call_parser_def send_def cancel_deadline_timer_def)

text \<open>An application without routes, and a connection that has answered a request before.\<close>

definition bare_app :: "(nat, unit) crow_app" where
  "bare_app =
     \<lparr>app_router = new_router, app_middlewares = [], app_run = (\<lambda>r ps q res k. (Answer (response_code 200), k)),
      app_fresh = (\<lambda>s. s), app_server_name = ''Crow/master'', app_date = ''today'', app_stream_threshold = 1048576,
      app_file = (\<lambda>f. None), app_order = (\<lambda>h. h)\<rparr>"

definition used_connection :: "(nat, unit) connection" where
  "used_connection = (new_connection 1 0 (new_timer 1000) ())
     \<lparr>cn_add_keep_alive := True, cn_res := set_header ''connection'' ''Keep-Alive'' empty_response\<rparr>"

text \<open>
  The answer to a request without a route says twice that the connection is kept - the flag and the header are left
  from the request before - and the connection is closed.
\<close>

lemma unrouted_request_drops_the_connection:
  "map_option (\<lambda>p. (cn_open (connection p), cn_wire (connection p)))
     (on_read bare_app 0 False (request_text Get ''/no'' [] CHR ''1'' CHR ''1'' [(''Host'', ''b'')] None) (http_parser_init used_connection)) =
   Some (False,
     ''HTTP/1.1 404 Not Found'' @ crlf @ ''connection: Keep-Alive'' @ crlf @ ''Content-Length: 15'' @ crlf @
     ''Server: Crow/master'' @ crlf @ ''Date: today'' @ crlf @ ''Connection: Keep-Alive'' @ crlf @ crlf @ ''404 Not Found'' @ crlf)"
  by code_simp

end
