(* ===== verification/Cors.thy ===== *)
theory Cors
  imports Http Utility
begin

text \<open>
  The CORS middleware (\<open>crow/middlewares/cors.h\<close>) and the way \<open>main.cpp\<close> configures it.

  A \<open>CORSRules&\<close> is a reference into the handler: here it names the default rule or a position of
  the vector of prefix rules. Adding a rule reallocates the vector, so a reference kept across
  \<open>prefix\<close> or \<open>blueprint\<close> dangles; a chain of calls, the only use in the server, keeps none.
\<close>

subsection \<open>Rules\<close>

record cors_rules =
  cr_ignore :: bool
  cr_origin :: string
  cr_methods :: string
  cr_headers :: string
  cr_exposed_headers :: string
  cr_max_age :: string
  cr_allow_credentials :: bool

definition new_rules :: cors_rules where
  "new_rules =
     \<lparr>cr_ignore = False, cr_origin = ''*'', cr_methods = ''*'', cr_headers = ''*'', cr_exposed_headers = [],
      cr_max_age = [], cr_allow_credentials = False\<rparr>"

definition add_list_item :: "string \<Rightarrow> string \<Rightarrow> string" where
  "add_list_item list val =
     (let l1 = (if list = ''*'' then [] else list);
          l2 = (if l1 \<noteq> [] then l1 @ '', '' else l1)
      in l2 @ val)"

definition cors_origin :: "string \<Rightarrow> cors_rules \<Rightarrow> cors_rules" where
  "cors_origin o' r = r\<lparr>cr_origin := o'\<rparr>"

fun cors_methods :: "http_method list \<Rightarrow> cors_rules \<Rightarrow> cors_rules" where
  "cors_methods [] r = r"
| "cors_methods (m # ms) r = cors_methods ms (r\<lparr>cr_methods := add_list_item (cr_methods r) (method_name m)\<rparr>)"

fun cors_headers :: "string list \<Rightarrow> cors_rules \<Rightarrow> cors_rules" where
  "cors_headers [] r = r"
| "cors_headers (h # hs) r = cors_headers hs (r\<lparr>cr_headers := add_list_item (cr_headers r) h\<rparr>)"

fun cors_expose :: "string list \<Rightarrow> cors_rules \<Rightarrow> cors_rules" where
  "cors_expose [] r = r"
| "cors_expose (h # hs) r = cors_expose hs (r\<lparr>cr_exposed_headers := add_list_item (cr_exposed_headers r) h\<rparr>)"

definition cors_max_age :: "int \<Rightarrow> cors_rules \<Rightarrow> cors_rules" where
  "cors_max_age n r = r\<lparr>cr_max_age := show_int n\<rparr>"

definition cors_allow_credentials :: "cors_rules \<Rightarrow> cors_rules" where
  "cors_allow_credentials r = r\<lparr>cr_allow_credentials := True\<rparr>"

definition cors_ignore :: "cors_rules \<Rightarrow> cors_rules" where
  "cors_ignore r = r\<lparr>cr_ignore := True\<rparr>"

definition set_header_no_override :: "string \<Rightarrow> string \<Rightarrow> response \<Rightarrow> response" where
  "set_header_no_override key value res =
     (if value = [] then res
      else if get_header_value (headers res) key \<noteq> [] then res
      else add_header key value res)"

definition cors_apply :: "cors_rules \<Rightarrow> request \<Rightarrow> response \<Rightarrow> response" where
  "cors_apply r req res =
     (if cr_ignore r then res
      else
        let res = set_header_no_override ''Access-Control-Allow-Methods'' (cr_methods r) res;
            res = set_header_no_override ''Access-Control-Allow-Headers'' (cr_headers r) res;
            res = set_header_no_override ''Access-Control-Expose-Headers'' (cr_exposed_headers r) res;
            res = set_header_no_override ''Access-Control-Max-Age'' (cr_max_age r) res;
            (res, origin_set) =
              (if req_method req \<noteq> Options \<and> cr_allow_credentials r then
                 (let res = set_header_no_override ''Access-Control-Allow-Credentials'' ''true'' res
                  in if cr_origin r = ''*'' then
                       (set_header_no_override ''Access-Control-Allow-Origin'' (req_get_header_value req ''Origin'') res, True)
                     else (res, False))
               else (res, False))
        in if \<not> origin_set then set_header_no_override ''Access-Control-Allow-Origin'' (cr_origin r) res else res)"

subsection \<open>The handler\<close>

record cors_handler =
  cors_table :: "(string \<times> cors_rules) list"
  cors_default :: cors_rules

datatype rule_ref = Default_rule | Prefix_rule nat

definition new_cors :: cors_handler where
  "new_cors = \<lparr>cors_table = [], cors_default = new_rules\<rparr>"

definition cors_prefix :: "string \<Rightarrow> cors_handler \<Rightarrow> cors_handler \<times> rule_ref" where
  "cors_prefix prefix h =
     (h\<lparr>cors_table := cors_table h @ [(prefix, new_rules)]\<rparr>, Prefix_rule (length (cors_table h)))"

definition cors_blueprint :: "string \<Rightarrow> cors_handler \<Rightarrow> cors_handler \<times> rule_ref" where
  "cors_blueprint bp_prefix h =
     (h\<lparr>cors_table := cors_table h @ [(bp_prefix, new_rules)]\<rparr>, Prefix_rule (length (cors_table h)))"

definition cors_global :: "cors_handler \<Rightarrow> cors_handler \<times> rule_ref" where
  "cors_global h = (h, Default_rule)"

text \<open>A call through a reference.\<close>

definition on_rule :: "(cors_rules \<Rightarrow> cors_rules) \<Rightarrow> cors_handler \<times> rule_ref \<Rightarrow> cors_handler \<times> rule_ref" where
  "on_rule f hr =
     (case hr of
        (h, Default_rule) \<Rightarrow> (h\<lparr>cors_default := f (cors_default h)\<rparr>, Default_rule)
      | (h, Prefix_rule i) \<Rightarrow>
          (h\<lparr>cors_table := (cors_table h)[i := (fst (cors_table h ! i), f (snd (cors_table h ! i)))]\<rparr>, Prefix_rule i))"

text \<open>\<open>path.rfind(prefix, 0) == 0\<close>: the path starts with the prefix.\<close>

fun find_rule_in :: "(string \<times> cors_rules) list \<Rightarrow> cors_rules \<Rightarrow> string \<Rightarrow> cors_rules" where
  "find_rule_in [] d path = d"
| "find_rule_in ((p, r) # rs) d path = (if take (length p) path = p then r else find_rule_in rs d path)"

definition find_rule :: "cors_handler \<Rightarrow> string \<Rightarrow> cors_rules" where
  "find_rule h path = find_rule_in (cors_table h) (cors_default h) path"

definition cors_after_handle :: "cors_handler \<Rightarrow> request \<Rightarrow> response \<Rightarrow> response" where
  "cors_after_handle h req res = cors_apply (find_rule h (url req)) req res"

text \<open>The chain of calls in \<open>main\<close>.\<close>

definition bidnet_cors :: cors_handler where
  "bidnet_cors =
     (let hr = cors_global new_cors;
          hr = on_rule (cors_headers [''Content-Type'', ''Authorization'']) hr;
          hr = on_rule (cors_methods [Post, Get, Put, Delete, Options]) hr;
          hr = on_rule (cors_max_age 5) hr;
          hr = cors_prefix ''/'' (fst hr);
          hr = on_rule (cors_origin ''*'') hr
      in fst hr)"

subsection \<open>What the middleware does\<close>

lemma no_override_keeps:
  assumes "ci_values k (headers res) \<noteq> []" "[] \<notin> set (ci_values k (headers res))"
  shows "ci_values k (headers (set_header_no_override k' v res)) = ci_values k (headers res)"
proof (cases "ci_key_eq k' k")
  case True
  then have "ci_values k' m = ci_values k m" for m
    unfolding ci_values_def using ci_key_eq_trans ci_key_eq_sym by (metis (no_types, lifting) filter_cong case_prod_beta)
  then have "get_header_value (headers res) k' \<noteq> []"
    using assms by (cases "ci_values k (headers res)") (auto simp: get_header_value_def ci_find_values)
  then show ?thesis by (simp add: set_header_no_override_def)
qed (auto simp: set_header_no_override_def add_header_def ci_emplace_def ci_values_def)

lemma no_override_adds: "mset (headers res) \<subseteq># mset (headers (set_header_no_override k v res))"
  by (simp add: set_header_no_override_def add_header_def ci_emplace_def)

lemma no_override_other:
  "\<not> ci_key_eq k' k \<Longrightarrow>
   get_header_value (headers (set_header_no_override k' v res)) k = get_header_value (headers res) k"
  by (auto simp: set_header_no_override_def add_header_def get_header_value_def ci_find_emplace split: option.splits)

lemma no_override_sets:
  "ci_find k (headers res) = None \<Longrightarrow> get_header_value (headers (set_header_no_override k v res)) k = v"
  by (auto simp: set_header_no_override_def add_header_def get_header_value_def ci_find_emplace split: option.splits)

lemma no_override_rest [simp]:
  "code (set_header_no_override k v res) = code res" "body (set_header_no_override k v res) = body res"
  "completed (set_header_no_override k v res) = completed res"
  by (simp_all add: set_header_no_override_def add_header_def)

text \<open>C19: The middleware never touches a header that a handler has set: whatever its rules are, a key whose values
  are not empty keeps exactly these values - none is changed and none is added -, no header is removed, and the
  status code and the body stay as they are.
\<close>

theorem cors_keeps_headers:
  assumes "ci_values k (headers res) \<noteq> []" "[] \<notin> set (ci_values k (headers res))"
  shows "ci_values k (headers (cors_after_handle h req res)) = ci_values k (headers res)
    \<and> mset (headers res) \<subseteq># mset (headers (cors_after_handle h req res))
    \<and> code (cors_after_handle h req res) = code res \<and> body (cors_after_handle h req res) = body res"
proof -
  have keep: "ci_values k (headers (set_header_no_override k' v r)) = ci_values k (headers r)"
    if "ci_values k (headers r) = ci_values k (headers res)" for k' v r
    using no_override_keeps [of k r] assms that by simp
  have adds: "mset (headers res) \<subseteq># mset (headers (set_header_no_override k' v r))"
    if "mset (headers res) \<subseteq># mset (headers r)" for k' v r
    using subset_mset.order_trans [OF that no_override_adds] .
  show ?thesis
    by (simp add: cors_after_handle_def cors_apply_def Let_def keep adds)
qed

lemma rule_of_bidnet: "take 1 path = ''/'' \<Longrightarrow> find_rule bidnet_cors path = new_rules"
proof -
  have c: "cors_table bidnet_cors = [(''/'', new_rules)]" by code_simp
  assume "take 1 path = ''/''"
  then show ?thesis by (simp add: find_rule_def c)
qed

definition global_rules :: cors_rules where
  "global_rules = new_rules\<lparr>cr_methods := ''POST, GET, PUT, DELETE, OPTIONS'', cr_headers := ''Content-Type, Authorization'', cr_max_age := ''5''\<rparr>"

lemma rule_of_others: "take 1 path \<noteq> ''/'' \<Longrightarrow> find_rule bidnet_cors path = global_rules"
proof -
  have c: "cors_table bidnet_cors = [(''/'', new_rules)]" "cors_default bidnet_cors = global_rules" by code_simp+
  assume "take 1 path \<noteq> ''/''"
  then show ?thesis by (simp add: find_rule_def c)
qed

lemma no_override_find_other:
  "\<not> ci_key_eq k' k \<Longrightarrow> ci_find k (headers (set_header_no_override k' v res)) = ci_find k (headers res)"
  by (auto simp: set_header_no_override_def add_header_def ci_find_emplace split: option.splits)

definition cors_names :: "string list" where
  "cors_names =
     [''Access-Control-Allow-Methods'', ''Access-Control-Allow-Headers'', ''Access-Control-Expose-Headers'',
      ''Access-Control-Max-Age'', ''Access-Control-Allow-Origin'']"

lemma cors_names_differ:
  "\<not> ci_key_eq ''Access-Control-Allow-Headers'' ''Access-Control-Allow-Methods''"
  "\<not> ci_key_eq ''Access-Control-Allow-Methods'' ''Access-Control-Allow-Headers''"
  "\<not> ci_key_eq ''Access-Control-Allow-Origin'' ''Access-Control-Allow-Methods''"
  "\<not> ci_key_eq ''Access-Control-Allow-Origin'' ''Access-Control-Allow-Headers''"
  "\<not> ci_key_eq ''Access-Control-Allow-Origin'' ''Access-Control-Max-Age''"
  "\<not> ci_key_eq ''Access-Control-Allow-Methods'' ''Access-Control-Max-Age''"
  "\<not> ci_key_eq ''Access-Control-Allow-Headers'' ''Access-Control-Max-Age''"
  "\<not> ci_key_eq ''Access-Control-Allow-Methods'' ''Access-Control-Allow-Origin''"
  "\<not> ci_key_eq ''Access-Control-Allow-Headers'' ''Access-Control-Allow-Origin''"
  "\<not> ci_key_eq ''Access-Control-Max-Age'' ''Access-Control-Allow-Origin''"
  "\<not> ci_key_eq ''Access-Control-Max-Age'' ''Access-Control-Allow-Methods''"
  "\<not> ci_key_eq ''Access-Control-Max-Age'' ''Access-Control-Allow-Headers''"
  by code_simp+

lemma no_override_empty [simp]: "set_header_no_override k [] res = res"
  by (simp add: set_header_no_override_def)

lemma apply_new_rules:
  "cors_apply new_rules req res =
     set_header_no_override ''Access-Control-Allow-Origin'' ''*''
       (set_header_no_override ''Access-Control-Allow-Headers'' ''*''
         (set_header_no_override ''Access-Control-Allow-Methods'' ''*'' res))"
  by (simp add: cors_apply_def new_rules_def)

lemma apply_global_rules:
  "cors_apply global_rules req res =
     set_header_no_override ''Access-Control-Allow-Origin'' ''*''
       (set_header_no_override ''Access-Control-Max-Age'' ''5''
         (set_header_no_override ''Access-Control-Allow-Headers'' ''Content-Type, Authorization''
           (set_header_no_override ''Access-Control-Allow-Methods'' ''POST, GET, PUT, DELETE, OPTIONS'' res)))"
  by (simp add: cors_apply_def global_rules_def new_rules_def)

text \<open>C20: The headers, methods and age that \<open>main\<close> sets on the global rule do not reach the responses of its
  routes. For every path that starts with a slash the second rule, with the prefix \<open>/\<close> and the defaults, is
  found first, so the response allows every method and header and has no maximal age; only for a target that
  does not start with a slash - \<open>*\<close> or an absolute URL - the configured values are sent.
\<close>

theorem global_cors_rule_shadowed:
  assumes "\<forall>k \<in> set cors_names. ci_find k (headers res) = None"
  shows "let out = headers (cors_after_handle bidnet_cors req res) in
    get_header_value out ''Access-Control-Allow-Origin'' = ''*''
    \<and> (if take 1 (url req) = ''/''
       then get_header_value out ''Access-Control-Allow-Methods'' = ''*''
          \<and> get_header_value out ''Access-Control-Allow-Headers'' = ''*''
          \<and> get_header_value out ''Access-Control-Max-Age'' = []
       else get_header_value out ''Access-Control-Allow-Methods'' = ''POST, GET, PUT, DELETE, OPTIONS''
          \<and> get_header_value out ''Access-Control-Allow-Headers'' = ''Content-Type, Authorization''
          \<and> get_header_value out ''Access-Control-Max-Age'' = ''5'')"
proof -
  have n: "ci_find ''Access-Control-Allow-Methods'' (headers res) = None" "ci_find ''Access-Control-Allow-Headers'' (headers res) = None"
    "ci_find ''Access-Control-Max-Age'' (headers res) = None" "ci_find ''Access-Control-Allow-Origin'' (headers res) = None"
    using assms by (simp_all add: cors_names_def)
  have m: "get_header_value (headers res) ''Access-Control-Max-Age'' = []" using n(3) by (simp add: get_header_value_def)
  note o = no_override_other no_override_find_other no_override_sets cors_names_differ
  show ?thesis
  proof (cases "take 1 (url req) = ''/''")
    case True
    then show ?thesis unfolding cors_after_handle_def rule_of_bidnet [OF True] apply_new_rules Let_def
      using n m by (simp add: o)
  next
    case False
    then show ?thesis unfolding cors_after_handle_def rule_of_others [OF False] apply_global_rules Let_def
      using n m by (simp add: o)
  qed
qed

theorem global_cors_rule_shadowed_witness:
  "get_header_value (headers (cors_after_handle bidnet_cors (empty_request\<lparr>url := ''/items''\<rparr>) (response_text 200 ''[]'')))
     ''Access-Control-Allow-Methods'' = ''*''
   \<and> get_header_value (headers (cors_after_handle bidnet_cors (empty_request\<lparr>url := ''*''\<rparr>) (response_text 404 [])))
     ''Access-Control-Max-Age'' = ''5''"
  using global_cors_rule_shadowed [of "response_text 200 ''[]''" "empty_request\<lparr>url := ''/items''\<rparr>"]
    global_cors_rule_shadowed [of "response_text 404 []" "empty_request\<lparr>url := ''*''\<rparr>"]
  by (simp add: Let_def response_text_def empty_response_def ci_find_def)

theorem cors_keeps_headers_witness:
  "ci_values ''Access-Control-Allow-Origin''
     (headers (cors_after_handle bidnet_cors empty_request (set_header ''access-control-allow-origin'' ''me'' empty_response))) = [''me'']"
proof -
  have v: "ci_values ''Access-Control-Allow-Origin'' (headers (set_header ''access-control-allow-origin'' ''me'' empty_response)) = [''me'']"
    by code_simp
  show ?thesis
    using cors_keeps_headers [of "''Access-Control-Allow-Origin''" "set_header ''access-control-allow-origin'' ''me'' empty_response"
        bidnet_cors empty_request] by (simp add: v)
qed

end
