(* ===== verification/Database.thy ===== *)
theory Database
  imports Http
begin

text \<open>
  The database connection of the server (\<open>server/db_connection.h\<close>, \<open>server/db_connection.cpp\<close>) and
  the interface of libpqxx that the handlers use. libpqxx and PostgreSQL are not part of the
  repository: they are the record \<open>pqxx\<close> of operations, a parameter of every definition that
  uses them, over a type \<open>'c\<close> of connection states that nothing here looks into.

  Code that may throw and changes a state is an action: a function from the state to a result
  and the next state.
\<close>

subsection \<open>Actions\<close>

type_synonym ('s, 'a) act = "'s \<Rightarrow> 'a res \<times> 's"

definition act_return :: "'a \<Rightarrow> ('s, 'a) act" where
  "act_return x = (\<lambda>s. (Inr x, s))"

definition act_throw :: "string \<Rightarrow> ('s, 'a) act" where
  "act_throw e = (\<lambda>s. (Inl e, s))"

definition act_lift :: "'a res \<Rightarrow> ('s, 'a) act" where
  "act_lift r = (\<lambda>s. (r, s))"

definition act_bind :: "('s, 'a) act \<Rightarrow> ('a \<Rightarrow> ('s, 'b) act) \<Rightarrow> ('s, 'b) act" where
  "act_bind m f = (\<lambda>s. case m s of (Inl e, s') \<Rightarrow> (Inl e, s') | (Inr x, s') \<Rightarrow> f x s')"

text \<open>\<open>try { m } catch (const std::exception& e) { h(e.what()) }\<close>\<close>

definition act_catch :: "('s, 'a) act \<Rightarrow> (string \<Rightarrow> 'a) \<Rightarrow> ('s, 'a) act" where
  "act_catch m h = (\<lambda>s. case m s of (Inl e, s') \<Rightarrow> (Inr (h e), s') | (Inr x, s') \<Rightarrow> (Inr x, s'))"

lemma act_return_apply [simp]: "act_return x s = (Inr x, s)"
  by (simp add: act_return_def)

lemma act_throw_apply [simp]: "act_throw e s = (Inl e, s)"
  by (simp add: act_throw_def)

lemma act_lift_apply [simp]: "act_lift r s = (r, s)"
  by (simp add: act_lift_def)

lemma act_bind_Inr [simp]: "m s = (Inr x, s') \<Longrightarrow> act_bind m f s = f x s'"
  by (simp add: act_bind_def)

lemma act_bind_Inl [simp]: "m s = (Inl e, s') \<Longrightarrow> act_bind m f s = (Inl e, s')"
  by (simp add: act_bind_def)

lemma act_catch_Inr [simp]: "m s = (Inr x, s') \<Longrightarrow> act_catch m h s = (Inr x, s')"
  by (simp add: act_catch_def)

lemma act_catch_Inl [simp]: "m s = (Inl e, s') \<Longrightarrow> act_catch m h s = (Inr (h e), s')"
  by (simp add: act_catch_def)

lemma act_catch_no_throw: "\<exists>x s'. act_catch m h s = (Inr x, s')"
  by (cases "m s"; cases "fst (m s)") auto

text \<open>A relation between the states before and after, kept by the combinators.\<close>

definition act_keeps :: "('s \<Rightarrow> 's \<Rightarrow> bool) \<Rightarrow> ('s, 'a) act \<Rightarrow> bool" where
  "act_keeps R m \<longleftrightarrow> (\<forall>s. R s (snd (m s)))"

lemma act_keeps_return: "reflp R \<Longrightarrow> act_keeps R (act_return x)"
  by (simp add: act_keeps_def reflp_def)

lemma act_keeps_throw: "reflp R \<Longrightarrow> act_keeps R (act_throw e)"
  by (simp add: act_keeps_def reflp_def)

lemma act_keeps_lift: "reflp R \<Longrightarrow> act_keeps R (act_lift r)"
  by (simp add: act_keeps_def reflp_def)

lemma act_keeps_bind:
  assumes "transp R" "act_keeps R m" "\<And>x. act_keeps R (f x)"
  shows "act_keeps R (act_bind m f)"
  unfolding act_keeps_def
proof
  fix s
  obtain r s' where m: "m s = (r, s')" by force
  have 1: "R s s'" using assms(2) m by (auto simp: act_keeps_def dest!: spec [of _ s])
  show "R s (snd (act_bind m f s))"
  proof (cases r)
    case (Inl e)
    with m 1 show ?thesis by simp
  next
    case (Inr x)
    have "R s' (snd (f x s'))" using assms(3) by (simp add: act_keeps_def)
    with 1 have "R s (snd (f x s'))" by (rule transpD [OF assms(1)])
    with m Inr show ?thesis by simp
  qed
qed

lemma act_keeps_catch: "act_keeps R m \<Longrightarrow> act_keeps R (act_catch m h)"
  unfolding act_keeps_def act_catch_def by (auto split: prod.split sum.split) (metis snd_conv)+

subsection \<open>Weakest preconditions\<close>

text \<open>\<open>Q\<close> holds of a returned value and the final state, \<open>E\<close> of a thrown text.\<close>

definition wp :: "('s, 'a) act \<Rightarrow> ('a \<Rightarrow> 's \<Rightarrow> bool) \<Rightarrow> (string \<Rightarrow> 's \<Rightarrow> bool) \<Rightarrow> 's \<Rightarrow> bool" where
  "wp m Q E s = (case m s of (Inr x, s') \<Rightarrow> Q x s' | (Inl e, s') \<Rightarrow> E e s')"

named_theorems wps \<open>weakest preconditions of the actions\<close>

lemma wp_return [wps]: "wp (act_return x) Q E s = Q x s"
  by (simp add: wp_def)

lemma wp_throw [wps]: "wp (act_throw e) Q E s = E e s"
  by (simp add: wp_def)

lemma wp_lift [wps]: "wp (act_lift r) Q E s = (case r of Inr x \<Rightarrow> Q x s | Inl e \<Rightarrow> E e s)"
  by (simp add: wp_def)

lemma wp_bind [wps]: "wp (act_bind m f) Q E s = wp m (\<lambda>x. wp (f x) Q E) E s"
  by (auto simp: wp_def act_bind_def split: prod.split sum.split)

lemma wp_catch [wps]: "wp (act_catch m h) Q E s = wp m Q (\<lambda>e. Q (h e)) s"
  by (auto simp: wp_def act_catch_def split: prod.split sum.split)

lemma wp_mono:
  "wp m Q E s \<Longrightarrow> (\<And>x s'. Q x s' \<Longrightarrow> Q' x s') \<Longrightarrow> (\<And>e s'. E e s' \<Longrightarrow> E' e s') \<Longrightarrow> wp m Q' E' s"
  by (auto simp: wp_def split: prod.splits sum.splits)

lemma wp_Inr: "wp m Q E s \<Longrightarrow> m s = (Inr x, s') \<Longrightarrow> Q x s'"
  by (simp add: wp_def)

lemma wp_Inl: "wp m Q E s \<Longrightarrow> m s = (Inl e, s') \<Longrightarrow> E e s'"
  by (simp add: wp_def)

lemma wp_returns: "wp m Q (\<lambda>e s'. False) s \<Longrightarrow> \<exists>x s'. m s = (Inr x, s') \<and> Q x s'"
  by (auto simp: wp_def split: prod.splits sum.splits)

subsection \<open>libpqxx\<close>

datatype sql_arg = SqlInt int | SqlDouble double | SqlText string

text \<open>A row is its columns in order, each with the text of its field, \<open>None\<close> for NULL.\<close>

type_synonym sql_row = "(string \<times> string option) list"

record 'c pqxx =
  px_connect :: "string \<Rightarrow> 'c res"
  px_is_open :: "'c \<Rightarrow> bool"
  px_close :: "'c \<Rightarrow> 'c"
  px_begin :: "'c \<Rightarrow> 'c res"
  px_exec :: "string \<Rightarrow> 'c \<Rightarrow> sql_row list res \<times> 'c"
  px_exec_params :: "string \<Rightarrow> sql_arg list \<Rightarrow> 'c \<Rightarrow> sql_row list res \<times> 'c"
  px_commit :: "'c \<Rightarrow> unit res \<times> 'c"
  px_end :: "'c \<Rightarrow> 'c"
  px_quote :: "sql_arg \<Rightarrow> string"
  px_int :: "sql_row \<Rightarrow> string \<Rightarrow> int res"
  px_double :: "sql_row \<Rightarrow> string \<Rightarrow> double res"
  px_string :: "sql_row \<Rightarrow> string \<Rightarrow> string res"
  px_int_at :: "sql_row \<Rightarrow> nat \<Rightarrow> int res"
  px_c_str_at :: "sql_row \<Rightarrow> nat \<Rightarrow> string res"

text \<open>
  \<open>px_begin\<close> is the constructor of \<open>pqxx::work\<close> and \<open>px_end\<close> its destructor;
  \<open>px_int row col\<close> is \<open>row[col].as<int>()\<close>, and so on.
\<close>

subsection \<open>The class Database\<close>

definition conn_str :: string where
  "conn_str = ''host=34.133.14.189 port=5432 dbname=bidnetdb user=postgres password=bidnetuser''"

text \<open>The constructor: the owned connection, if it could be made, and what it prints.\<close>

definition database_ctor :: "'c pqxx \<Rightarrow> ('c \<Rightarrow> string) \<Rightarrow> 'c option \<times> string" where
  "database_ctor px dbname =
     (case px_connect px conn_str of
        Inl e \<Rightarrow> (None, ''Database connection error: '' @ e)
      | Inr c \<Rightarrow>
          (Some c, if px_is_open px c then ''Connected to database: '' @ dbname c
                   else ''Failed to connect to database''))"

definition database_dtor :: "'c pqxx \<Rightarrow> 'c option \<Rightarrow> 'c option \<times> string" where
  "database_dtor px conn =
     (case conn of
        Some c \<Rightarrow> if px_is_open px c then (Some (px_close px c), ''Database connection closed'') else (Some c, [])
      | None \<Rightarrow> (None, []))"

definition is_connected :: "'c pqxx \<Rightarrow> 'c option \<Rightarrow> bool" where
  "is_connected px conn = (case conn of Some c \<Rightarrow> px_is_open px c | None \<Rightarrow> False)"

definition get_connection :: "'c option \<Rightarrow> 'c option" where
  "get_connection conn = conn"

text \<open>A block that owns a \<open>pqxx::work\<close>: however the block ends, the destructor runs.\<close>

definition with_work :: "'c pqxx \<Rightarrow> ('c, 'a) act \<Rightarrow> ('c, 'a) act" where
  "with_work px block = (\<lambda>c.
     case px_begin px c of
       Inl e \<Rightarrow> (Inl e, c)
     | Inr c1 \<Rightarrow> (case block c1 of (r, c2) \<Rightarrow> (r, px_end px c2)))"

definition database_exec :: "'c pqxx \<Rightarrow> string \<Rightarrow> ('c, sql_row list) act" where
  "database_exec px query = with_work px (px_exec px query)"

subsection \<open>What the handlers rely on\<close>

text \<open>
  Documented behaviour of transactions: \<open>durable\<close> is what the database holds for other
  sessions. Only a commit changes it; of a commit that throws nothing is assumed.
\<close>

locale transactional =
  fixes px :: "'c pqxx" and durable :: "'c \<Rightarrow> 'd"
  assumes begin_durable: "px_begin px c = Inr c' \<Longrightarrow> durable c' = durable c"
    and exec_durable: "px_exec px q c = (r, c') \<Longrightarrow> durable c' = durable c"
    and params_durable: "px_exec_params px q as c = (r, c') \<Longrightarrow> durable c' = durable c"
    and end_durable: "durable (px_end px c) = durable c"
begin

abbreviation same_durable :: "'c \<Rightarrow> 'c \<Rightarrow> bool" where
  "same_durable c c' \<equiv> durable c' = durable c"

lemma exec_keeps: "act_keeps same_durable (px_exec px q)"
  unfolding act_keeps_def by (metis exec_durable prod.collapse)

lemma params_keeps: "act_keeps same_durable (px_exec_params px q as)"
  unfolding act_keeps_def by (metis params_durable prod.collapse)

lemma with_work_keeps:
  assumes "act_keeps same_durable block"
  shows "act_keeps same_durable (with_work px block)"
  unfolding act_keeps_def
proof
  fix c
  show "same_durable c (snd (with_work px block c))"
  proof (cases "px_begin px c")
    case (Inr c1)
    have "durable (snd (block c1)) = durable c1" using assms by (simp add: act_keeps_def)
    with Inr show ?thesis
      by (simp add: with_work_def end_durable begin_durable split: prod.split)
         (metis snd_conv)
  qed (simp add: with_work_def)
qed

text \<open>\<open>Database::exec\<close> owns its transaction and never commits it.\<close>

lemma database_exec_discards: "durable (snd (database_exec px q c)) = durable c"
  using with_work_keeps [OF exec_keeps] by (simp add: database_exec_def act_keeps_def)

end

end
