(* ===== verification/Bidnet.thy ===== *)
theory Bidnet
  imports JsonWrite Database
begin

text \<open>
  The application (\<open>server/main.cpp\<close>): one definition per route handler, over the state of the
  server: the one database connection, the list of WebSocket clients and, as a log, the messages
  handed to \<open>send_text\<close>. A handler is an action whose result is the response it returns,
  or the exception that escapes from it.
\<close>

subsection \<open>The state of the server\<close>

record 'c server =
  conn :: 'c
  ws_clients :: "nat list"
  sent :: "(nat \<times> string) list"

text \<open>The values an uninitialised \<open>int64_t\<close> and \<open>double\<close> happen to hold.\<close>

record indet =
  ind_int :: int
  ind_double :: double

text \<open>\<open>pqxx::work txn(*db.getConnection())\<close> in a block of the handler.\<close>

definition with_txn :: "'c pqxx \<Rightarrow> ('c server, 'a) act \<Rightarrow> ('c server, 'a) act" where
  "with_txn px block = (\<lambda>s.
     case px_begin px (conn s) of
       Inl e \<Rightarrow> (Inl e, s)
     | Inr c \<Rightarrow> (case block (s\<lparr>conn := c\<rparr>) of (r, s') \<Rightarrow> (r, s'\<lparr>conn := px_end px (conn s')\<rparr>)))"

definition on_conn :: "('c, 'a) act \<Rightarrow> ('c server, 'a) act" where
  "on_conn m = (\<lambda>s. case m (conn s) of (r, c) \<Rightarrow> (r, s\<lparr>conn := c\<rparr>))"

definition txn_exec :: "'c pqxx \<Rightarrow> string \<Rightarrow> ('c server, sql_row list) act" where
  "txn_exec px q = on_conn (px_exec px q)"

definition txn_exec_params :: "'c pqxx \<Rightarrow> string \<Rightarrow> sql_arg list \<Rightarrow> ('c server, sql_row list) act" where
  "txn_exec_params px q as = on_conn (px_exec_params px q as)"

definition txn_commit :: "'c pqxx \<Rightarrow> ('c server, unit) act" where
  "txn_commit px = on_conn (px_commit px)"

subsection \<open>Reading the request\<close>

definition json_text :: "rvalue \<Rightarrow> string \<Rightarrow> string res" where
  "json_text b k = bind_res (rv_get b k) rv_s"

definition json_int :: "indet \<Rightarrow> rvalue \<Rightarrow> string \<Rightarrow> int res" where
  "json_int ind b k = bind_res (rv_get b k) (\<lambda>v. bind_res (rv_i (ind_int ind) v) (\<lambda>i. Inr (to_int32 i)))"

definition json_double :: "indet \<Rightarrow> rvalue \<Rightarrow> string \<Rightarrow> double res" where
  "json_double ind b k = bind_res (rv_get b k) (rv_d (ind_double ind))"

subsection \<open>Building the response\<close>

definition response_json :: "int \<Rightarrow> wvalue \<Rightarrow> response" where
  "response_json c w = response_returnable c (dump w) ''application/json''"

definition wobj :: "(string \<times> wvalue) list \<Rightarrow> wvalue" where
  "wobj kvs = foldl (\<lambda>w (k, v). wv_set w k v) WNull kvs"

definition error_text :: "string \<Rightarrow> response" where
  "error_text e = response_text 500 (''Error: '' @ e)"

fun map_res :: "('a \<Rightarrow> 'b res) \<Rightarrow> 'a list \<Rightarrow> 'b list res" where
  "map_res f [] = Inr []"
| "map_res f (x # xs) = bind_res (f x) (\<lambda>y. bind_res (map_res f xs) (\<lambda>ys. Inr (y # ys)))"

subsection \<open>WebSocket clients\<close>

definition ws_onopen :: "nat \<Rightarrow> 'c server \<Rightarrow> 'c server" where
  "ws_onopen cn s = s\<lparr>ws_clients := ws_clients s @ [cn]\<rparr>"

definition ws_onclose :: "nat \<Rightarrow> 'c server \<Rightarrow> 'c server" where
  "ws_onclose cn s = s\<lparr>ws_clients := filter (\<lambda>x. x \<noteq> cn) (ws_clients s)\<rparr>"

definition ws_onmessage :: "nat \<Rightarrow> string \<Rightarrow> bool \<Rightarrow> 'c server \<Rightarrow> 'c server" where
  "ws_onmessage cn data is_binary s = s"

definition broadcast :: "string \<Rightarrow> ('c server, unit) act" where
  "broadcast msg = (\<lambda>s. (Inr (), s\<lparr>sent := sent s @ map (\<lambda>cl. (cl, msg)) (ws_clients s)\<rparr>))"

subsection \<open>Users\<close>

definition register_query :: "'c pqxx \<Rightarrow> string \<Rightarrow> string \<Rightarrow> string \<Rightarrow> string" where
  "register_query px username email password =
     ''INSERT INTO users (username, email, password_hash) '' @
     ''VALUES ('' @ px_quote px (SqlText username) @ '', '' @ px_quote px (SqlText email) @ '', ''
       @ px_quote px (SqlText password) @ '');''"

definition register_user :: "'c pqxx \<Rightarrow> request \<Rightarrow> ('c server, response) act" where
  "register_user px req =
     (let b = load (req_body req) in
      if \<not> rv_ok b then act_return (response_text 400 ''Invalid JSON'')
      else
        act_bind (act_lift (json_text b ''username'')) (\<lambda>username.
        act_bind (act_lift (json_text b ''email'')) (\<lambda>email.
        act_bind (act_lift (json_text b ''password'')) (\<lambda>password.
        act_catch
          (with_txn px
            (act_bind (txn_exec px (register_query px username email password)) (\<lambda>_.
             act_bind (txn_commit px) (\<lambda>_.
             act_return (response_text 201 ''User registered successfully'')))))
          error_text))))"

definition login_query :: "'c pqxx \<Rightarrow> string \<Rightarrow> string" where
  "login_query px username =
     ''SELECT id, password_hash FROM users WHERE username = '' @ px_quote px (SqlText username) @ '';''"

definition login :: "'c pqxx \<Rightarrow> request \<Rightarrow> ('c server, response) act" where
  "login px req =
     (let b = load (req_body req) in
      if \<not> rv_ok b then act_return (response_text 400 ''Invalid JSON'')
      else
        act_bind (act_lift (json_text b ''username'')) (\<lambda>username.
        act_bind (act_lift (json_text b ''password'')) (\<lambda>password.
        act_catch
          (with_txn px
            (act_bind (txn_exec px (login_query px username)) (\<lambda>result.
             case result of
               [] \<Rightarrow> act_return (response_text 400 ''User not found'')
             | row # _ \<Rightarrow>
                 act_bind (act_lift (px_c_str_at px row 1)) (\<lambda>stored_password.
                 if stored_password = password then
                   act_bind (act_lift (px_int_at px row 0)) (\<lambda>uid.
                   act_return (response_json 200
                     (wobj [(''message'', WString ''Login successful''), (''id'', WSigned uid)])))
                 else
                   act_return (response_json 400 (wobj [(''message'', WString ''Invalid password'')]))))))
          error_text)))"

definition edit_query :: "'c pqxx \<Rightarrow> string \<Rightarrow> string \<Rightarrow> string \<Rightarrow> string" where
  "edit_query px username new_email new_password =
     ''UPDATE users SET email = '' @ px_quote px (SqlText new_email) @
     '', password_hash = '' @ px_quote px (SqlText new_password) @
     '' WHERE username = '' @ px_quote px (SqlText username) @ '';''"

definition edit_user :: "'c pqxx \<Rightarrow> request \<Rightarrow> ('c server, response) act" where
  "edit_user px req =
     (let b = load (req_body req) in
      if \<not> rv_ok b then act_return (response_text 400 ''Invalid JSON'')
      else
        act_bind (act_lift (json_text b ''username'')) (\<lambda>username.
        act_bind (act_lift (json_text b ''new_email'')) (\<lambda>new_email.
        act_bind (act_lift (json_text b ''new_password'')) (\<lambda>new_password.
        act_catch
          (with_txn px
            (act_bind (txn_exec px (edit_query px username new_email new_password)) (\<lambda>_.
             act_bind (txn_commit px) (\<lambda>_.
             act_return (response_text 200 ''User information updated successfully'')))))
          error_text))))"

subsection \<open>Auctions\<close>

definition end_time_sql :: "int \<Rightarrow> string" where
  "end_time_sql duration = ''NOW() + INTERVAL '' @ [CHR 0x27] @ show_int duration @ '' seconds'' @ [CHR 0x27]"

definition create_query :: "'c pqxx \<Rightarrow> int \<Rightarrow> string \<Rightarrow> string \<Rightarrow> double \<Rightarrow> int \<Rightarrow> string" where
  "create_query px user_id name description starting_price duration =
     ''INSERT INTO items (user_id, name, description, starting_price, current_price, bid_end_time) '' @
     ''VALUES ('' @ px_quote px (SqlInt user_id) @ '', '' @ px_quote px (SqlText name) @ '', ''
       @ px_quote px (SqlText description) @ '', '' @ px_quote px (SqlDouble starting_price) @ '', ''
       @ px_quote px (SqlDouble starting_price) @ '', '' @ end_time_sql duration @ '');''"

definition create_auction :: "'c pqxx \<Rightarrow> indet \<Rightarrow> request \<Rightarrow> ('c server, response) act" where
  "create_auction px ind req =
     (let b = load (req_body req) in
      if \<not> rv_ok b then act_return (response_text 400 ''Invalid JSON'')
      else
        act_bind (act_lift (json_int ind b ''user_id'')) (\<lambda>user_id.
        act_bind (act_lift (json_text b ''name'')) (\<lambda>name.
        act_bind (act_lift (json_text b ''description'')) (\<lambda>description.
        act_bind (act_lift (json_double ind b ''starting_price'')) (\<lambda>starting_price.
        act_bind (act_lift (json_int ind b ''duration'')) (\<lambda>duration.
        act_catch
          (with_txn px
            (act_bind (txn_exec px (create_query px user_id name description starting_price duration)) (\<lambda>_.
             act_bind (txn_commit px) (\<lambda>_.
             act_return (response_json 201 (wobj [(''status'', WString ''success'')]))))))
          error_text))))))"

definition price_query :: string where
  "price_query = ''SELECT current_price FROM items WHERE id = $1''"

definition insert_bid_query :: string where
  "insert_bid_query = ''INSERT INTO bids (user_id, item_id, bid_amount, seller_id) VALUES ($1, $2, $3, $4)''"

definition update_price_query :: string where
  "update_price_query = ''UPDATE items SET current_price = $1 WHERE id = $2''"

definition bid_message :: "int \<Rightarrow> double \<Rightarrow> string" where
  "bid_message item_id bid_amount =
     ''{'' @ [CHR 0x22] @ ''item_id'' @ [CHR 0x22] @ '':'' @ show_int item_id @
     '','' @ [CHR 0x22] @ ''new_bid'' @ [CHR 0x22] @ '':'' @ show_double bid_amount @ ''}''"

definition bid_rejected :: response where
  "bid_rejected = response_json 400 (wobj [(''message'', WString ''Bid must be higher than the current price'')])"

definition bid_accepted :: "double \<Rightarrow> response" where
  "bid_accepted bid_amount = response_json 200
     (wobj [(''message'', WString ''Bid placed successfully''), (''new_bid_amount'', WDouble bid_amount)])"

definition bid_error :: "string \<Rightarrow> response" where
  "bid_error e = response_json 500 (wobj [(''message'', WString (''Error: '' @ e))])"

text \<open>
  The part of \<open>place_bid\<close> that owns the transaction. The handler holds \<open>bid_mutex\<close> throughout,
  so no other bid runs between its first and its last step.
\<close>

definition bid_transaction :: "'c pqxx \<Rightarrow> int \<Rightarrow> int \<Rightarrow> int \<Rightarrow> double \<Rightarrow> ('c server, response) act" where
  "bid_transaction px user_id seller_id item_id bid_amount =
     with_txn px
       (act_bind (txn_exec_params px price_query [SqlInt item_id]) (\<lambda>res.
        case res of
          [] \<Rightarrow> act_return (response_text 404 ''Item not found'')
        | row # _ \<Rightarrow>
            act_bind (act_lift (px_double px row ''current_price'')) (\<lambda>current_price.
            if double_le bid_amount current_price then act_return bid_rejected
            else
              act_bind (txn_exec_params px insert_bid_query
                          [SqlInt user_id, SqlInt item_id, SqlDouble bid_amount, SqlInt seller_id]) (\<lambda>_.
              act_bind (txn_exec_params px update_price_query [SqlDouble bid_amount, SqlInt item_id]) (\<lambda>_.
              act_bind (txn_commit px) (\<lambda>_.
              act_bind (broadcast (bid_message item_id bid_amount)) (\<lambda>_.
              act_return (bid_accepted bid_amount))))))))"

definition place_bid :: "'c pqxx \<Rightarrow> indet \<Rightarrow> request \<Rightarrow> ('c server, response) act" where
  "place_bid px ind req =
     act_catch
       (let b = load (req_body req) in
        if \<not> rv_ok b then act_return (response_text 400 ''Invalid JSON'')
        else
          act_bind (act_lift (json_int ind b ''user_id'')) (\<lambda>user_id.
          act_bind (act_lift (json_int ind b ''seller_id'')) (\<lambda>seller_id.
          act_bind (act_lift (json_int ind b ''item_id'')) (\<lambda>item_id.
          act_bind (act_lift (json_double ind b ''bid_amount'')) (\<lambda>bid_amount.
          if user_id \<le> 0 \<or> item_id \<le> 0 \<or> double_le bid_amount double_zero
          then act_return (response_text 400 ''Invalid bid data'')
          else bid_transaction px user_id seller_id item_id bid_amount)))))
       bid_error"

subsection \<open>Reading items\<close>

definition all_items_query :: string where
  "all_items_query =
     ''SELECT id, user_id, name, description, starting_price, bid_end_time, status '' @
     ''FROM items''"

definition item_of_row :: "'c pqxx \<Rightarrow> sql_row \<Rightarrow> wvalue res" where
  "item_of_row px row =
     bind_res (px_int px row ''id'') (\<lambda>iid.
     bind_res (px_int px row ''user_id'') (\<lambda>user_id.
     bind_res (px_string px row ''name'') (\<lambda>name.
     bind_res (px_string px row ''description'') (\<lambda>description.
     bind_res (px_double px row ''starting_price'') (\<lambda>starting_price.
     bind_res (px_string px row ''bid_end_time'') (\<lambda>bid_end_time.
     bind_res (px_string px row ''status'') (\<lambda>status.
     Inr (wobj [(''id'', WSigned iid), (''user_id'', WSigned user_id), (''name'', WString name),
                (''description'', WString description), (''starting_price'', WDouble starting_price),
                (''bid_end_time'', WString bid_end_time), (''status'', WString status)]))))))))"

definition get_all_items :: "'c pqxx \<Rightarrow> ('c server, response) act" where
  "get_all_items px =
     act_catch
       (with_txn px
         (act_bind (txn_exec px all_items_query) (\<lambda>res.
          act_bind (act_lift (map_res (item_of_row px) res)) (\<lambda>items.
          act_bind (txn_commit px) (\<lambda>_.
          act_return (response_json 200 (wobj [(''items'', WList items)])))))))
       error_text"

definition item_query :: string where
  "item_query =
     ''SELECT id, user_id, name, description, starting_price, current_price, bid_end_time, status '' @
     ''FROM items WHERE id = $1''"

definition detail_of_row :: "'c pqxx \<Rightarrow> sql_row \<Rightarrow> wvalue res" where
  "detail_of_row px row =
     bind_res (px_int px row ''id'') (\<lambda>iid.
     bind_res (px_int px row ''user_id'') (\<lambda>user_id.
     bind_res (px_string px row ''name'') (\<lambda>name.
     bind_res (px_string px row ''description'') (\<lambda>description.
     bind_res (px_double px row ''starting_price'') (\<lambda>starting_price.
     bind_res (px_double px row ''current_price'') (\<lambda>current_price.
     bind_res (px_string px row ''bid_end_time'') (\<lambda>bid_end_time.
     bind_res (px_string px row ''status'') (\<lambda>status.
     Inr (wobj [(''id'', WSigned iid), (''user_id'', WSigned user_id), (''name'', WString name),
                (''description'', WString description), (''starting_price'', WDouble starting_price),
                (''current_price'', WDouble current_price),
                (''bid_end_time'', WString bid_end_time), (''status'', WString status)])))))))))"

definition get_item_details :: "'c pqxx \<Rightarrow> string \<Rightarrow> ('c server, response) act" where
  "get_item_details px id_text =
     act_catch
       (with_txn px
         (act_bind (txn_exec_params px item_query [SqlText id_text]) (\<lambda>res.
          case res of
            [] \<Rightarrow> act_return (response_text 404 ''Item not found'')
          | row # _ \<Rightarrow>
              act_bind (act_lift (detail_of_row px row)) (\<lambda>item.
              act_bind (txn_commit px) (\<lambda>_.
              act_return (response_json 200 item))))))
       error_text"

definition get_auction_details :: "'c pqxx \<Rightarrow> string \<Rightarrow> ('c server, response) act" where
  "get_auction_details px id_text =
     act_catch
       (with_txn px
         (act_bind (txn_exec_params px item_query [SqlText id_text]) (\<lambda>res.
          case res of
            [] \<Rightarrow> act_return (response_text 404 ''Auction not found'')
          | row # _ \<Rightarrow>
              act_bind (act_lift (detail_of_row px row)) (\<lambda>auction.
              act_bind (txn_commit px) (\<lambda>_.
              act_return (response_json 200 auction))))))
       error_text"

subsection \<open>Transactions\<close>

definition buyer_query :: string where
  "buyer_query =
     ''SELECT id, item_id, buyer_id, seller_id, final_price, transaction_time '' @
     ''FROM transactions WHERE buyer_id = $1''"

definition seller_query :: string where
  "seller_query =
     ''SELECT id, item_id, buyer_id, seller_id, final_price, transaction_time '' @
     ''FROM transactions WHERE seller_id = $1''"

definition transaction_of_row :: "'c pqxx \<Rightarrow> sql_row \<Rightarrow> wvalue res" where
  "transaction_of_row px row =
     bind_res (px_int px row ''id'') (\<lambda>tid.
     bind_res (px_int px row ''item_id'') (\<lambda>item_id.
     bind_res (px_int px row ''buyer_id'') (\<lambda>buyer_id.
     bind_res (px_int px row ''seller_id'') (\<lambda>seller_id.
     bind_res (px_double px row ''final_price'') (\<lambda>final_price.
     bind_res (px_string px row ''transaction_time'') (\<lambda>transaction_time.
     Inr (wobj [(''id'', WSigned tid), (''item_id'', WSigned item_id), (''buyer_id'', WSigned buyer_id),
                (''seller_id'', WSigned seller_id), (''final_price'', WDouble final_price),
                (''transaction_time'', WString transaction_time)])))))))"

definition get_transactions :: "'c pqxx \<Rightarrow> string \<Rightarrow> string \<Rightarrow> int \<Rightarrow> ('c server, response) act" where
  "get_transactions px query none_found who =
     act_catch
       (with_txn px
         (act_bind (txn_exec_params px query [SqlInt who]) (\<lambda>res.
          if res = [] then act_return (response_text 404 none_found)
          else
            act_bind (act_lift (map_res (transaction_of_row px) res)) (\<lambda>items.
            act_bind (txn_commit px) (\<lambda>_.
            act_return (response_json 200 (wobj [(''items'', WList items)])))))))
       error_text"

definition get_transactions_for_buyer :: "'c pqxx \<Rightarrow> int \<Rightarrow> ('c server, response) act" where
  "get_transactions_for_buyer px buyer_id =
     get_transactions px buyer_query ''No transactions found for the buyer'' buyer_id"

definition get_transactions_for_seller :: "'c pqxx \<Rightarrow> int \<Rightarrow> ('c server, response) act" where
  "get_transactions_for_seller px seller_id =
     get_transactions px seller_query ''No transactions found for the seller'' seller_id"

definition highest_bid_query :: string where
  "highest_bid_query =
     ''SELECT user_id, bid_amount, seller_id FROM bids '' @
     ''WHERE item_id = $1 ORDER BY bid_amount DESC LIMIT 1''"

definition insert_transaction_query :: string where
  "insert_transaction_query =
     ''INSERT INTO transactions (item_id, buyer_id, seller_id, final_price, transaction_time) '' @
     ''VALUES ($1, $2, $3, $4, NOW()) RETURNING id''"

definition sold_query :: string where
  "sold_query = ''UPDATE items SET status = '' @ [CHR 0x27] @ ''sold'' @ [CHR 0x27] @ '' WHERE id = $1''"

definition complete_transaction :: "'c pqxx \<Rightarrow> int \<Rightarrow> ('c server, response) act" where
  "complete_transaction px item_id =
     act_catch
       (with_txn px
         (act_bind (txn_exec_params px highest_bid_query [SqlInt item_id]) (\<lambda>res.
          case res of
            [] \<Rightarrow> act_return (response_text 404 ''No bids found for the item'')
          | row # _ \<Rightarrow>
              act_bind (act_lift (px_int px row ''user_id'')) (\<lambda>buyer_id.
              act_bind (act_lift (px_double px row ''bid_amount'')) (\<lambda>bid_amt.
              act_bind (act_lift (px_int px row ''seller_id'')) (\<lambda>seller_id.
              act_bind (txn_exec_params px insert_transaction_query
                          [SqlInt item_id, SqlInt buyer_id, SqlInt seller_id, SqlDouble bid_amt]) (\<lambda>tx_res.
              case tx_res of
                [] \<Rightarrow> act_return (response_text 500 ''Failed to create transaction'')
              | tx_row # _ \<Rightarrow>
                  act_bind (act_lift (px_int px tx_row ''id'')) (\<lambda>transaction_id.
                  act_bind (txn_exec_params px sold_query [SqlInt item_id]) (\<lambda>_.
                  act_bind (txn_commit px) (\<lambda>_.
                  act_return (response_json 200
                    (wobj [(''transaction_id'', WSigned transaction_id), (''item_id'', WSigned item_id),
                           (''buyer_id'', WSigned buyer_id), (''seller_id'', WSigned seller_id),
                           (''final_price'', WDouble bid_amt),
                           (''transaction_time'', WString ''current time'')]))))))))))))
       error_text"

definition root_handler :: "('c server, response) act" where
  "root_handler = act_return (empty_response\<lparr>body := ''Hit from Crow!''\<rparr>)"

subsection \<open>The routes\<close>

text \<open>The calls that the routes of \<open>main\<close> make, with the parameters the router extracts.\<close>

datatype call =
    CRegister request
  | CLogin request
  | CEditUser request
  | CCreateAuction request
  | CPlaceBid request
  | CGetAllItems
  | CGetItemDetails string
  | CGetAuctionDetails string
  | CTransactionsBuyer int
  | CTransactionsSeller int
  | CComplete int
  | CRoot

fun run_call :: "'c pqxx \<Rightarrow> indet \<Rightarrow> call \<Rightarrow> ('c server, response) act" where
  "run_call px ind (CRegister req) = register_user px req"
| "run_call px ind (CLogin req) = login px req"
| "run_call px ind (CEditUser req) = edit_user px req"
| "run_call px ind (CCreateAuction req) = create_auction px ind req"
| "run_call px ind (CPlaceBid req) = place_bid px ind req"
| "run_call px ind CGetAllItems = get_all_items px"
| "run_call px ind (CGetItemDetails i) = get_item_details px i"
| "run_call px ind (CGetAuctionDetails i) = get_auction_details px i"
| "run_call px ind (CTransactionsBuyer i) = get_transactions_for_buyer px (to_int32 i)"
| "run_call px ind (CTransactionsSeller i) = get_transactions_for_seller px (to_int32 i)"
| "run_call px ind (CComplete i) = complete_transaction px (to_int32 i)"
| "run_call px ind CRoot = root_handler"

subsection \<open>Weakest preconditions of the server's actions\<close>

lemma wp_with_txn [wps]:
  "wp (with_txn px block) Q E s =
     (case px_begin px (conn s) of
        Inl e \<Rightarrow> E e s
      | Inr c \<Rightarrow> wp block (\<lambda>x s'. Q x (s'\<lparr>conn := px_end px (conn s')\<rparr>))
                          (\<lambda>e s'. E e (s'\<lparr>conn := px_end px (conn s')\<rparr>)) (s\<lparr>conn := c\<rparr>))"
  by (auto simp: wp_def with_txn_def split: prod.split sum.split)

lemma wp_on_conn:
  "wp (on_conn m) Q E s =
     (case m (conn s) of (Inr x, c) \<Rightarrow> Q x (s\<lparr>conn := c\<rparr>) | (Inl e, c) \<Rightarrow> E e (s\<lparr>conn := c\<rparr>))"
  by (auto simp: wp_def on_conn_def split: prod.split sum.split)

lemma wp_broadcast [wps]:
  "wp (broadcast msg) Q E s = Q () (s\<lparr>sent := sent s @ map (\<lambda>cl. (cl, msg)) (ws_clients s)\<rparr>)"
  by (simp add: wp_def broadcast_def)

lemma code_response_text [simp]: "code (response_text c b) = c"
  by (simp add: response_text_def empty_response_def)

lemma code_response_json [simp]: "code (response_json c w) = c"
  by (simp add: response_json_def response_returnable_def set_header_def)

lemma code_error_text [simp]: "code (error_text e) = 500"
  by (simp add: error_text_def)

lemma code_bid_responses [simp]:
  "code bid_rejected = 400" "code (bid_accepted d) = 200" "code (bid_error e) = 500"
  by (simp_all add: bid_rejected_def bid_accepted_def bid_error_def)

lemma code_root [simp]: "code (empty_response\<lparr>body := t\<rparr>) = 200"
  by (simp add: empty_response_def)

end
