(* ===== verification/Store.thy ===== *)
theory Store
  imports Bidnet "HOL-Library.Multiset"
begin

text \<open>
  The tables of the server (\<open>server/details.txt\<close>, with the columns \<open>items.status\<close> and
  \<open>bids.seller_id\<close> that \<open>server/main.cpp\<close> uses and the file does not list), the effect on them
  of the SQL statements of the auction handlers, and the contract a database gives the handlers:
  the locale \<open>auction_store\<close>. \<open>Memdb\<close> is a database in memory that meets it.

  A \<open>DECIMAL(10,2)\<close> is its number of cents.
\<close>

subsection \<open>Tables\<close>

record user_row =
  u_id :: int
  username :: string
  email :: string
  password_hash :: string

record item_row =
  i_id :: int
  i_user :: int
  i_name :: string
  i_description :: string
  starting_price :: int
  current_price :: int
  bid_end_time :: string
  status :: "string option"

record bid_row =
  b_id :: int
  b_user :: int
  b_item :: int
  bid_amount :: int
  b_seller :: int

record tx_row =
  t_id :: int
  t_item :: int
  t_buyer :: int
  t_seller :: int
  final_price :: int
  transaction_time :: string

record tables =
  users :: "user_row list"
  items :: "item_row list"
  bids :: "bid_row list"
  txs :: "tx_row list"

subsection \<open>Amounts\<close>

definition double_of_cents :: "int \<Rightarrow> double" where
  "double_of_cents k = double_of_frac (k < 0) (nat \<bar>k\<bar>) 100"

definition max_cents :: int where "max_cents = 10 ^ 10"

definition cents_text :: "int \<Rightarrow> string" where
  "cents_text k = (if k < 0 then ''-'' else []) @ dec_digits (nat (\<bar>k\<bar> div 100)) @ ''.''
     @ pad_digits 2 (nat (\<bar>k\<bar> mod 100))"

subsection \<open>Statements\<close>

definition add_user :: "int \<Rightarrow> string \<Rightarrow> string \<Rightarrow> string \<Rightarrow> tables \<Rightarrow> tables" where
  "add_user n un em pw t =
     t\<lparr>users := users t @ [\<lparr>u_id = n, username = un, email = em, password_hash = pw\<rparr>]\<rparr>"

definition set_user :: "string \<Rightarrow> string \<Rightarrow> string \<Rightarrow> tables \<Rightarrow> tables" where
  "set_user un em pw t =
     t\<lparr>users := map (\<lambda>u. if username u = un then u\<lparr>email := em, password_hash := pw\<rparr> else u) (users t)\<rparr>"

definition login_row :: "user_row \<Rightarrow> sql_row" where
  "login_row u = [(''id'', Some (show_int (u_id u))), (''password_hash'', Some (password_hash u))]"

definition login_rows :: "string \<Rightarrow> tables \<Rightarrow> sql_row list" where
  "login_rows un t = map login_row (filter (\<lambda>u. username u = un) (users t))"

definition add_item :: "int \<Rightarrow> int \<Rightarrow> string \<Rightarrow> string \<Rightarrow> int \<Rightarrow> string \<Rightarrow> string option \<Rightarrow> tables \<Rightarrow> tables" where
  "add_item n u name desc k ends st t =
     t\<lparr>items := items t @ [\<lparr>i_id = n, i_user = u, i_name = name, i_description = desc,
         starting_price = k, current_price = k, bid_end_time = ends, status = st\<rparr>]\<rparr>"

definition item_prices :: "int \<Rightarrow> tables \<Rightarrow> int list" where
  "item_prices i t = map current_price (filter (\<lambda>it. i_id it = i) (items t))"

definition price_row :: "int \<Rightarrow> sql_row" where
  "price_row k = [(''current_price'', Some (cents_text k))]"

definition bid_allowed :: "tables \<Rightarrow> int \<Rightarrow> int \<Rightarrow> int \<Rightarrow> bool" where
  "bid_allowed t u i k \<longleftrightarrow>
     u \<in> u_id ` set (users t) \<and> i \<in> i_id ` set (items t) \<and>
     \<not> (\<exists>b \<in> set (bids t). b_user b = u \<and> b_item b = i \<and> bid_amount b = k)"

definition add_bid :: "int \<Rightarrow> int \<Rightarrow> int \<Rightarrow> int \<Rightarrow> int \<Rightarrow> tables \<Rightarrow> tables" where
  "add_bid n u i k sl t =
     t\<lparr>bids := bids t @ [\<lparr>b_id = n, b_user = u, b_item = i, bid_amount = k, b_seller = sl\<rparr>]\<rparr>"

definition set_price :: "int \<Rightarrow> int \<Rightarrow> tables \<Rightarrow> tables" where
  "set_price i k t =
     t\<lparr>items := map (\<lambda>it. if i_id it = i then it\<lparr>current_price := k\<rparr> else it) (items t)\<rparr>"

definition is_highest :: "tables \<Rightarrow> int \<Rightarrow> bid_row \<Rightarrow> bool" where
  "is_highest t i b \<longleftrightarrow> b \<in> set (bids t) \<and> b_item b = i \<and>
     (\<forall>b' \<in> set (bids t). b_item b' = i \<longrightarrow> bid_amount b' \<le> bid_amount b)"

definition bid_as_row :: "bid_row \<Rightarrow> sql_row" where
  "bid_as_row b = [(''user_id'', Some (show_int (b_user b))), (''bid_amount'', Some (cents_text (bid_amount b))),
                   (''seller_id'', Some (show_int (b_seller b)))]"

definition add_tx :: "int \<Rightarrow> int \<Rightarrow> int \<Rightarrow> int \<Rightarrow> int \<Rightarrow> string \<Rightarrow> tables \<Rightarrow> tables" where
  "add_tx n i buyer seller k tm t =
     t\<lparr>txs := txs t @ [\<lparr>t_id = n, t_item = i, t_buyer = buyer, t_seller = seller, final_price = k,
        transaction_time = tm\<rparr>]\<rparr>"

definition tx_allowed :: "tables \<Rightarrow> int \<Rightarrow> int \<Rightarrow> int \<Rightarrow> bool" where
  "tx_allowed t i buyer seller \<longleftrightarrow>
     i \<in> i_id ` set (items t) \<and> buyer \<in> u_id ` set (users t) \<and> seller \<in> u_id ` set (users t)"

definition mark_sold :: "int \<Rightarrow> tables \<Rightarrow> tables" where
  "mark_sold i t =
     t\<lparr>items := map (\<lambda>it. if i_id it = i then it\<lparr>status := Some ''sold''\<rparr> else it) (items t)\<rparr>"

definition id_row :: "int \<Rightarrow> sql_row" where
  "id_row n = [(''id'', Some (show_int n))]"

text \<open>The rows of the queries that list items and sales; \<open>status\<close> may be NULL.\<close>

definition item_as_row :: "item_row \<Rightarrow> sql_row" where
  "item_as_row it =
     [(''id'', Some (show_int (i_id it))), (''user_id'', Some (show_int (i_user it))),
      (''name'', Some (i_name it)), (''description'', Some (i_description it)),
      (''starting_price'', Some (cents_text (starting_price it))),
      (''current_price'', Some (cents_text (current_price it))),
      (''bid_end_time'', Some (bid_end_time it)), (''status'', status it)]"

definition tx_as_row :: "tx_row \<Rightarrow> sql_row" where
  "tx_as_row x =
     [(''id'', Some (show_int (t_id x))), (''item_id'', Some (show_int (t_item x))),
      (''buyer_id'', Some (show_int (t_buyer x))), (''seller_id'', Some (show_int (t_seller x))),
      (''final_price'', Some (cents_text (final_price x))), (''transaction_time'', Some (transaction_time x))]"

lemmas table_defs = add_user_def set_user_def add_item_def add_bid_def set_price_def add_tx_def mark_sold_def

subsection \<open>The contract\<close>

text \<open>
  \<open>view\<close> is what the open transaction reads, \<open>durable\<close> what is committed. Any statement may
  throw (the network, a lock, a constraint); \<open>sql_effects\<close> says what one did that returned. A text that
  \<open>quote\<close> puts into a statement arrives up to its first zero byte. A
  commit that throws may or may not have happened. Serial numbers are fresh and otherwise
  arbitrary. \<open>to_cents\<close> is the conversion of a double to \<open>DECIMAL(10,2)\<close>: it fails outside the
  range of the column, is monotone, and gives back an amount of cents read as a double.
\<close>

locale sql_effects = transactional px durable
  for px :: "'c pqxx" and durable :: "'c \<Rightarrow> tables" +
  fixes view :: "'c \<Rightarrow> tables" and to_cents :: "double \<Rightarrow> int option"
  assumes begin_view: "px_begin px c = Inr c' \<Longrightarrow> view c' = durable c"
    and commit_done: "px_commit px c = (Inr (), c') \<Longrightarrow> durable c' = view c"
    and commit_failed: "px_commit px c = (Inl e, c') \<Longrightarrow> durable c' = durable c \<or> durable c' = view c"
    and register_effect: "px_exec px (register_query px un em pw) c = (Inr rows, c') \<Longrightarrow>
        \<exists>n. n \<notin> u_id ` set (users (view c)) \<and> c_text un \<notin> username ` set (users (view c))
          \<and> c_text em \<notin> email ` set (users (view c))
          \<and> view c' = add_user n (c_text un) (c_text em) (c_text pw) (view c)"
    and edit_effect: "px_exec px (edit_query px un em pw) c = (Inr rows, c') \<Longrightarrow>
        view c' = set_user (c_text un) (c_text em) (c_text pw) (view c) \<and> distinct (map email (users (view c')))"
    and login_effect: "px_exec px (login_query px un) c = (Inr rows, c') \<Longrightarrow>
        view c' = view c \<and> rows = login_rows (c_text un) (view c)"
    and login_fields: "px_int_at px (login_row ur) 0 = Inr (u_id ur)"
        "px_c_str_at px (login_row ur) 1 = Inr (password_hash ur)"
    and create_effect: "px_exec px (create_query px u name desc d dur) c = (Inr rows, c') \<Longrightarrow> d \<noteq> NaN \<Longrightarrow>
        \<exists>n k ends st. to_cents d = Some k \<and> n \<notin> i_id ` set (items (view c)) \<and> u \<in> u_id ` set (users (view c))
          \<and> view c' = add_item n u (c_text name) (c_text desc) k ends st (view c)"
    and read_exec: "px_exec px all_items_query c = (Inr rows, c') \<Longrightarrow> view c' = view c"
    and read_params: "q \<in> {item_query, buyer_query, seller_query} \<Longrightarrow>
        px_exec_params px q as c = (Inr rows, c') \<Longrightarrow> view c' = view c"
    and price_effect: "px_exec_params px price_query [SqlInt i] c = (Inr rows, c') \<Longrightarrow>
        view c' = view c \<and> rows = map price_row (item_prices i (view c))"
    and price_field: "px_double px (price_row k) ''current_price'' = Inr (double_of_cents k)"
    and bid_effect: "px_exec_params px insert_bid_query [SqlInt u, SqlInt i, SqlDouble d, SqlInt sl] c
          = (Inr rows, c') \<Longrightarrow> d \<noteq> NaN \<Longrightarrow>
        \<exists>n k. to_cents d = Some k \<and> bid_allowed (view c) u i k \<and> n \<notin> b_id ` set (bids (view c))
          \<and> view c' = add_bid n u i k sl (view c)"
    and set_price_effect: "px_exec_params px update_price_query [SqlDouble d, SqlInt i] c = (Inr rows, c') \<Longrightarrow>
        to_cents d = Some k \<Longrightarrow> view c' = set_price i k (view c)"
    and highest_effect: "px_exec_params px highest_bid_query [SqlInt i] c = (Inr rows, c') \<Longrightarrow>
        view c' = view c \<and> (rows = [] \<and> (\<forall>b \<in> set (bids (view c)). b_item b \<noteq> i)
          \<or> (\<exists>b. rows = [bid_as_row b] \<and> is_highest (view c) i b))"
    and bid_fields: "px_int px (bid_as_row b) ''user_id'' = Inr (b_user b)"
        "px_int px (bid_as_row b) ''seller_id'' = Inr (b_seller b)"
        "px_double px (bid_as_row b) ''bid_amount'' = Inr (double_of_cents (bid_amount b))"
    and tx_effect: "px_exec_params px insert_transaction_query [SqlInt i, SqlInt u, SqlInt sl, SqlDouble d] c
          = (Inr rows, c') \<Longrightarrow> d \<noteq> NaN \<Longrightarrow>
        \<exists>n k tm. to_cents d = Some k \<and> tx_allowed (view c) i u sl \<and> n \<notin> t_id ` set (txs (view c)) \<and> rows = [id_row n]
          \<and> view c' = add_tx n i u sl k tm (view c)"
    and id_field: "px_int px (id_row n) ''id'' = Inr n"
    and sold_effect: "px_exec_params px sold_query [SqlInt i] c = (Inr rows, c') \<Longrightarrow>
        view c' = mark_sold i (view c)"
    and cents_range: "to_cents d = Some k \<Longrightarrow> \<bar>k\<bar> < max_cents"
    and cents_exact: "\<bar>k\<bar> < max_cents \<Longrightarrow> to_cents (double_of_cents k) = Some k"
    and cents_mono: "to_cents d = Some k \<Longrightarrow> to_cents d' = Some k' \<Longrightarrow> double_le d d' \<Longrightarrow> k \<le> k'"

text \<open>A database that answers: the statements the tables allow do return.\<close>

locale auction_store = sql_effects px durable view to_cents
  for px :: "'c pqxx" and durable :: "'c \<Rightarrow> tables" and view :: "'c \<Rightarrow> tables"
    and to_cents :: "double \<Rightarrow> int option" +
  assumes begin_returns: "\<exists>c'. px_begin px c = Inr c'"
    and commit_returns: "\<exists>c'. px_commit px c = (Inr (), c')"
    and price_returns: "\<exists>rows c'. px_exec_params px price_query [SqlInt i] c = (Inr rows, c')"
    and bid_returns: "to_cents d = Some k \<Longrightarrow> bid_allowed (view c) u i k \<Longrightarrow>
        \<exists>rows c'. px_exec_params px insert_bid_query [SqlInt u, SqlInt i, SqlDouble d, SqlInt sl] c = (Inr rows, c')"
    and set_price_returns: "to_cents d = Some k \<Longrightarrow>
        \<exists>rows c'. px_exec_params px update_price_query [SqlDouble d, SqlInt i] c = (Inr rows, c')"
    and highest_returns: "\<exists>rows c'. px_exec_params px highest_bid_query [SqlInt i] c = (Inr rows, c')"
    and tx_returns: "to_cents d = Some k \<Longrightarrow> tx_allowed (view c) i u sl \<Longrightarrow>
        \<exists>rows c'. px_exec_params px insert_transaction_query [SqlInt i, SqlInt u, SqlInt sl, SqlDouble d] c
          = (Inr rows, c')"
    and item_rows: "\<exists>c'. px_exec_params px item_query [SqlText (show_int i)] c
          = (Inr (map item_as_row (filter (\<lambda>it. i_id it = i) (items (view c)))), c')"
    and item_fields: "px_int px (item_as_row it) ''id'' = Inr (i_id it)"
        "px_int px (item_as_row it) ''user_id'' = Inr (i_user it)"
        "px_string px (item_as_row it) ''name'' = Inr (i_name it)"
        "px_string px (item_as_row it) ''description'' = Inr (i_description it)"
        "px_double px (item_as_row it) ''starting_price'' = Inr (double_of_cents (starting_price it))"
        "px_double px (item_as_row it) ''current_price'' = Inr (double_of_cents (current_price it))"
        "px_string px (item_as_row it) ''bid_end_time'' = Inr (bid_end_time it)"
        "status it = Some st \<Longrightarrow> px_string px (item_as_row it) ''status'' = Inr st"
        "status it = None \<Longrightarrow> \<exists>e. px_string px (item_as_row it) ''status'' = Inl e"
    and tx_rows: "\<exists>c' xs. px_exec_params px buyer_query [SqlInt i] c = (Inr (map tx_as_row xs), c')
          \<and> mset xs = mset (filter (\<lambda>x. t_buyer x = i) (txs (view c)))"
        "\<exists>c' xs. px_exec_params px seller_query [SqlInt i] c = (Inr (map tx_as_row xs), c')
          \<and> mset xs = mset (filter (\<lambda>x. t_seller x = i) (txs (view c)))"
    and tx_fields: "px_int px (tx_as_row x) ''id'' = Inr (t_id x)"
        "px_int px (tx_as_row x) ''item_id'' = Inr (t_item x)"
        "px_int px (tx_as_row x) ''buyer_id'' = Inr (t_buyer x)"
        "px_int px (tx_as_row x) ''seller_id'' = Inr (t_seller x)"
        "px_double px (tx_as_row x) ''final_price'' = Inr (double_of_cents (final_price x))"
        "px_string px (tx_as_row x) ''transaction_time'' = Inr (transaction_time x)"
    and sold_returns: "\<exists>rows c'. px_exec_params px sold_query [SqlInt i] c = (Inr rows, c')"
    and login_returns: "\<exists>rows c'. px_exec px (login_query px un) c = (Inr rows, c')"
    and register_returns: "un \<notin> username ` set (users (view c)) \<Longrightarrow> em \<notin> email ` set (users (view c)) \<Longrightarrow>
        length un \<le> 50 \<Longrightarrow> length em \<le> 100 \<Longrightarrow> nul \<notin> set (un @ em @ pw) \<Longrightarrow>
        \<exists>rows c'. px_exec px (register_query px un em pw) c = (Inr rows, c')"

end
