(* ===== verification/Auction.thy ===== *)
theory Auction
  imports Store
begin

text \<open>
  The auction as an abstract machine on the tables: one rule per thing a handler of
  \<open>server/main.cpp\<close> may commit, and the invariant of the tables it keeps. \<open>Bidding\<close> shows that
  every handler either leaves the committed tables alone or takes one step of this machine.
\<close>

subsection \<open>Steps\<close>

definition bid_tables :: "int \<Rightarrow> int \<Rightarrow> int \<Rightarrow> int \<Rightarrow> int \<Rightarrow> tables \<Rightarrow> tables" where
  "bid_tables n u i k sl t = set_price i k (add_bid n u i k sl t)"

definition sell_tables :: "int \<Rightarrow> int \<Rightarrow> bid_row \<Rightarrow> int \<Rightarrow> string \<Rightarrow> tables \<Rightarrow> tables" where
  "sell_tables n i b k tm t = mark_sold i (add_tx n i (b_user b) (b_seller b) k tm t)"

text \<open>The checks of \<open>place_bid\<close> against the price it reads, and of the database.\<close>

definition bid_ok :: "(double \<Rightarrow> int option) \<Rightarrow> tables \<Rightarrow> int \<Rightarrow> int \<Rightarrow> double \<Rightarrow> int \<Rightarrow> bool" where
  "bid_ok to_cents t u i d k \<longleftrightarrow>
     (case item_prices i t of [] \<Rightarrow> False | p # _ \<Rightarrow> \<not> double_le d (double_of_cents p))
     \<and> to_cents d = Some k \<and> bid_allowed t u i k"

inductive auction_step :: "(double \<Rightarrow> int option) \<Rightarrow> tables \<Rightarrow> tables \<Rightarrow> bool" for to_cents where
  Register: "n \<notin> u_id ` set (users t) \<Longrightarrow> un \<notin> username ` set (users t) \<Longrightarrow> em \<notin> email ` set (users t) \<Longrightarrow>
     auction_step to_cents t (add_user n un em pw t)"
| Edit: "distinct (map email (users (set_user un em pw t))) \<Longrightarrow>
     auction_step to_cents t (set_user un em pw t)"
| Create: "n \<notin> i_id ` set (items t) \<Longrightarrow> u \<in> u_id ` set (users t) \<Longrightarrow> to_cents d = Some k \<Longrightarrow>
     auction_step to_cents t (add_item n u name desc k ends st t)"
| Bid: "bid_ok to_cents t u i d k \<Longrightarrow> d \<noteq> NaN \<Longrightarrow> \<not> double_le d double_zero \<Longrightarrow> n \<notin> b_id ` set (bids t) \<Longrightarrow>
     auction_step to_cents t (bid_tables n u i k sl t)"
| Sell: "is_highest t i b \<Longrightarrow> tx_allowed t i (b_user b) (b_seller b) \<Longrightarrow>
     to_cents (double_of_cents (bid_amount b)) = Some k \<Longrightarrow> n \<notin> t_id ` set (txs t) \<Longrightarrow>
     auction_step to_cents t (sell_tables n i b k tm t)"

inductive_cases auction_stepE: "auction_step to_cents t t'"

subsection \<open>The invariant\<close>

definition users_ok :: "tables \<Rightarrow> bool" where
  "users_ok t \<longleftrightarrow> distinct (map u_id (users t)) \<and> distinct (map username (users t))
     \<and> distinct (map email (users t))"

text \<open>
  Of one item: no bid on it exceeds its price, and the price is the starting price or the
  amount of a bid on it.
\<close>

definition price_ok :: "tables \<Rightarrow> item_row \<Rightarrow> bool" where
  "price_ok t it \<longleftrightarrow>
     (\<forall>b \<in> set (bids t). b_item b = i_id it \<longrightarrow> bid_amount b \<le> current_price it)
     \<and> (current_price it = starting_price it
        \<or> (\<exists>b \<in> set (bids t). b_item b = i_id it \<and> bid_amount b = current_price it))
     \<and> starting_price it \<le> current_price it \<and> \<bar>current_price it\<bar> < max_cents"

definition bid_row_ok :: "tables \<Rightarrow> bid_row \<Rightarrow> bool" where
  "bid_row_ok t b \<longleftrightarrow> b_item b \<in> i_id ` set (items t) \<and> b_user b \<in> u_id ` set (users t)
     \<and> 0 \<le> bid_amount b \<and> bid_amount b < max_cents"

text \<open>A sale is to a bidder, at the amount of a bid of theirs.\<close>

definition tx_row_ok :: "tables \<Rightarrow> tx_row \<Rightarrow> bool" where
  "tx_row_ok t x \<longleftrightarrow> (\<exists>b \<in> set (bids t). b_item b = t_item x \<and> b_user b = t_buyer x
     \<and> b_seller b = t_seller x \<and> bid_amount b = final_price x)"

definition tables_ok :: "tables \<Rightarrow> bool" where
  "tables_ok t \<longleftrightarrow> users_ok t \<and> distinct (map i_id (items t)) \<and> distinct (map b_id (bids t))
     \<and> (\<forall>it \<in> set (items t). price_ok t it) \<and> (\<forall>b \<in> set (bids t). bid_row_ok t b)
     \<and> (\<forall>x \<in> set (txs t). tx_row_ok t x)"

definition empty_tables :: tables where
  "empty_tables = \<lparr>users = [], items = [], bids = [], txs = []\<rparr>"

lemma tables_ok_empty [simp]: "tables_ok empty_tables"
  by (simp add: empty_tables_def tables_ok_def users_ok_def)

text \<open>Nothing that was sold or bid is lost, and no price falls.\<close>

definition grows :: "tables \<Rightarrow> tables \<Rightarrow> bool" where
  "grows t t' \<longleftrightarrow> set (bids t) \<subseteq> set (bids t') \<and> set (txs t) \<subseteq> set (txs t')
     \<and> (\<forall>it \<in> set (items t). \<exists>it' \<in> set (items t'). i_id it' = i_id it
          \<and> starting_price it' = starting_price it \<and> current_price it \<le> current_price it')"

lemma grows_refl [simp]: "grows t t"
  by (auto simp: grows_def)

lemma grows_trans:
  assumes "grows t t'" "grows t' t''" shows "grows t t''"
proof -
  have "\<exists>it'' \<in> set (items t''). i_id it'' = i_id it \<and> starting_price it'' = starting_price it
      \<and> current_price it \<le> current_price it''" if it: "it \<in> set (items t)" for it
  proof -
    from assms(1) it obtain it' where 1: "it' \<in> set (items t')" "i_id it' = i_id it"
      "starting_price it' = starting_price it" "current_price it \<le> current_price it'"
      unfolding grows_def by blast
    from assms(2) 1(1) obtain it'' where "it'' \<in> set (items t'')" "i_id it'' = i_id it'"
      "starting_price it'' = starting_price it'" "current_price it' \<le> current_price it''"
      unfolding grows_def by blast
    with 1 show ?thesis by auto
  qed
  moreover have "set (bids t) \<subseteq> set (bids t'')" "set (txs t) \<subseteq> set (txs t'')"
    using assms unfolding grows_def by blast+
  ultimately show ?thesis unfolding grows_def by blast
qed

subsection \<open>Amounts\<close>

lemma double_le_minus_inf [simp]: "d \<noteq> NaN \<Longrightarrow> double_le (Inf True) d"
  by (cases d) simp_all

lemma double_le_inf [simp]: "d \<noteq> NaN \<Longrightarrow> double_le d (Inf False)"
proof (cases d)
  case (Inf b)
  then show ?thesis by (cases b) simp_all
qed simp_all

lemma double_le_total: assumes "d \<noteq> NaN" "d' \<noteq> NaN" shows "double_le d d' \<or> double_le d' d"
proof (cases d)
  case (Fin s m e)
  show ?thesis
  proof (cases d')
    case (Fin t n f)
    then show ?thesis using \<open>d = Fin s m e\<close> by (simp only: double_le_fin) linarith
  next
    case (Inf b)
    with assms show ?thesis by (cases b) simp_all
  qed (simp add: assms)
next
  case (Inf b)
  with assms show ?thesis by (cases b) simp_all
qed (simp add: assms)

lemma double_of_cents_not_nan [simp]: "double_of_cents k \<noteq> NaN"
  by (simp add: double_of_cents_def double_of_frac_def split: prod.split)

lemma double_of_cents_zero [simp]: "double_of_cents 0 = double_zero"
  by (simp add: double_of_cents_def double_of_frac_def double_zero_def)

lemma double_le_cents:
  assumes "0 \<le> k" "k < max_cents" "0 \<le> p" "p < max_cents"
  shows "double_le (double_of_cents k) (double_of_cents p) \<longleftrightarrow> k \<le> p"
proof -
  have small: "real (nat j) / real 100 < 2 ^ 27" if "j < max_cents" for j
    using that by (simp add: max_cents_def)
  have fin: "finite_double (double_of_cents j)" if "0 \<le> j" "j < max_cents" for j
    using that finite_of_frac_small [OF _ small] by (simp add: double_of_cents_def)
  have less: "dval (double_of_cents i) < dval (double_of_cents j)" if "0 \<le> i" "i < j" "j < max_cents" for i j
    using that double_of_frac_separated [of 100 100 "nat i" "nat j"] small [of j]
    by (simp add: double_of_cents_def field_simps)
  have "double_le (double_of_cents k) (double_of_cents p) \<longleftrightarrow> dval (double_of_cents k) \<le> dval (double_of_cents p)"
    using fin assms by (simp add: double_le_dval)
  also have "\<dots> \<longleftrightarrow> k \<le> p"
    using less [of k p] less [of p k] assms by (cases k p rule: linorder_cases) auto
  finally show ?thesis .
qed

text \<open>What the tables rely on of the conversion to cents.\<close>

locale cents =
  fixes to_cents :: "double \<Rightarrow> int option"
  assumes cents_range: "to_cents d = Some k \<Longrightarrow> \<bar>k\<bar> < max_cents"
    and cents_exact: "\<bar>k\<bar> < max_cents \<Longrightarrow> to_cents (double_of_cents k) = Some k"
    and cents_mono: "to_cents d = Some k \<Longrightarrow> to_cents d' = Some k' \<Longrightarrow> double_le d d' \<Longrightarrow> k \<le> k'"
begin

lemma above_price:
  assumes "\<not> double_le d (double_of_cents p)" "d \<noteq> NaN" "to_cents d = Some k" "\<bar>p\<bar> < max_cents"
  shows "p \<le> k"
  using cents_mono [OF cents_exact [OF assms(4)] assms(3)] double_le_total [of d "double_of_cents p"] assms
  by simp

end

subsection \<open>Every step keeps the invariant\<close>

lemma item_prices_hd:
  assumes "item_prices i t = p # ps"
  shows "\<exists>it \<in> set (items t). i_id it = i \<and> current_price it = p"
proof -
  have "p \<in> set (item_prices i t)" using assms by simp
  then show ?thesis by (auto simp: item_prices_def)
qed

lemma unique_item:
  "distinct (map i_id (items t)) \<Longrightarrow> it \<in> set (items t) \<Longrightarrow> it' \<in> set (items t) \<Longrightarrow> i_id it = i_id it' \<Longrightarrow> it = it'"
  by (metis distinct_map inj_onD)

lemma bid_ok_price:
  assumes "bid_ok to_cents t u i d k" "distinct (map i_id (items t))" "it \<in> set (items t)" "i_id it = i"
  shows "\<not> double_le d (double_of_cents (current_price it))"
proof -
  obtain p ps where "item_prices i t = p # ps" "\<not> double_le d (double_of_cents p)"
    using assms(1) by (auto simp: bid_ok_def split: list.splits)
  with item_prices_hd [OF this(1)] unique_item [OF assms(2)] assms(3,4) show ?thesis by metis
qed

lemma ids_of_maps [simp]:
  "map i_id (map (\<lambda>it. if i_id it = i then it\<lparr>current_price := k\<rparr> else it) its) = map i_id its"
  "map i_id (map (\<lambda>it. if i_id it = i then it\<lparr>status := st\<rparr> else it) its) = map i_id its"
  "map u_id (map (\<lambda>u. if username u = un then u\<lparr>email := em, password_hash := pw\<rparr> else u) us) = map u_id us"
  "map username (map (\<lambda>u. if username u = un then u\<lparr>email := em, password_hash := pw\<rparr> else u) us) = map username us"
  by (simp_all)

lemma users_ok_add_user:
  "users_ok t \<Longrightarrow> n \<notin> u_id ` set (users t) \<Longrightarrow> un \<notin> username ` set (users t) \<Longrightarrow> em \<notin> email ` set (users t) \<Longrightarrow>
     users_ok (add_user n un em pw t)"
  by (auto simp: users_ok_def add_user_def)

lemma users_ok_set_user:
  "users_ok t \<Longrightarrow> distinct (map email (users (set_user un em pw t))) \<Longrightarrow> users_ok (set_user un em pw t)"
  by (simp add: users_ok_def set_user_def comp_def if_distrib cong: if_cong)

lemma tables_ok_register [step_inv]:
  assumes "tables_ok t" "n \<notin> u_id ` set (users t)" "un \<notin> username ` set (users t)" "em \<notin> email ` set (users t)"
  shows "tables_ok (add_user n un em pw t)"
proof -
  have "users_ok (add_user n un em pw t)" using assms by (simp add: tables_ok_def users_ok_add_user)
  with assms(1) show ?thesis
    by (auto simp: tables_ok_def add_user_def price_ok_def bid_row_ok_def tx_row_ok_def)
qed

lemma tables_ok_edit [step_inv]:
  assumes "tables_ok t" "distinct (map email (users (set_user un em pw t)))"
  shows "tables_ok (set_user un em pw t)"
proof -
  have "users_ok (set_user un em pw t)" using assms by (simp add: tables_ok_def users_ok_set_user)
  moreover have "u_id ` set (users (set_user un em pw t)) = u_id ` set (users t)"
    unfolding set_user_def by (simp add: ids_of_maps(3) flip: set_map del: map_map)
  ultimately show ?thesis using assms(1)
    by (simp add: tables_ok_def set_user_def price_ok_def bid_row_ok_def tx_row_ok_def)
qed

lemma tables_ok_create [step_inv]:
  assumes "tables_ok t" "n \<notin> i_id ` set (items t)" "\<bar>k\<bar> < max_cents"
  shows "tables_ok (add_item n u name desc k ends st t)"
proof -
  have "b_item b \<noteq> n" if "b \<in> set (bids t)" for b
    using assms(1,2) that by (auto simp: tables_ok_def bid_row_ok_def)
  with assms show ?thesis
    by (auto simp: tables_ok_def users_ok_def add_item_def price_ok_def bid_row_ok_def tx_row_ok_def)
qed

lemma bid_tables_item:
  "it \<in> set (items t) \<Longrightarrow>
     (if i_id it = i then it\<lparr>current_price := k\<rparr> else it) \<in> set (items (bid_tables n u i k sl t))"
  by (simp add: bid_tables_def set_price_def add_bid_def)

lemma tables_ok_bid [step_inv]:
  assumes ok: "tables_ok t" and n: "n \<notin> b_id ` set (bids t)" and k: "0 \<le> k" "k < max_cents"
    and ids: "u \<in> u_id ` set (users t)" "i \<in> i_id ` set (items t)"
    and le: "\<And>it. it \<in> set (items t) \<Longrightarrow> i_id it = i \<Longrightarrow> current_price it \<le> k"
  shows "tables_ok (bid_tables n u i k sl t)"
proof -
  let ?t = "bid_tables n u i k sl t"
  have bids: "set (bids ?t) = insert \<lparr>b_id = n, b_user = u, b_item = i, bid_amount = k, b_seller = sl\<rparr> (set (bids t))"
    by (simp add: bid_tables_def set_price_def add_bid_def)
  have users: "users ?t = users t" and txs: "txs ?t = txs t" and iids: "map i_id (items ?t) = map i_id (items t)"
    and items: "items ?t = map (\<lambda>it. if i_id it = i then it\<lparr>current_price := k\<rparr> else it) (items t)"
    by (simp_all add: bid_tables_def set_price_def add_bid_def del: map_map)
  have iset: "i_id ` set (items ?t) = i_id ` set (items t)" using iids by (metis set_map)
  have "price_ok ?t it'" if it': "it' \<in> set (items ?t)" for it'
  proof -
    obtain it where it: "it \<in> set (items t)" "it' = (if i_id it = i then it\<lparr>current_price := k\<rparr> else it)"
      using it' unfolding items set_map by blast
    have p: "price_ok t it" using ok it(1) by (simp add: tables_ok_def)
    show ?thesis
    proof (cases "i_id it = i")
      case True
      with it p le [OF it(1)] k show ?thesis by (auto simp: price_ok_def bids)
    next
      case False
      with it p show ?thesis by (auto simp: price_ok_def bids)
    qed
  qed
  moreover have "\<forall>b \<in> set (bids ?t). bid_row_ok ?t b"
    using ok ids k by (simp add: tables_ok_def bid_row_ok_def bids users iset)
  moreover have "\<forall>x \<in> set (txs ?t). tx_row_ok ?t x"
    using ok by (simp add: tables_ok_def tx_row_ok_def bids txs)
  moreover have "distinct (map b_id (bids ?t))"
    using ok n by (simp add: tables_ok_def bid_tables_def set_price_def add_bid_def)
  ultimately show ?thesis using ok unfolding tables_ok_def by (simp add: users_ok_def users iids)
qed

lemma sell_tables_item:
  "it \<in> set (items t) \<Longrightarrow>
     (if i_id it = i then it\<lparr>status := Some ''sold''\<rparr> else it) \<in> set (items (sell_tables n i b k tm t))"
  by (simp add: sell_tables_def mark_sold_def add_tx_def)

lemma tables_ok_sell [step_inv]:
  assumes ok: "tables_ok t" and b: "is_highest t i b"
  shows "tables_ok (sell_tables n i b (bid_amount b) tm t)"
proof -
  let ?t = "sell_tables n i b (bid_amount b) tm t"
  have eqs: "users ?t = users t" "bids ?t = bids t" "map i_id (items ?t) = map i_id (items t)"
    "items ?t = map (\<lambda>it. if i_id it = i then it\<lparr>status := Some ''sold''\<rparr> else it) (items t)"
    by (simp_all add: sell_tables_def mark_sold_def add_tx_def del: map_map)
  have iset: "i_id ` set (items ?t) = i_id ` set (items t)" using eqs(3) by (metis set_map)
  have txs: "set (txs ?t) = insert \<lparr>t_id = n, t_item = i, t_buyer = b_user b, t_seller = b_seller b,
      final_price = bid_amount b,
      transaction_time = tm\<rparr> (set (txs t))"
    by (simp add: sell_tables_def mark_sold_def add_tx_def)
  have "\<forall>it' \<in> set (items ?t). price_ok ?t it'"
    using ok by (auto simp: eqs(4) price_ok_def eqs(2) tables_ok_def)
  moreover have "\<forall>b \<in> set (bids ?t). bid_row_ok ?t b"
    using ok by (simp add: tables_ok_def bid_row_ok_def eqs(1,2) iset)
  moreover have "\<forall>x \<in> set (txs ?t). tx_row_ok ?t x"
    using ok b by (auto simp: tables_ok_def tx_row_ok_def eqs(2) txs is_highest_def)
  ultimately show ?thesis using ok unfolding tables_ok_def by (simp add: users_ok_def eqs(1,2,3))
qed

context cents
begin

lemma nonneg_cents: "\<not> double_le d double_zero \<Longrightarrow> d \<noteq> NaN \<Longrightarrow> to_cents d = Some k \<Longrightarrow> 0 \<le> k"
  using above_price [of d 0 k] by (simp add: max_cents_def)

lemma bid_ok_raises:
  assumes "bid_ok to_cents t u i d k" "d \<noteq> NaN" "tables_ok t" "it \<in> set (items t)" "i_id it = i"
  shows "current_price it \<le> k"
proof (rule above_price)
  show "\<not> double_le d (double_of_cents (current_price it))"
    using bid_ok_price assms by (simp add: tables_ok_def)
  show "to_cents d = Some k" using assms(1) by (simp add: bid_ok_def)
  show "\<bar>current_price it\<bar> < max_cents" using assms(3,4) by (simp add: tables_ok_def price_ok_def)
qed (fact assms)

lemma highest_cents:
  assumes "tables_ok t" "is_highest t i b" "to_cents (double_of_cents (bid_amount b)) = Some k"
  shows "k = bid_amount b"
proof -
  have "bid_row_ok t b" using assms(1,2) by (simp add: tables_ok_def is_highest_def)
  with cents_exact [of "bid_amount b"] assms(3) show ?thesis by (simp add: bid_row_ok_def)
qed

lemma step_keeps_ok: "auction_step to_cents t t' \<Longrightarrow> tables_ok t \<Longrightarrow> tables_ok t'"
proof (induction rule: auction_step.induct)
  case (Bid t u i d k n sl)
  show ?case
  proof (rule tables_ok_bid)
    show "0 \<le> k" using Bid nonneg_cents by (simp add: bid_ok_def)
    show "k < max_cents" using Bid.hyps(1) cents_range [of d k] by (simp add: bid_ok_def)
    show "current_price it \<le> k" if "it \<in> set (items t)" "i_id it = i" for it
      using bid_ok_raises Bid that by blast
  qed (use Bid in \<open>auto simp: bid_ok_def bid_allowed_def\<close>)
next
  case (Sell t i b k n tm)
  with highest_cents tables_ok_sell show ?case by metis
next
  case (Create n t u d k name desc ends st)
  then show ?case using cents_range by (intro tables_ok_create) auto
qed (simp_all add: step_inv)

lemma grows_same_items:
  "set (bids t) \<subseteq> set (bids t') \<Longrightarrow> set (txs t) \<subseteq> set (txs t') \<Longrightarrow> set (items t) \<subseteq> set (items t') \<Longrightarrow> grows t t'"
  by (auto simp: grows_def)

lemma step_grows: "auction_step to_cents t t' \<Longrightarrow> tables_ok t \<Longrightarrow> grows t t'"
proof (induction rule: auction_step.induct)
  case (Bid t u i d k n sl)
  then have le: "current_price it \<le> k" if "it \<in> set (items t)" "i_id it = i" for it
    using bid_ok_raises that by blast
  then have "\<exists>it' \<in> set (items (bid_tables n u i k sl t)). i_id it' = i_id it
      \<and> starting_price it' = starting_price it \<and> current_price it \<le> current_price it'"
    if "it \<in> set (items t)" for it
    using that le by (intro bexI [OF _ bid_tables_item [OF that]]) simp
  then show ?case by (auto simp: grows_def bid_tables_def set_price_def add_bid_def)
next
  case (Sell t i b k n tm)
  have "\<exists>it' \<in> set (items (sell_tables n i b k tm t)). i_id it' = i_id it
      \<and> starting_price it' = starting_price it \<and> current_price it \<le> current_price it'"
    if "it \<in> set (items t)" for it
    by (intro bexI [OF _ sell_tables_item [OF that]]) simp
  then show ?case by (auto simp: grows_def sell_tables_def mark_sold_def add_tx_def)
qed (auto intro!: grows_same_items simp: table_defs)

end

end
