(* ===== verification/Bidding.thy ===== *)
theory Bidding
  imports Auction
begin

text \<open>
  What the auction handlers promise: a refused request leaves the database and the clients as
  they were, whatever the database does; and on a database that meets \<open>auction_store\<close> a bid
  has exactly the outcome of the specification \<open>spec_bid\<close>.
\<close>

subsection \<open>Refused requests change nothing\<close>

context transactional
begin

definition calm :: "'c server \<Rightarrow> 'c server \<Rightarrow> bool" where
  "calm s s' \<longleftrightarrow> durable (conn s') = durable (conn s) \<and> sent s' = sent s \<and> ws_clients s' = ws_clients s"

text \<open>The postcondition of a handler: a response 400 or 404 leaves a calm state.\<close>

definition refusing :: "'c server \<Rightarrow> response \<Rightarrow> 'c server \<Rightarrow> bool" where
  "refusing s r s' \<longleftrightarrow> (code r = 400 \<or> code r = 404 \<longrightarrow> calm s s')"

lemma calm_refl [simp]: "calm s s"
  by (simp add: calm_def)

lemma refusing_other [simp]: "code r \<noteq> 400 \<Longrightarrow> code r \<noteq> 404 \<Longrightarrow> refusing s r s'"
  by (simp add: refusing_def)

lemma refusing_calm: "calm s s' \<Longrightarrow> refusing s r s'"
  by (simp add: refusing_def)

lemma calm_end [simp]: "calm s (s'\<lparr>conn := px_end px (conn s')\<rparr>) = calm s s'"
  by (simp add: calm_def end_durable)

lemma calm_begin: "px_begin px (conn s) = Inr c \<Longrightarrow> calm s (s\<lparr>conn := c\<rparr>)"
  by (simp add: calm_def begin_durable)

lemma wp_exec_calm:
  assumes "\<And>x s'. calm s s' \<Longrightarrow> Q x s'" "\<And>e s'. calm s s' \<Longrightarrow> E e s'"
  shows "wp (txn_exec px q) Q E s"
  using assms exec_durable
  by (auto simp: txn_exec_def wp_on_conn calm_def split: prod.split sum.split)

lemma wp_params_calm:
  assumes "\<And>x s'. calm s s' \<Longrightarrow> Q x s'" "\<And>e s'. calm s s' \<Longrightarrow> E e s'"
  shows "wp (txn_exec_params px q as) Q E s"
  using assms params_durable
  by (auto simp: txn_exec_params_def wp_on_conn calm_def split: prod.split sum.split)

lemma wp_with_txn_calm:
  assumes "\<And>s1. calm s s1 \<Longrightarrow> wp block (\<lambda>x s'. Q x (s'\<lparr>conn := px_end px (conn s')\<rparr>))
      (\<lambda>e s'. E e (s'\<lparr>conn := px_end px (conn s')\<rparr>)) s1" "\<And>e. E e s"
  shows "wp (with_txn px block) Q E s"
  using assms by (auto simp: wps calm_begin split: sum.split)

lemma wp_commit_any: "(\<And>x s'. Q x s') \<Longrightarrow> (\<And>e s'. E e s') \<Longrightarrow> wp (txn_commit px) Q E s"
  by (auto simp: wp_def split: prod.split sum.split)

lemmas refusing_intros = wp_with_txn_calm wp_exec_calm wp_params_calm wp_commit_any

lemmas refusing_simps = wps refusing_def calm_def end_durable

lemma bid_transaction_refusing:
  "wp (bid_transaction px u sl i d) (refusing s) (\<lambda>e s'. True) s"
  unfolding bid_transaction_def
  by (auto simp: refusing_simps simp del: wp_with_txn split: sum.split list.split intro!: refusing_intros)

lemma run_call_refusing: "wp (run_call px ind cl) (refusing s) (\<lambda>e s'. True) s"
proof (cases cl)
  case (CRegister req)
  show ?thesis unfolding CRegister run_call.simps register_user_def Let_def
    by (auto simp: refusing_simps simp del: wp_with_txn split: sum.split list.split intro!: refusing_intros)
next
  case (CLogin req)
  show ?thesis unfolding CLogin run_call.simps login_def Let_def
    by (auto simp: refusing_simps simp del: wp_with_txn split: sum.split list.split intro!: refusing_intros)
next
  case (CEditUser req)
  show ?thesis unfolding CEditUser run_call.simps edit_user_def Let_def
    by (auto simp: refusing_simps simp del: wp_with_txn split: sum.split list.split intro!: refusing_intros)
next
  case (CCreateAuction req)
  show ?thesis unfolding CCreateAuction run_call.simps create_auction_def Let_def
    by (auto simp: refusing_simps simp del: wp_with_txn split: sum.split list.split intro!: refusing_intros)
next
  case (CPlaceBid req)
  show ?thesis unfolding CPlaceBid run_call.simps place_bid_def Let_def
    by (auto simp: wps refusing_calm split: sum.split intro!: wp_mono [OF bid_transaction_refusing])
next
  case CGetAllItems
  show ?thesis unfolding CGetAllItems run_call.simps get_all_items_def Let_def
    by (auto simp: refusing_simps simp del: wp_with_txn split: sum.split list.split intro!: refusing_intros)
next
  case (CGetItemDetails i)
  show ?thesis unfolding CGetItemDetails run_call.simps get_item_details_def Let_def
    by (auto simp: refusing_simps simp del: wp_with_txn split: sum.split list.split intro!: refusing_intros)
next
  case (CGetAuctionDetails i)
  show ?thesis unfolding CGetAuctionDetails run_call.simps get_auction_details_def Let_def
    by (auto simp: refusing_simps simp del: wp_with_txn split: sum.split list.split intro!: refusing_intros)
next
  case (CTransactionsBuyer i)
  show ?thesis unfolding CTransactionsBuyer run_call.simps get_transactions_for_buyer_def get_transactions_def Let_def
    by (auto simp: refusing_simps simp del: wp_with_txn split: sum.split list.split intro!: refusing_intros)
next
  case (CTransactionsSeller i)
  show ?thesis unfolding CTransactionsSeller run_call.simps get_transactions_for_seller_def get_transactions_def Let_def
    by (auto simp: refusing_simps simp del: wp_with_txn split: sum.split list.split intro!: refusing_intros)
next
  case (CComplete i)
  show ?thesis unfolding CComplete run_call.simps complete_transaction_def Let_def
    by (auto simp: refusing_simps simp del: wp_with_txn split: sum.split list.split intro!: refusing_intros)
next
  case CRoot
  show ?thesis unfolding CRoot run_call.simps root_handler_def by (simp add: wps)
qed

end

subsection \<open>Every handler takes at most one step of the auction\<close>

lemma decimal_double_not_nan [simp]: "decimal_double neg n k \<noteq> NaN"
  by (simp add: decimal_double_def double_of_frac_def double_max_def Let_def split: prod.split)

lemma lexical_cast_double_not_nan: "junk \<noteq> NaN \<Longrightarrow> lexical_cast_double junk str \<noteq> NaN"
  by (auto simp: lexical_cast_double_def double_zero_def Let_def split: prod.split option.split)

lemma json_double_not_nan: assumes "json_double ind (load t) k = Inr d" shows "d \<noteq> NaN"
proof -
  obtain v where v: "rv_get (load t) k = Inr v" "rv_d (ind_double ind) v = Inr d"
    using assms by (auto simp: json_double_def)
  have "rv_d double_zero v = Inr d"
    using v rv_d_determinate [OF rv_get_numbers_ok [OF load_numbers_ok v(1)]] by metis
  then show ?thesis
    by (cases v) (auto simp: double_zero_def intro!: lexical_cast_double_not_nan)
qed

context sql_effects
begin

text \<open>The contract gives the tables their conversion to cents.\<close>

lemma is_cents: "cents to_cents"
  by unfold_locales (fact cents_range cents_exact cents_mono)+

definition evolves :: "'c server \<Rightarrow> 'c server \<Rightarrow> bool" where
  "evolves s s' \<longleftrightarrow> durable (conn s') = durable (conn s)
     \<or> auction_step to_cents (durable (conn s)) (durable (conn s'))"

lemma wp_exec_effect:
  assumes "\<And>rows c. px_exec px q (conn s) = (Inr rows, c) \<Longrightarrow> durable c = durable (conn s) \<Longrightarrow> Q rows (s\<lparr>conn := c\<rparr>)"
    and "\<And>e c. durable c = durable (conn s) \<Longrightarrow> E e (s\<lparr>conn := c\<rparr>)"
  shows "wp (txn_exec px q) Q E s"
  using assms exec_durable by (auto simp: txn_exec_def wp_on_conn split: prod.split sum.split)

lemma wp_params_effect:
  assumes "\<And>rows c. px_exec_params px q as (conn s) = (Inr rows, c) \<Longrightarrow> durable c = durable (conn s) \<Longrightarrow>
      Q rows (s\<lparr>conn := c\<rparr>)"
    and "\<And>e c. durable c = durable (conn s) \<Longrightarrow> E e (s\<lparr>conn := c\<rparr>)"
  shows "wp (txn_exec_params px q as) Q E s"
  using assms params_durable by (auto simp: txn_exec_params_def wp_on_conn split: prod.split sum.split)

lemma wp_commit_effect:
  assumes "\<And>c. durable c = view (conn s) \<Longrightarrow> Q () (s\<lparr>conn := c\<rparr>)"
    and "\<And>e c. durable c = durable (conn s) \<or> durable c = view (conn s) \<Longrightarrow> E e (s\<lparr>conn := c\<rparr>)"
  shows "wp (txn_commit px) Q E s"
  using assms commit_done commit_failed
  by (auto simp: txn_commit_def wp_on_conn split: prod.split sum.split)

lemma wp_with_txn_effect:
  assumes "\<And>c. view c = durable (conn s) \<Longrightarrow> durable c = durable (conn s) \<Longrightarrow>
     wp block (\<lambda>x s'. Q x (s'\<lparr>conn := px_end px (conn s')\<rparr>))
              (\<lambda>e s'. E e (s'\<lparr>conn := px_end px (conn s')\<rparr>)) (s\<lparr>conn := c\<rparr>)"
    and "\<And>e. E e s"
  shows "wp (with_txn px block) Q E s"
  using assms begin_view begin_durable by (auto simp: wp_with_txn split: sum.split)

lemmas effect_intros = wp_with_txn_effect wp_exec_effect wp_params_effect wp_commit_effect

lemma evolves_refl [simp]: "durable (conn s') = durable (conn s) \<Longrightarrow> evolves s s'"
  by (simp add: evolves_def)

lemma register_evolves: "wp (register_user px req) (\<lambda>_. evolves s) (\<lambda>_. evolves s) s"
  unfolding register_user_def Let_def
  by (auto simp: wps evolves_def end_durable auction_step.Register simp del: wp_with_txn split: sum.split
      intro!: effect_intros dest!: register_effect)

lemma edit_evolves: "wp (edit_user px req) (\<lambda>_. evolves s) (\<lambda>_. evolves s) s"
  unfolding edit_user_def Let_def
  by (auto simp: wps evolves_def end_durable auction_step.Edit simp del: wp_with_txn split: sum.split
      intro!: effect_intros dest!: edit_effect)

lemma login_evolves: "wp (login px req) (\<lambda>_. evolves s) (\<lambda>_. evolves s) s"
  unfolding login_def Let_def
  by (auto simp: wps end_durable simp del: wp_with_txn split: sum.split list.split intro!: effect_intros)

lemma create_evolves:
  "wp (create_auction px ind req) (\<lambda>_. evolves s) (\<lambda>_. evolves s) s"
  unfolding create_auction_def Let_def
  by (auto simp: wps evolves_def end_durable auction_step.Create simp del: wp_with_txn split: sum.split
      intro!: effect_intros dest!: create_effect json_double_not_nan)

lemma bid_step:
  assumes "d \<noteq> NaN" "\<not> double_le d double_zero"
  shows "item_prices i t = p # ps \<Longrightarrow> \<not> double_le d (double_of_cents p) \<Longrightarrow> to_cents d = Some k \<Longrightarrow>
     bid_allowed t u i k \<Longrightarrow> n \<notin> b_id ` set (bids t) \<Longrightarrow>
     auction_step to_cents t (set_price i k (add_bid n u i k sl t))"
  using auction_step.Bid [of to_cents t u i d k n sl] assms by (simp add: bid_ok_def bid_tables_def)

lemma bid_transaction_evolves:
  assumes "d \<noteq> NaN" "\<not> double_le d double_zero"
  shows "wp (bid_transaction px u sl i d) (\<lambda>_. evolves s) (\<lambda>_. evolves s) s"
  unfolding bid_transaction_def
  by (auto simp: wps evolves_def end_durable price_field simp del: wp_with_txn split: sum.split list.split
      intro!: effect_intros dest!: price_effect bid_effect [OF _ assms(1)])
     (auto dest!: set_price_effect simp: bid_step [OF assms])

lemma place_bid_evolves:
  "wp (place_bid px ind req) (\<lambda>_. evolves s) (\<lambda>_. evolves s) s"
  unfolding place_bid_def Let_def
  by (auto simp: wps split: sum.split intro!: bid_transaction_evolves
      dest: json_double_not_nan)

lemma sell_step:
  "is_highest t i b \<Longrightarrow> tx_allowed t i (b_user b) (b_seller b) \<Longrightarrow>
     to_cents (double_of_cents (bid_amount b)) = Some k \<Longrightarrow> n \<notin> t_id ` set (txs t) \<Longrightarrow>
     auction_step to_cents t (mark_sold i (add_tx n i (b_user b) (b_seller b) k tm t))"
  using auction_step.Sell [of t i b to_cents k n tm] by (simp add: sell_tables_def)

lemma get_all_items_evolves: "wp (get_all_items px) (\<lambda>_. evolves s) (\<lambda>_. evolves s) s"
  unfolding get_all_items_def
  by (auto simp: wps end_durable simp del: wp_with_txn split: sum.split
      intro!: effect_intros dest!: read_exec)

lemma get_item_details_evolves: "wp (get_item_details px i) (\<lambda>_. evolves s) (\<lambda>_. evolves s) s"
  unfolding get_item_details_def
  by (auto simp: wps end_durable simp del: wp_with_txn split: sum.split list.split
      intro!: effect_intros dest!: read_params [rotated])

lemma get_auction_details_evolves: "wp (get_auction_details px i) (\<lambda>_. evolves s) (\<lambda>_. evolves s) s"
  unfolding get_auction_details_def
  by (auto simp: wps end_durable simp del: wp_with_txn split: sum.split list.split
      intro!: effect_intros dest!: read_params [rotated])

lemma get_transactions_evolves:
  "q \<in> {buyer_query, seller_query} \<Longrightarrow>
     wp (get_transactions px q none who) (\<lambda>_. evolves s) (\<lambda>_. evolves s) s"
  unfolding get_transactions_def
  by (auto simp: wps end_durable simp del: wp_with_txn split: sum.split list.split
      intro!: effect_intros dest!: read_params [rotated])

lemma complete_evolves: "wp (complete_transaction px i) (\<lambda>_. evolves s) (\<lambda>_. evolves s) s"
  unfolding complete_transaction_def
  by (auto simp: wps evolves_def end_durable bid_fields id_field simp del: wp_with_txn split: sum.split list.split
      intro!: effect_intros dest!: highest_effect tx_effect sold_effect)
     (auto simp: sell_step)

lemma run_call_evolves:
  "wp (run_call px ind cl) (\<lambda>_. evolves s) (\<lambda>_. evolves s) s"
  by (cases cl)
     (simp_all add: register_evolves login_evolves edit_evolves create_evolves
        place_bid_evolves get_all_items_evolves get_item_details_evolves get_auction_details_evolves
        get_transactions_for_buyer_def get_transactions_for_seller_def get_transactions_evolves
        complete_evolves root_handler_def wp_return)

end

subsection \<open>The outcome of a bid\<close>

datatype bid_outcome = NoItem | TooLow | Accepted int | Failed

definition spec_bid :: "(double \<Rightarrow> int option) \<Rightarrow> tables \<Rightarrow> int \<Rightarrow> int \<Rightarrow> double \<Rightarrow> bid_outcome" where
  "spec_bid to_cents t u i d =
     (case item_prices i t of
        [] \<Rightarrow> NoItem
      | p # _ \<Rightarrow>
          if double_le d (double_of_cents p) then TooLow
          else (case to_cents d of
                  None \<Rightarrow> Failed
                | Some k \<Rightarrow> if bid_allowed t u i k then Accepted k else Failed))"

text \<open>What each outcome shows the client, stores and broadcasts.\<close>

fun bid_answer :: "bid_outcome \<Rightarrow> double \<Rightarrow> response \<Rightarrow> bool" where
  "bid_answer (Accepted k) d r = (r = bid_accepted d)"
| "bid_answer NoItem d r = (r = response_text 404 ''Item not found'')"
| "bid_answer TooLow d r = (r = bid_rejected)"
| "bid_answer Failed d r = (\<exists>e. r = bid_error e)"

fun bid_stored :: "bid_outcome \<Rightarrow> int \<Rightarrow> int \<Rightarrow> int \<Rightarrow> tables \<Rightarrow> tables \<Rightarrow> bool" where
  "bid_stored (Accepted k) u i sl t t' = (\<exists>n. n \<notin> b_id ` set (bids t) \<and> t' = bid_tables n u i k sl t)"
| "bid_stored _ u i sl t t' = (t' = t)"

fun bid_broadcast :: "bid_outcome \<Rightarrow> int \<Rightarrow> double \<Rightarrow> nat list \<Rightarrow> (nat \<times> string) list" where
  "bid_broadcast (Accepted k) i d cls = map (\<lambda>cl. (cl, bid_message i d)) cls"
| "bid_broadcast _ i d cls = []"

definition sale_response :: "int \<Rightarrow> int \<Rightarrow> bid_row \<Rightarrow> response" where
  "sale_response n i b = response_json 200
     (wobj [(''transaction_id'', WSigned n), (''item_id'', WSigned i), (''buyer_id'', WSigned (b_user b)),
            (''seller_id'', WSigned (b_seller b)), (''final_price'', WDouble (double_of_cents (bid_amount b))),
            (''transaction_time'', WString ''current time'')])"

context auction_store
begin

lemma with_txn_returns:
  assumes "\<And>c. view c = durable (conn s) \<Longrightarrow> durable c = durable (conn s) \<Longrightarrow>
     wp block (\<lambda>x s'. Q x (s'\<lparr>conn := px_end px (conn s')\<rparr>))
              (\<lambda>e s'. E e (s'\<lparr>conn := px_end px (conn s')\<rparr>)) (s\<lparr>conn := c\<rparr>)"
  shows "wp (with_txn px block) Q E s"
  using assms begin_returns [of "conn s"] begin_view begin_durable by (auto simp: wp_with_txn)

lemma wp_commit_returns:
  assumes "\<And>c. durable c = view (conn s) \<Longrightarrow> Q () (s\<lparr>conn := c\<rparr>)"
  shows "wp (txn_commit px) Q E s"
  using assms commit_returns [of "conn s"] commit_done by (auto simp: txn_commit_def wp_on_conn)

lemma wp_params_returns:
  assumes "\<exists>rows c. px_exec_params px q as (conn s) = (Inr rows, c)"
    and "\<And>rows c. px_exec_params px q as (conn s) = (Inr rows, c) \<Longrightarrow> durable c = durable (conn s) \<Longrightarrow>
      Q rows (s\<lparr>conn := c\<rparr>)"
  shows "wp (txn_exec_params px q as) Q E s"
  using assms params_durable by (fastforce simp: txn_exec_params_def wp_on_conn)

lemma wp_price:
  assumes "\<And>c. view c = view (conn s) \<Longrightarrow> durable c = durable (conn s) \<Longrightarrow>
     Q (map price_row (item_prices i (view (conn s)))) (s\<lparr>conn := c\<rparr>)"
  shows "wp (txn_exec_params px price_query [SqlInt i]) Q E s"
  using assms price_returns by (intro wp_params_returns) (auto dest!: price_effect)

lemma wp_insert_bid:
  assumes "d \<noteq> NaN"
    and "\<And>n k rows c. to_cents d = Some k \<Longrightarrow> bid_allowed (view (conn s)) u i k \<Longrightarrow> n \<notin> b_id ` set (bids (view (conn s))) \<Longrightarrow>
       view c = add_bid n u i k sl (view (conn s)) \<Longrightarrow> durable c = durable (conn s) \<Longrightarrow> Q rows (s\<lparr>conn := c\<rparr>)"
    and "\<And>e c. \<not> (\<exists>k. to_cents d = Some k \<and> bid_allowed (view (conn s)) u i k) \<Longrightarrow>
       durable c = durable (conn s) \<Longrightarrow> E e (s\<lparr>conn := c\<rparr>)"
  shows "wp (txn_exec_params px insert_bid_query [SqlInt u, SqlInt i, SqlDouble d, SqlInt sl]) Q E s"
proof (cases "\<exists>k. to_cents d = Some k \<and> bid_allowed (view (conn s)) u i k")
  case True
  with bid_returns have "\<exists>rows c. px_exec_params px insert_bid_query
      [SqlInt u, SqlInt i, SqlDouble d, SqlInt sl] (conn s) = (Inr rows, c)" by blast
  then show ?thesis by (rule wp_params_returns) (auto dest!: bid_effect [OF _ assms(1)] intro: assms(2))
next
  case False
  obtain r c where r: "px_exec_params px insert_bid_query [SqlInt u, SqlInt i, SqlDouble d, SqlInt sl] (conn s) = (r, c)"
    by force
  with False bid_effect [OF _ assms(1)] obtain e where "r = Inl e" by (cases r) blast+
  with r params_durable assms(3) [OF False] show ?thesis by (simp add: txn_exec_params_def wp_on_conn)
qed

lemma wp_set_price:
  assumes "to_cents d \<noteq> None"
    and "\<And>rows c. view c = set_price i (the (to_cents d)) (view (conn s)) \<Longrightarrow> durable c = durable (conn s) \<Longrightarrow>
      Q rows (s\<lparr>conn := c\<rparr>)"
  shows "wp (txn_exec_params px update_price_query [SqlDouble d, SqlInt i]) Q E s"
proof -
  obtain k where "to_cents d = Some k" using assms(1) by blast
  with assms(2) set_price_returns show ?thesis
    by (intro wp_params_returns) (auto dest!: set_price_effect)
qed

definition bid_post :: "int \<Rightarrow> int \<Rightarrow> int \<Rightarrow> double \<Rightarrow> 'c server \<Rightarrow> response \<Rightarrow> 'c server \<Rightarrow> bool" where
  "bid_post u sl i d s r s' \<longleftrightarrow>
     (let out = spec_bid to_cents (durable (conn s)) u i d in
      bid_answer out d r
      \<and> bid_stored out u i sl (durable (conn s)) (durable (conn s'))
      \<and> sent s' = sent s @ bid_broadcast out i d (ws_clients s)
      \<and> ws_clients s' = ws_clients s)"

lemma bid_transaction_refines:
  assumes "d \<noteq> NaN"
  shows "wp (bid_transaction px u sl i d) (bid_post u sl i d s)
      (\<lambda>e s'. spec_bid to_cents (durable (conn s)) u i d = Failed \<and>
          durable (conn s') = durable (conn s) \<and> sent s' = sent s \<and> ws_clients s' = ws_clients s) s"
  unfolding bid_transaction_def
  by (auto simp: wps price_field bid_post_def spec_bid_def end_durable bid_tables_def simp del: wp_with_txn
      split: list.split intro!: with_txn_returns wp_price wp_insert_bid [OF assms] wp_set_price wp_commit_returns
      split: option.split) blast

lemma place_bid_refines:
  assumes "rv_ok (load (req_body req))"
    and "json_int ind (load (req_body req)) ''user_id'' = Inr u"
    and "json_int ind (load (req_body req)) ''seller_id'' = Inr sl"
    and "json_int ind (load (req_body req)) ''item_id'' = Inr i"
    and "json_double ind (load (req_body req)) ''bid_amount'' = Inr d"
    and "0 < u" "0 < i" "\<not> double_le d double_zero"
  shows "wp (place_bid px ind req) (bid_post u sl i d s) (\<lambda>e s'. False) s"
  unfolding place_bid_def Let_def using assms
  by (auto simp: wps bid_post_def intro!: wp_mono [OF bid_transaction_refines [OF json_double_not_nan [OF assms(5)]]])

lemma wp_highest:
  assumes "\<And>c. \<forall>b \<in> set (bids (view (conn s))). b_item b \<noteq> i \<Longrightarrow> view c = view (conn s) \<Longrightarrow>
       durable c = durable (conn s) \<Longrightarrow> Q [] (s\<lparr>conn := c\<rparr>)"
    and "\<And>b c. is_highest (view (conn s)) i b \<Longrightarrow> view c = view (conn s) \<Longrightarrow>
       durable c = durable (conn s) \<Longrightarrow> Q [bid_as_row b] (s\<lparr>conn := c\<rparr>)"
  shows "wp (txn_exec_params px highest_bid_query [SqlInt i]) Q E s"
  using assms highest_returns by (intro wp_params_returns) (auto dest!: highest_effect)

lemma wp_insert_tx:
  assumes "d \<noteq> NaN"
    and "\<And>n k tm c. to_cents d = Some k \<Longrightarrow> tx_allowed (view (conn s)) i u sl \<Longrightarrow> n \<notin> t_id ` set (txs (view (conn s))) \<Longrightarrow>
       view c = add_tx n i u sl k tm (view (conn s)) \<Longrightarrow> durable c = durable (conn s) \<Longrightarrow> Q [id_row n] (s\<lparr>conn := c\<rparr>)"
    and "\<And>e c. \<not> (\<exists>k. to_cents d = Some k \<and> tx_allowed (view (conn s)) i u sl) \<Longrightarrow>
       durable c = durable (conn s) \<Longrightarrow> E e (s\<lparr>conn := c\<rparr>)"
  shows "wp (txn_exec_params px insert_transaction_query [SqlInt i, SqlInt u, SqlInt sl, SqlDouble d]) Q E s"
proof (cases "\<exists>k. to_cents d = Some k \<and> tx_allowed (view (conn s)) i u sl")
  case True
  with tx_returns have "\<exists>rows c. px_exec_params px insert_transaction_query
      [SqlInt i, SqlInt u, SqlInt sl, SqlDouble d] (conn s) = (Inr rows, c)" by blast
  then show ?thesis by (rule wp_params_returns) (auto dest!: tx_effect [OF _ assms(1)] intro: assms(2))
next
  case False
  obtain r c where r: "px_exec_params px insert_transaction_query [SqlInt i, SqlInt u, SqlInt sl, SqlDouble d] (conn s)
      = (r, c)" by force
  with False tx_effect [OF _ assms(1)] obtain e where "r = Inl e" by (cases r) blast+
  with r params_durable assms(3) [OF False] show ?thesis by (simp add: txn_exec_params_def wp_on_conn)
qed

lemma wp_sold:
  assumes "\<And>rows c. view c = mark_sold i (view (conn s)) \<Longrightarrow> durable c = durable (conn s) \<Longrightarrow> Q rows (s\<lparr>conn := c\<rparr>)"
  shows "wp (txn_exec_params px sold_query [SqlInt i]) Q E s"
  using assms sold_returns by (intro wp_params_returns) (auto dest!: sold_effect)

text \<open>
  The item goes to a highest bid, at its amount, when the ids of the sale exist; the status of
  the item and earlier sales of it are not consulted.
\<close>

definition sale_post :: "int \<Rightarrow> 'c server \<Rightarrow> response \<Rightarrow> 'c server \<Rightarrow> bool" where
  "sale_post i s r s' \<longleftrightarrow>
     sent s' = sent s \<and> ws_clients s' = ws_clients s \<and>
     (if \<forall>b \<in> set (bids (durable (conn s))). b_item b \<noteq> i
      then r = response_text 404 ''No bids found for the item'' \<and> durable (conn s') = durable (conn s)
      else \<exists>b. is_highest (durable (conn s)) i b \<and>
        (if tx_allowed (durable (conn s)) i (b_user b) (b_seller b)
         then \<exists>n tm. n \<notin> t_id ` set (txs (durable (conn s))) \<and> r = sale_response n i b
                \<and> durable (conn s') = sell_tables n i b (bid_amount b) tm (durable (conn s))
         else (\<exists>e. r = error_text e) \<and> durable (conn s') = durable (conn s)))"

lemma complete_transaction_refines:
  assumes "tables_ok (durable (conn s))"
  shows "wp (complete_transaction px i) (sale_post i s) (\<lambda>e s'. False) s"
proof -
  have k: "to_cents (double_of_cents (bid_amount b)) = Some (bid_amount b)"
    if "is_highest (durable (conn s)) i b" for b
    using that assms cents_exact [of "bid_amount b"] by (simp add: tables_ok_def is_highest_def bid_row_ok_def)
  show ?thesis unfolding complete_transaction_def
    by (auto simp: wps bid_fields id_field k end_durable sale_post_def sale_response_def sell_tables_def
        simp del: wp_with_txn
        intro!: with_txn_returns wp_highest wp_insert_tx wp_sold wp_commit_returns)
       (auto simp: is_highest_def)
qed

end

end
