(* ===== verification/Accounts.thy ===== *)
theory Accounts
  imports Bidding
begin

text \<open>
  Accounts: what \<open>register_user\<close> and \<open>login\<close> of \<open>server/main.cpp\<close> answer, and that a user who
  registered can log in with the same name and password.
\<close>

definition login_answer :: "tables \<Rightarrow> string \<Rightarrow> string \<Rightarrow> response" where
  "login_answer t un pw =
     (case filter (\<lambda>u. username u = un) (users t) of
        [] \<Rightarrow> response_text 400 ''User not found''
      | u # _ \<Rightarrow>
          if password_hash u = pw
          then response_json 200 (wobj [(''message'', WString ''Login successful''), (''id'', WSigned (u_id u))])
          else response_json 400 (wobj [(''message'', WString ''Invalid password'')]))"

text \<open>The body of a request that names a user.\<close>

definition credentials :: "request \<Rightarrow> string \<Rightarrow> string \<Rightarrow> bool" where
  "credentials req un pw \<longleftrightarrow> rv_ok (load (req_body req))
     \<and> json_text (load (req_body req)) ''username'' = Inr un
     \<and> json_text (load (req_body req)) ''password'' = Inr pw"

context auction_store
begin

lemma wp_exec_returns:
  assumes "\<exists>rows c. px_exec px q (conn s) = (Inr rows, c)"
    and "\<And>rows c. px_exec px q (conn s) = (Inr rows, c) \<Longrightarrow> durable c = durable (conn s) \<Longrightarrow>
      Q rows (s\<lparr>conn := c\<rparr>)"
  shows "wp (txn_exec px q) Q E s"
  using assms exec_durable by (fastforce simp: txn_exec_def wp_on_conn)

lemma wp_login_query:
  assumes "\<And>c. view c = view (conn s) \<Longrightarrow> durable c = durable (conn s) \<Longrightarrow>
     Q (login_rows (c_text un) (view (conn s))) (s\<lparr>conn := c\<rparr>)"
  shows "wp (txn_exec px (login_query px un)) Q E s"
  using assms login_returns by (intro wp_exec_returns) (auto dest!: login_effect)

lemma login_refines:
  assumes "credentials req un pw"
  shows "wp (login px req)
     (\<lambda>r s'. r = login_answer (durable (conn s)) (c_text un) pw \<and> durable (conn s') = durable (conn s)
        \<and> sent s' = sent s \<and> ws_clients s' = ws_clients s) (\<lambda>e s'. False) s"
  using assms unfolding login_def Let_def credentials_def
  by (cases "filter (\<lambda>u. username u = c_text un) (users (durable (conn s)))")
     (auto simp: wps login_rows_def login_answer_def login_fields end_durable simp del: wp_with_txn One_nat_def
      intro!: with_txn_returns wp_login_query)

lemma register_refines:
  assumes "credentials req un pw" "json_text (load (req_body req)) ''email'' = Inr em"
    and "un \<notin> username ` set (users (durable (conn s)))" "em \<notin> email ` set (users (durable (conn s)))"
    and "length un \<le> 50" "length em \<le> 100" "nul \<notin> set (un @ em @ pw)"
  shows "wp (register_user px req)
     (\<lambda>r s'. r = response_text 201 ''User registered successfully''
        \<and> (\<exists>n. n \<notin> u_id ` set (users (durable (conn s)))
             \<and> durable (conn s') = add_user n un em pw (durable (conn s)))
        \<and> sent s' = sent s \<and> ws_clients s' = ws_clients s) (\<lambda>e s'. False) s"
proof -
  have nuls: "c_text un = un" "c_text em = em" "c_text pw = pw" using assms(7) by simp_all
  have ret: "\<exists>rows c. px_exec px (register_query px un em pw) (conn (s\<lparr>conn := c0\<rparr>)) = (Inr rows, c)"
    if "view c0 = durable (conn s)" for c0
    using register_returns [of un c0 em pw] assms(3-7) that by simp
  show ?thesis
    using assms(1,2) unfolding register_user_def Let_def credentials_def
    by (auto simp: wps end_durable nuls simp del: wp_with_txn dest!: register_effect [of un em pw, unfolded nuls]
        intro!: with_txn_returns wp_exec_returns ret wp_commit_returns) blast
qed

text \<open>Registering and then logging in, in the tables.\<close>

lemma login_after_register:
  assumes "un \<notin> username ` set (users t)"
  shows "login_answer (add_user n un em pw t) un pw = response_json 200
     (wobj [(''message'', WString ''Login successful''), (''id'', WSigned n)])"
proof -
  have "filter (\<lambda>u. username u = un) (users t) = []" using assms by (auto simp: filter_empty_conv)
  then show ?thesis by (simp add: login_answer_def add_user_def)
qed

end

end
