(* ===== verification/Sqltext.thy ===== *)
theory Sqltext
  imports Bidnet
begin

text \<open>
  The statements that the handlers of \<open>server/main.cpp\<close> build as text. A literal is quoted the way
  \<open>pqxx::quote\<close> documents it: in single quotes, with every single quote inside doubled, and no further than the
  first zero byte, at which the escaping stops. A
  statement is a template with holes for the quoted literals; the reader \<open>match_sql\<close> takes
  the literals out again, so whatever a client sends stays inside its literal.
\<close>

subsection \<open>Literals\<close>

abbreviation tick :: char where
  "tick \<equiv> CHR 0x27"

fun double_ticks :: "string \<Rightarrow> string" where
  "double_ticks [] = []"
| "double_ticks (c # cs) = (if c = tick then tick # tick # double_ticks cs else c # double_ticks cs)"

definition quote_text :: "string \<Rightarrow> string" where
  "quote_text s = tick # double_ticks s @ [tick]"

text \<open>Up to the tick that closes a literal.\<close>

fun literal_body :: "string \<Rightarrow> (string \<times> string) option" where
  "literal_body [] = None"
| "literal_body (c # cs) =
     (if c = tick then
        (case cs of
           [] \<Rightarrow> Some ([], [])
         | d # ds \<Rightarrow> if d = tick then map_option (\<lambda>(s, r). (tick # s, r)) (literal_body ds) else Some ([], cs))
      else map_option (\<lambda>(s, r). (c # s, r)) (literal_body cs))"

definition starts_tick :: "string \<Rightarrow> bool" where
  "starts_tick s = (case s of [] \<Rightarrow> False | c # _ \<Rightarrow> c = tick)"

lemma literal_body_ticks:
  "\<not> starts_tick r \<Longrightarrow> literal_body (double_ticks s @ tick # r) = Some (s, r)"
proof (induction s)
  case Nil
  then show ?case by (cases r) (simp_all add: starts_tick_def)
qed auto

subsection \<open>Templates\<close>

datatype piece = Lit string | Hole

fun render_sql :: "piece list \<Rightarrow> string list \<Rightarrow> string" where
  "render_sql [] args = []"
| "render_sql (Lit p # ps) args = p @ render_sql ps args"
| "render_sql (Hole # ps) (a # args) = quote_text a @ render_sql ps args"
| "render_sql (Hole # ps) [] = []"

fun strip_prefix :: "string \<Rightarrow> string \<Rightarrow> string option" where
  "strip_prefix [] s = Some s"
| "strip_prefix (p # ps) [] = None"
| "strip_prefix (p # ps) (c # cs) = (if p = c then strip_prefix ps cs else None)"

fun match_sql :: "piece list \<Rightarrow> string \<Rightarrow> string list option" where
  "match_sql [] s = (if s = [] then Some [] else None)"
| "match_sql (Lit p # ps) s = (case strip_prefix p s of None \<Rightarrow> None | Some r \<Rightarrow> match_sql ps r)"
| "match_sql (Hole # ps) s =
     (case s of
        [] \<Rightarrow> None
      | c # cs \<Rightarrow>
          if c = tick then
            (case literal_body cs of
               None \<Rightarrow> None
             | Some (a, r) \<Rightarrow> map_option (Cons a) (match_sql ps r))
          else None)"

fun holes :: "piece list \<Rightarrow> nat" where
  "holes [] = 0"
| "holes (Lit p # ps) = holes ps"
| "holes (Hole # ps) = Suc (holes ps)"

text \<open>After a hole comes text that does not start with a tick.\<close>

fun well_separated :: "piece list \<Rightarrow> bool" where
  "well_separated [] = True"
| "well_separated (Lit p # ps) = well_separated ps"
| "well_separated (Hole # ps) =
     ((case ps of [] \<Rightarrow> True | Lit (c # _) # _ \<Rightarrow> c \<noteq> tick | _ \<Rightarrow> False) \<and> well_separated ps)"

lemma strip_prefix_append [simp]: "strip_prefix p (p @ s) = Some s"
  by (induction p) simp_all

lemma render_not_tick:
  "(case ps of [] \<Rightarrow> True | Lit (c # _) # _ \<Rightarrow> c \<noteq> tick | _ \<Rightarrow> False) \<Longrightarrow> \<not> starts_tick (render_sql ps args)"
  by (auto simp: starts_tick_def append_eq_Cons_conv split: list.splits piece.splits)

lemma match_render:
  "well_separated ps \<Longrightarrow> length args = holes ps \<Longrightarrow> match_sql ps (render_sql ps args) = Some args"
proof (induction ps args rule: render_sql.induct)
  case (3 ps a args)
  then have "\<not> starts_tick (render_sql ps args)" by (intro render_not_tick) simp
  with 3 literal_body_ticks show ?case by (simp add: quote_text_def)
qed simp_all

subsection \<open>The statements of the handlers\<close>

definition register_sql :: "piece list" where
  "register_sql = [Lit ''INSERT INTO users (username, email, password_hash) VALUES ('', Hole,
     Lit '', '', Hole, Lit '', '', Hole, Lit '');'']"

definition login_sql :: "piece list" where
  "login_sql = [Lit ''SELECT id, password_hash FROM users WHERE username = '', Hole, Lit '';'']"

definition edit_sql :: "piece list" where
  "edit_sql = [Lit ''UPDATE users SET email = '', Hole, Lit '', password_hash = '', Hole,
     Lit '' WHERE username = '', Hole, Lit '';'']"

definition create_sql :: "piece list" where
  "create_sql = [Lit (''INSERT INTO items (user_id, name, description, starting_price, current_price, bid_end_time) ''
     @ ''VALUES (''), Hole, Lit '', '', Hole, Lit '', '', Hole, Lit '', '', Hole, Lit '', '', Hole,
     Lit '', NOW() + INTERVAL '', Hole, Lit '');'']"

text \<open>
  What is assumed of \<open>quote\<close>: the standard quoting, of the text of the value up to its first zero byte.
\<close>

definition quotes_sql :: "'c pqxx \<Rightarrow> (double \<Rightarrow> string) \<Rightarrow> bool" where
  "quotes_sql px dtext \<longleftrightarrow> (\<forall>s. px_quote px (SqlText s) = quote_text (c_text s))
     \<and> (\<forall>i. px_quote px (SqlInt i) = quote_text (show_int i))
     \<and> (\<forall>d. px_quote px (SqlDouble d) = quote_text (dtext d))"

lemma double_ticks_id: "tick \<notin> set s \<Longrightarrow> double_ticks s = s"
  by (induction s) auto

lemma double_ticks_append [simp]: "double_ticks (s @ t) = double_ticks s @ double_ticks t"
  by (induction s) auto

lemma tick_not_digit: "is_digit c \<Longrightarrow> c \<noteq> tick"
  by (auto simp: is_digit_def byte_def)

lemma tick_not_in_show_int [simp]: "double_ticks (show_int i) = show_int i"
  using dec_digits_digits tick_not_digit by (intro double_ticks_id) (auto simp: show_int_def)

lemma register_rendered: "quotes_sql px dt \<Longrightarrow> register_query px un em pw = render_sql register_sql [c_text un, c_text em, c_text pw]"
  by (simp add: quotes_sql_def register_query_def register_sql_def)

lemma login_rendered: "quotes_sql px dt \<Longrightarrow> login_query px un = render_sql login_sql [c_text un]"
  by (simp add: quotes_sql_def login_query_def login_sql_def)

lemma edit_rendered: "quotes_sql px dt \<Longrightarrow> edit_query px un em pw = render_sql edit_sql [c_text em, c_text pw, c_text un]"
  by (simp add: quotes_sql_def edit_query_def edit_sql_def)

lemma create_rendered:
  "quotes_sql px dt \<Longrightarrow> create_query px u name desc d dur
     = render_sql create_sql [show_int u, c_text name, c_text desc, dt d, dt d, show_int dur @ '' seconds'']"
  by (simp add: quotes_sql_def create_query_def create_sql_def end_time_sql_def quote_text_def)

lemma sql_well_separated [simp]:
  "well_separated register_sql" "well_separated login_sql" "well_separated edit_sql" "well_separated create_sql"
  "holes register_sql = 3" "holes login_sql = 1" "holes edit_sql = 3" "holes create_sql = 6"
  by (simp_all add: register_sql_def login_sql_def edit_sql_def create_sql_def)

text \<open>A statement of one kind is never read as one of another.\<close>

lemma match_other [simp]:
  "match_sql register_sql (render_sql create_sql args) = None"
  "match_sql register_sql (render_sql login_sql args) = None"
  "match_sql register_sql (render_sql edit_sql args) = None"
  "match_sql create_sql (render_sql register_sql args) = None"
  "match_sql create_sql (render_sql login_sql args) = None"
  "match_sql create_sql (render_sql edit_sql args) = None"
  "match_sql login_sql (render_sql register_sql args) = None"
  "match_sql login_sql (render_sql create_sql args) = None"
  "match_sql login_sql (render_sql edit_sql args) = None"
  "match_sql edit_sql (render_sql register_sql args) = None"
  "match_sql edit_sql (render_sql create_sql args) = None"
  "match_sql edit_sql (render_sql login_sql args) = None"
  by (simp_all add: register_sql_def login_sql_def edit_sql_def create_sql_def)

end
