(* ===== verification/Memdb.thy ===== *)
theory Memdb
  imports Accounts Sqltext
begin

text \<open>
  A database in memory that meets \<open>auction_store\<close>: committed tables and a working copy, the
  statements of \<open>server/main.cpp\<close> recognised by their text. It shows that the contracts of \<open>Store\<close>
  can hold and evaluates the handlers on concrete requests; it models no code of the repository.
\<close>

subsection \<open>Doubles to cents\<close>

text \<open>Half away from zero, of the exact value times 100.\<close>

definition round_half_up :: "nat \<Rightarrow> nat \<Rightarrow> nat" where
  "round_half_up n d = (2 * n + d) div (2 * d)"

fun mem_cents :: "double \<Rightarrow> int option" where
  "mem_cents (Fin s m e) =
     (let k = int (round_half_up (100 * m * 2 ^ nat e) (2 ^ nat (- e)))
      in if k < max_cents then Some (if s then - k else k) else None)"
| "mem_cents (Inf s) = None"
| "mem_cents NaN = None"

definition rha :: "real \<Rightarrow> int" where
  "rha x = (if 0 \<le> x then \<lfloor>x + 1 / 2\<rfloor> else - \<lfloor>- x + 1 / 2\<rfloor>)"

lemma rha_mono: assumes "x \<le> y" shows "rha x \<le> rha y"
proof -
  have "\<lfloor>x + 1 / 2\<rfloor> \<le> \<lfloor>y + 1 / 2\<rfloor>" "\<lfloor>- y + 1 / 2\<rfloor> \<le> \<lfloor>- x + 1 / 2\<rfloor>"
    using assms by (intro floor_mono; simp)+
  moreover have "x < 0 \<Longrightarrow> 0 \<le> \<lfloor>- x + 1 / 2\<rfloor>" "0 \<le> y \<Longrightarrow> 0 \<le> \<lfloor>y + 1 / 2\<rfloor>" by simp_all
  ultimately show ?thesis using assms unfolding rha_def by (smt (verit))
qed

lemma rha_near:
  assumes "\<bar>x - of_int k\<bar> < 1 / 2" shows "rha x = k"
  using assms unfolding rha_def by (smt (verit) floor_unique of_int_minus field_sum_of_halves of_int_le_0_iff of_int_0_le_iff)

lemma round_half_up_floor:
  assumes "0 < d" shows "int (round_half_up n d) = \<lfloor>real n / real d + 1 / 2\<rfloor>"
proof -
  have "real n / real d + 1 / 2 = real (2 * n + d) / real (2 * d)" using assms by (simp add: field_simps)
  then show ?thesis unfolding round_half_up_def
    by (metis floor_divide_of_nat_eq of_nat_div_le_of_nat zdiv_int floor_of_nat of_int_of_nat_eq)
qed

lemma mem_cents_fin:
  "mem_cents (Fin s m e) =
     (let k = rha (100 * dval (Fin s m e)) in if \<bar>k\<bar> < max_cents then Some k else None)"
proof -
  let ?x = "100 * (real m * 2 powi e)"
  have x: "?x = real (100 * m * 2 ^ nat e) / real (2 ^ nat (- e))"
    by (subst powi_split) (simp add: field_simps)
  have k: "int (round_half_up (100 * m * 2 ^ nat e) (2 ^ nat (- e))) = \<lfloor>?x + 1 / 2\<rfloor>"
    unfolding x by (rule round_half_up_floor) simp
  have pos: "0 \<le> ?x" by simp
  have "rha (100 * dval (Fin s m e)) = (if s then - \<lfloor>?x + 1 / 2\<rfloor> else \<lfloor>?x + 1 / 2\<rfloor>)"
  proof (cases "?x = 0")
    case True
    then show ?thesis by (simp add: rha_def signed_def)
  next
    case False
    with pos have "0 < ?x" by linarith
    then have "\<not> 0 \<le> - ?x" by linarith
    moreover have "100 * dval (Fin s m e) = (if s then - ?x else ?x)" by (simp add: signed_def)
    ultimately show ?thesis using pos by (simp only: rha_def minus_minus split: if_split) simp
  qed
  moreover have "0 \<le> \<lfloor>?x + 1 / 2\<rfloor>" using pos by simp
  ultimately show ?thesis by (simp add: k Let_def)
qed

lemma mem_cents_range: "mem_cents d = Some k \<Longrightarrow> \<bar>k\<bar> < max_cents"
  by (cases d) (auto simp: mem_cents_fin Let_def simp del: mem_cents.simps(1) split: if_splits)

lemma mem_cents_mono: "mem_cents d = Some k \<Longrightarrow> mem_cents d' = Some k' \<Longrightarrow> double_le d d' \<Longrightarrow> k \<le> k'"
proof (cases d; cases d')
  fix s m e t n f
  assume d: "d = Fin s m e" "d' = Fin t n f" and k: "mem_cents d = Some k" "mem_cents d' = Some k'"
    and "double_le d d'"
  then have "dval d \<le> dval d'" by (simp only: double_le_fin)
  then have "rha (100 * dval d) \<le> rha (100 * dval d')" by (intro rha_mono) simp
  with d k show ?thesis by (simp add: mem_cents_fin Let_def del: mem_cents.simps dval.simps split: if_splits)
qed simp_all

lemma dval_of_frac_neg: "dval (double_of_frac True n d) = - dval (double_of_frac False n d)"
  by (simp add: double_of_frac_def signed_def split: prod.split)

lemma finite_is_fin: "finite_double x \<Longrightarrow> \<exists>s m e. x = Fin s m e"
  by (cases x) simp_all

lemma near_cents: "\<bar>x - y / 100\<bar> \<le> 1 / 2 ^ 27 \<Longrightarrow> \<bar>100 * x - y\<bar> < (1 / 2 :: real)"
proof -
  assume "\<bar>x - y / 100\<bar> \<le> 1 / 2 ^ 27"
  moreover have "\<bar>100 * x - y\<bar> = 100 * \<bar>x - y / 100\<bar>" by (simp add: abs_if)
  ultimately show ?thesis by simp
qed

lemma mem_cents_exact: assumes "\<bar>k\<bar> < max_cents" shows "mem_cents (double_of_cents k) = Some k"
proof -
  let ?n = "nat \<bar>k\<bar>"
  have small: "real ?n / real 100 < 2 ^ 27" using assms by (simp add: max_cents_def)
  have err: "\<bar>dval (double_of_frac False ?n 100) - real ?n / real 100\<bar> \<le> 1 / 2 ^ 27"
    by (rule double_of_frac_err_small) (use small in auto)
  have "\<bar>100 * dval (double_of_cents k) - of_int k\<bar> < 1 / 2"
  proof (cases "k < 0")
    case True
    then have "dval (double_of_cents k) = - dval (double_of_frac False ?n 100)"
      by (simp add: double_of_cents_def dval_of_frac_neg)
    moreover have "real ?n = - of_int k" using True by simp
    moreover have "\<bar>100 * dval (double_of_frac False ?n 100) - real ?n\<bar> < 1 / 2" using near_cents err by simp
    ultimately show ?thesis by linarith
  next
    case False
    moreover have "\<bar>100 * dval (double_of_frac False ?n 100) - real ?n\<bar> < 1 / 2" using near_cents err by simp
    ultimately show ?thesis by (simp add: double_of_cents_def)
  qed
  then have "rha (100 * dval (double_of_cents k)) = k" by (rule rha_near)
  moreover have "finite_double (double_of_cents k)"
    using small by (simp add: double_of_cents_def)
  ultimately show ?thesis using assms finite_is_fin [of "double_of_cents k"]
    by (auto simp: mem_cents_fin simp del: mem_cents.simps dval.simps)
qed

subsection \<open>Reading fields\<close>

definition read_int :: "string \<Rightarrow> int" where
  "read_int s = (case s of [] \<Rightarrow> 0 | c # cs \<Rightarrow> if c = CHR ''-'' then - int (dec_val cs) else int (dec_val s))"

definition read_cents :: "string \<Rightarrow> int" where
  "read_cents s = read_int (filter (\<lambda>c. c \<noteq> CHR ''.'') s)"

lemma dec_digits_no_minus: "dec_digits n = c # cs \<Longrightarrow> c \<noteq> CHR ''-''"
  using dec_digits_digits [of n] by (auto simp: is_digit_def byte_def)

lemma read_show_int [simp]: "read_int (show_int i) = i"
proof (cases "i < 0")
  case True
  then show ?thesis by (simp add: read_int_def show_int_def)
next
  case False
  obtain c cs where "dec_digits (nat i) = c # cs" by (cases "dec_digits (nat i)") simp_all
  with False dec_digits_no_minus [OF this] dec_val_digits [of "nat i"] show ?thesis
    by (simp add: read_int_def show_int_def)
qed

lemma dec_val_append: "dec_val (s @ t) = dec_val s * 10 ^ length t + dec_val t"
proof (induction t rule: rev_induct)
  case (snoc c t)
  then show ?case by (simp add: dec_val_def algebra_simps)
qed simp

lemma pad_two: "n < 100 \<Longrightarrow> length (pad_digits 2 n) = 2 \<and> dec_val (pad_digits 2 n) = n \<and> (\<forall>c \<in> set (pad_digits 2 n). is_digit c)"
proof -
  assume n: "n < 100"
  show ?thesis
  proof (cases "n < 10")
    case True
    then have "dec_digits n = [chr (48 + n)]" by (simp add: dec_digits.simps)
    with True show ?thesis by (simp add: pad_digits_def dec_val_def is_digit_def digit_val_def byte_def chr_def)
  next
    case False
    with n have "dec_digits n = [chr (48 + n div 10), chr (48 + n mod 10)]"
      by (subst dec_digits.simps) (simp add: dec_digits.simps [of "n div 10"])
    with False n show ?thesis using dec_val_digits [of n] dec_digits_digits [of n]
      by (simp add: pad_digits_def)
  qed
qed

lemma read_int_signed:
  "c \<noteq> CHR ''-'' \<Longrightarrow> dec_val (c # cs) = nat \<bar>k\<bar> \<Longrightarrow> read_int ((if k < 0 then ''-'' else []) @ c # cs) = k"
  by (simp add: read_int_def)

lemma read_cents_text [simp]: "read_cents (cents_text k) = k"
proof -
  let ?a = "nat (\<bar>k\<bar> div 100)" and ?b = "nat (\<bar>k\<bar> mod 100)"
  have b: "?b < 100" by simp
  have nodot: "filter (\<lambda>c. c \<noteq> CHR ''.'') s = s" if "\<forall>c \<in> set s. is_digit c" for s
    using that by (auto simp: filter_id_conv is_digit_def byte_def)
  have v: "dec_val (dec_digits ?a @ pad_digits 2 ?b) = nat \<bar>k\<bar>"
    using pad_two [OF b] div_mult_mod_eq [of "nat \<bar>k\<bar>" 100]
    by (simp add: dec_val_append nat_div_distrib nat_mod_distrib)
  obtain c cs where c: "dec_digits ?a = c # cs" by (cases "dec_digits ?a") simp_all
  have "filter (\<lambda>c. c \<noteq> CHR ''.'') (cents_text k)
      = (if k < 0 then ''-'' else []) @ dec_digits ?a @ pad_digits 2 ?b"
    using nodot [OF dec_digits_digits] nodot pad_two [OF b] by (simp add: cents_text_def)
  then show ?thesis unfolding read_cents_def using read_int_signed [OF dec_digits_no_minus [OF c] v [unfolded c append_Cons]]
    by (simp only: c append_Cons)
qed

subsection \<open>The database\<close>

record memdb =
  committed :: tables
  working :: tables

definition fresh :: "int list \<Rightarrow> int" where
  "fresh ids = 1 + fold max ids 0"

lemma fold_max_ge: "x \<in> set xs \<Longrightarrow> x \<le> fold max xs (a :: int)" "a \<le> fold max xs a"
proof (induction xs arbitrary: a)
  case (Cons y xs)
  { case 1
    show ?case using 1 Cons.IH(1) Cons.IH(2) [of "max y a"] by auto
  next
    case 2
    show ?case using Cons.IH(2) [of "max y a"] by simp }
qed simp_all

lemma fresh_new [simp]: "fresh (map f xs) \<notin> f ` set xs"
  using fold_max_ge(1) [of _ "map f xs" 0] by (force simp: fresh_def)

definition mem_ok :: "tables \<Rightarrow> sql_row list \<Rightarrow> memdb \<Rightarrow> sql_row list res \<times> memdb" where
  "mem_ok t rows c = (Inr rows, c\<lparr>working := t\<rparr>)"

definition mem_fail :: "memdb \<Rightarrow> sql_row list res \<times> memdb" where
  "mem_fail c = (Inl ''ERROR: constraint violated'', c)"

fun mem_register :: "string list \<Rightarrow> memdb \<Rightarrow> sql_row list res \<times> memdb" where
  "mem_register [un, em, pw] c =
     (let t = working c in
      if un \<in> username ` set (users t) \<or> em \<in> email ` set (users t) then mem_fail c
      else mem_ok (add_user (fresh (map u_id (users t))) un em pw t) [] c)"
| "mem_register _ c = mem_fail c"

fun mem_login :: "string list \<Rightarrow> memdb \<Rightarrow> sql_row list res \<times> memdb" where
  "mem_login [un] c = mem_ok (working c) (login_rows un (working c)) c"
| "mem_login _ c = mem_fail c"

fun mem_edit :: "string list \<Rightarrow> memdb \<Rightarrow> sql_row list res \<times> memdb" where
  "mem_edit [em, pw, un] c =
     (let t = set_user un em pw (working c) in
      if distinct (map email (users t)) then mem_ok t [] c else mem_fail c)"
| "mem_edit _ c = mem_fail c"

definition mem_dtext :: "double \<Rightarrow> string" where
  "mem_dtext d = (case mem_cents d of None \<Rightarrow> [] | Some k \<Rightarrow> cents_text k)"

fun mem_create :: "string list \<Rightarrow> memdb \<Rightarrow> sql_row list res \<times> memdb" where
  "mem_create [u, name, desc, p, p', dur] c =
     (let t = working c in
      if p = [] \<or> read_int u \<notin> u_id ` set (users t) then mem_fail c
      else mem_ok (add_item (fresh (map i_id (items t))) (read_int u) name desc (read_cents p) dur
             (Some ''active'') t) [] c)"
| "mem_create _ c = mem_fail c"

definition mem_exec :: "string \<Rightarrow> memdb \<Rightarrow> sql_row list res \<times> memdb" where
  "mem_exec q c =
     (case match_sql register_sql q of
        Some args \<Rightarrow> mem_register args c
      | None \<Rightarrow>
          (case match_sql login_sql q of
             Some args \<Rightarrow> mem_login args c
           | None \<Rightarrow>
               (case match_sql edit_sql q of
                  Some args \<Rightarrow> mem_edit args c
                | None \<Rightarrow>
                    (case match_sql create_sql q of
                       Some args \<Rightarrow> mem_create args c
                     | None \<Rightarrow>
                         if q = all_items_query then mem_ok (working c) (map item_as_row (items (working c))) c
                         else mem_fail c))))"

definition best_bid :: "int \<Rightarrow> bid_row list \<Rightarrow> bid_row option" where
  "best_bid i bs = fold (\<lambda>b a. case a of
       None \<Rightarrow> Some b
     | Some a' \<Rightarrow> if bid_amount a' < bid_amount b then Some b else a) (filter (\<lambda>b. b_item b = i) bs) None"

lemma fold_best:
  "(case a of None \<Rightarrow> False | Some x \<Rightarrow> True) \<or> bs \<noteq> [] \<Longrightarrow>
     \<exists>b. fold (\<lambda>b a. case a of None \<Rightarrow> Some b
          | Some a' \<Rightarrow> if bid_amount a' < bid_amount b then Some b else a) bs a = Some b
       \<and> (b \<in> set bs \<or> a = Some b)
       \<and> (\<forall>b' \<in> set bs. bid_amount b' \<le> bid_amount b)
       \<and> (\<forall>x. a = Some x \<longrightarrow> bid_amount x \<le> bid_amount b)"
proof (induction bs arbitrary: a)
  case Nil
  then show ?case by (cases a) auto
next
  case (Cons b bs)
  let ?a = "case a of None \<Rightarrow> Some b | Some a' \<Rightarrow> if bid_amount a' < bid_amount b then Some b else a"
  have "(case ?a of None \<Rightarrow> False | Some x \<Rightarrow> True) \<or> bs \<noteq> []" by (cases a) auto
  from Cons.IH [OF this] show ?case by (cases a) (force split: if_splits)+
qed

lemma best_bid_none: "best_bid i bs = None \<longleftrightarrow> (\<forall>b \<in> set bs. b_item b \<noteq> i)"
proof (cases "filter (\<lambda>b. b_item b = i) bs = []")
  case True
  then show ?thesis by (auto simp: best_bid_def filter_empty_conv)
next
  case False
  with fold_best [of None "filter (\<lambda>b. b_item b = i) bs"] show ?thesis
    by (auto simp: best_bid_def filter_empty_conv)
qed

lemma best_bid_some: "best_bid i (bids t) = Some b \<Longrightarrow> is_highest t i b"
proof -
  assume b: "best_bid i (bids t) = Some b"
  then have "filter (\<lambda>b. b_item b = i) (bids t) \<noteq> []" by (auto simp: best_bid_def)
  with fold_best [of None "filter (\<lambda>b. b_item b = i) (bids t)"] b show ?thesis
    by (auto simp: best_bid_def is_highest_def)
qed

definition mem_bid :: "int \<Rightarrow> int \<Rightarrow> double \<Rightarrow> int \<Rightarrow> memdb \<Rightarrow> sql_row list res \<times> memdb" where
  "mem_bid u i d sl c =
     (case mem_cents d of
        None \<Rightarrow> mem_fail c
      | Some k \<Rightarrow>
          if bid_allowed (working c) u i k
          then mem_ok (add_bid (fresh (map b_id (bids (working c)))) u i k sl (working c)) [] c
          else mem_fail c)"

definition mem_set_price :: "double \<Rightarrow> int \<Rightarrow> memdb \<Rightarrow> sql_row list res \<times> memdb" where
  "mem_set_price d i c =
     (case mem_cents d of None \<Rightarrow> mem_fail c | Some k \<Rightarrow> mem_ok (set_price i k (working c)) [] c)"

definition mem_highest :: "int \<Rightarrow> memdb \<Rightarrow> sql_row list res \<times> memdb" where
  "mem_highest i c =
     mem_ok (working c) (case best_bid i (bids (working c)) of None \<Rightarrow> [] | Some b \<Rightarrow> [bid_as_row b]) c"

definition mem_tx :: "int \<Rightarrow> int \<Rightarrow> int \<Rightarrow> double \<Rightarrow> memdb \<Rightarrow> sql_row list res \<times> memdb" where
  "mem_tx i u sl d c =
     (case mem_cents d of
        None \<Rightarrow> mem_fail c
      | Some k \<Rightarrow>
          if tx_allowed (working c) i u sl
          then (let n = fresh (map t_id (txs (working c)))
                in mem_ok (add_tx n i u sl k ''now'' (working c)) [id_row n] c)
          else mem_fail c)"

text \<open>The parameters each statement takes.\<close>

definition with_id :: "(int \<Rightarrow> memdb \<Rightarrow> sql_row list res \<times> memdb) \<Rightarrow> sql_arg list \<Rightarrow> memdb \<Rightarrow> sql_row list res \<times> memdb" where
  "with_id f as = (case as of [SqlInt i] \<Rightarrow> f i | _ \<Rightarrow> mem_fail)"

definition mem_select :: "(tables \<Rightarrow> sql_row list) \<Rightarrow> memdb \<Rightarrow> sql_row list res \<times> memdb" where
  "mem_select rows c = mem_ok (working c) (rows (working c)) c"

definition mem_table :: "(string \<times> (sql_arg list \<Rightarrow> memdb \<Rightarrow> sql_row list res \<times> memdb)) list" where
  "mem_table =
     [(price_query, with_id (\<lambda>i. mem_select (\<lambda>t. map price_row (item_prices i t)))),
      (insert_bid_query, \<lambda>as. case as of [SqlInt u, SqlInt i, SqlDouble d, SqlInt sl] \<Rightarrow> mem_bid u i d sl | _ \<Rightarrow> mem_fail),
      (update_price_query, \<lambda>as. case as of [SqlDouble d, SqlInt i] \<Rightarrow> mem_set_price d i | _ \<Rightarrow> mem_fail),
      (highest_bid_query, with_id mem_highest),
      (insert_transaction_query, \<lambda>as. case as of [SqlInt i, SqlInt u, SqlInt sl, SqlDouble d] \<Rightarrow> mem_tx i u sl d
          | _ \<Rightarrow> mem_fail),
      (sold_query, with_id (\<lambda>i c. mem_ok (mark_sold i (working c)) [] c)),
      (item_query, \<lambda>as. case as of
            [SqlText s] \<Rightarrow> mem_select (\<lambda>t. map item_as_row (filter (\<lambda>it. i_id it = read_int s) (items t)))
          | _ \<Rightarrow> mem_fail),
      (buyer_query, with_id (\<lambda>i. mem_select (\<lambda>t. map tx_as_row (filter (\<lambda>x. t_buyer x = i) (txs t))))),
      (seller_query, with_id (\<lambda>i. mem_select (\<lambda>t. map tx_as_row (filter (\<lambda>x. t_seller x = i) (txs t)))))]"

definition mem_exec_params :: "string \<Rightarrow> sql_arg list \<Rightarrow> memdb \<Rightarrow> sql_row list res \<times> memdb" where
  "mem_exec_params q as = (case map_of mem_table q of Some h \<Rightarrow> h as | None \<Rightarrow> mem_fail)"

definition mem_field :: "sql_row \<Rightarrow> string \<Rightarrow> string res" where
  "mem_field row col = (case map_of row col of Some (Some s) \<Rightarrow> Inr s | _ \<Rightarrow> Inl ''null'')"

definition mem_quote :: "sql_arg \<Rightarrow> string" where
  "mem_quote a = quote_text (case a of SqlInt i \<Rightarrow> show_int i | SqlDouble d \<Rightarrow> mem_dtext d | SqlText s \<Rightarrow> c_text s)"

definition mem_field_at :: "sql_row \<Rightarrow> nat \<Rightarrow> string res" where
  "mem_field_at row n = (if n < length row then (case snd (row ! n) of Some s \<Rightarrow> Inr s | None \<Rightarrow> Inl ''null'')
                         else Inl ''column'')"

definition mem_px :: "memdb pqxx" where
  "mem_px =
     \<lparr>px_connect = (\<lambda>s. Inr \<lparr>committed = empty_tables, working = empty_tables\<rparr>),
      px_is_open = (\<lambda>c. True),
      px_close = (\<lambda>c. c),
      px_begin = (\<lambda>c. Inr (c\<lparr>working := committed c\<rparr>)),
      px_exec = mem_exec,
      px_exec_params = mem_exec_params,
      px_commit = (\<lambda>c. (Inr (), c\<lparr>committed := working c\<rparr>)),
      px_end = (\<lambda>c. c),
      px_quote = mem_quote,
      px_int = (\<lambda>row col. bind_res (mem_field row col) (\<lambda>s. Inr (read_int s))),
      px_double = (\<lambda>row col. bind_res (mem_field row col) (\<lambda>s. Inr (double_of_cents (read_cents s)))),
      px_string = mem_field,
      px_int_at = (\<lambda>row n. bind_res (mem_field_at row n) (\<lambda>s. Inr (read_int s))),
      px_c_str_at = mem_field_at\<rparr>"

subsection \<open>It meets the contracts\<close>

lemma mem_results [simp]:
  "fst (mem_ok t rows c) = Inr rows" "committed (snd (mem_ok t rows c)) = committed c"
  "working (snd (mem_ok t rows c)) = t" "committed (snd (mem_fail c)) = committed c"
  "mem_ok t rows c = (Inr rows', c') \<longleftrightarrow> rows' = rows \<and> c' = c\<lparr>working := t\<rparr>"
  "mem_fail c \<noteq> (Inr rows', c')"
  by (auto simp: mem_ok_def mem_fail_def)

lemma mem_quotes: "quotes_sql mem_px mem_dtext"
  by (simp add: quotes_sql_def mem_px_def mem_quote_def)

lemmas mem_rendered = register_rendered [OF mem_quotes] login_rendered [OF mem_quotes]
  edit_rendered [OF mem_quotes] create_rendered [OF mem_quotes]

lemma mem_exec_sql [simp]:
  "mem_exec (render_sql register_sql [a, b, d]) c = mem_register [a, b, d] c"
  "mem_exec (render_sql login_sql [a]) c = mem_login [a] c"
  "mem_exec (render_sql edit_sql [a, b, d]) c = mem_edit [a, b, d] c"
  "mem_exec (render_sql create_sql [a, b, d, e, f, g]) c = mem_create [a, b, d, e, f, g] c"
  by (simp_all add: mem_exec_def match_render)

lemma mem_exec_all [simp]:
  "mem_exec all_items_query c = mem_ok (working c) (map item_as_row (items (working c))) c"
  by (simp add: mem_exec_def all_items_query_def register_sql_def login_sql_def edit_sql_def create_sql_def)

lemmas query_texts = price_query_def insert_bid_query_def update_price_query_def highest_bid_query_def
  insert_transaction_query_def sold_query_def item_query_def buyer_query_def seller_query_def

lemma mem_params [simp]:
  "mem_exec_params price_query [SqlInt i] c = mem_ok (working c) (map price_row (item_prices i (working c))) c"
  "mem_exec_params insert_bid_query [SqlInt u, SqlInt i, SqlDouble d, SqlInt sl] c = mem_bid u i d sl c"
  "mem_exec_params update_price_query [SqlDouble d, SqlInt i] c = mem_set_price d i c"
  "mem_exec_params highest_bid_query [SqlInt i] c = mem_highest i c"
  "mem_exec_params insert_transaction_query [SqlInt i, SqlInt u, SqlInt sl, SqlDouble d] c = mem_tx i u sl d c"
  "mem_exec_params sold_query [SqlInt i] c = mem_ok (mark_sold i (working c)) [] c"
  "mem_exec_params item_query [SqlText s] c =
     mem_ok (working c) (map item_as_row (filter (\<lambda>it. i_id it = read_int s) (items (working c)))) c"
  "mem_exec_params buyer_query [SqlInt i] c =
     mem_ok (working c) (map tx_as_row (filter (\<lambda>x. t_buyer x = i) (txs (working c)))) c"
  "mem_exec_params seller_query [SqlInt i] c =
     mem_ok (working c) (map tx_as_row (filter (\<lambda>x. t_seller x = i) (txs (working c)))) c"
  by (simp_all add: mem_exec_params_def mem_table_def query_texts with_id_def mem_select_def)

lemma mem_fail_committed [simp]: "mem_fail c = (r, c') \<Longrightarrow> committed c' = committed c"
  by (auto simp: mem_fail_def)

lemma mem_ok_committed [simp]: "mem_ok t rows c = (r, c') \<Longrightarrow> committed c' = committed c"
  by (auto simp: mem_ok_def)

lemmas mem_ops = mem_bid_def mem_set_price_def mem_highest_def mem_tx_def with_id_def mem_select_def

lemma mem_register_committed: "mem_register args c = (r, c') \<Longrightarrow> committed c' = committed c"
  by (cases "(args, c)" rule: mem_register.cases) (auto simp: Let_def split: if_splits)

lemma mem_login_committed: "mem_login args c = (r, c') \<Longrightarrow> committed c' = committed c"
  by (cases "(args, c)" rule: mem_login.cases) auto

lemma mem_edit_committed: "mem_edit args c = (r, c') \<Longrightarrow> committed c' = committed c"
  by (cases "(args, c)" rule: mem_edit.cases) (auto simp: Let_def split: if_splits)

lemma mem_create_committed: "mem_create args c = (r, c') \<Longrightarrow> committed c' = committed c"
  by (cases "(args, c)" rule: mem_create.cases) (auto simp: Let_def split: if_splits)

lemma mem_exec_committed: "mem_exec q c = (r, c') \<Longrightarrow> committed c' = committed c"
  by (auto simp: mem_exec_def split: option.splits if_splits
      dest: mem_register_committed mem_login_committed mem_edit_committed mem_create_committed)

lemma mem_table_committed:
  assumes "(q, h) \<in> set mem_table" "h as c = (r, c')" shows "committed c' = committed c"
  using assms unfolding mem_table_def
  by (auto simp: mem_ops Let_def split: list.splits sql_arg.splits option.splits if_splits)

lemma mem_params_committed: "mem_exec_params q as c = (r, c') \<Longrightarrow> committed c' = committed c"
  by (auto simp: mem_exec_params_def split: option.splits dest!: map_of_SomeD dest: mem_table_committed)

interpretation mem: transactional mem_px committed
  by unfold_locales
     (auto simp: mem_px_def dest: mem_exec_committed mem_params_committed)

lemma mem_read_tables:
  "mem_exec_params item_query = (\<lambda>as. case as of
            [SqlText s] \<Rightarrow> mem_select (\<lambda>t. map item_as_row (filter (\<lambda>it. i_id it = read_int s) (items t)))
          | _ \<Rightarrow> mem_fail)"
  "mem_exec_params buyer_query = with_id (\<lambda>i. mem_select (\<lambda>t. map tx_as_row (filter (\<lambda>x. t_buyer x = i) (txs t))))"
  "mem_exec_params seller_query = with_id (\<lambda>i. mem_select (\<lambda>t. map tx_as_row (filter (\<lambda>x. t_seller x = i) (txs t))))"
  by (rule ext, simp add: mem_exec_params_def mem_table_def query_texts)+

lemma mem_reads:
  assumes "q \<in> {item_query, buyer_query, seller_query}" "mem_exec_params q as c = (Inr rows, c')"
  shows "working c' = working c"
  using assms
  by (auto simp: mem_read_tables with_id_def mem_select_def split: list.splits sql_arg.splits)

lemma cents_text_nonempty [simp]: "cents_text k \<noteq> []"
  by (simp add: cents_text_def)

lemma mem_create_effect:
  assumes "mem_create [show_int u, name, desc, mem_dtext d, mem_dtext d, dur] c = (Inr rows, c')"
  shows "\<exists>n k ends st. mem_cents d = Some k \<and> n \<notin> i_id ` set (items (working c)) \<and> u \<in> u_id ` set (users (working c))
      \<and> working c' = add_item n u name desc k ends st (working c)"
proof (cases "mem_cents d")
  case None
  with assms show ?thesis by (simp add: mem_dtext_def)
next
  case (Some k)
  with assms have "u \<in> u_id ` set (users (working c))" "c' = c\<lparr>working := add_item (fresh (map i_id (items (working c))))
      u name desc k dur (Some ''active'') (working c)\<rparr>"
    by (auto simp: mem_dtext_def Let_def split: if_splits)
  with Some show ?thesis by auto (metis fresh_new)
qed

lemma mem_fields [simp]:
  "px_int mem_px row col = bind_res (mem_field row col) (\<lambda>s. Inr (read_int s))"
  "px_double mem_px row col = bind_res (mem_field row col) (\<lambda>s. Inr (double_of_cents (read_cents s)))"
  "px_string mem_px row col = mem_field row col"
  "px_int_at mem_px row n = bind_res (mem_field_at row n) (\<lambda>s. Inr (read_int s))"
  "px_c_str_at mem_px row n = mem_field_at row n"
  "px_exec mem_px = mem_exec" "px_exec_params mem_px = mem_exec_params"
  "px_begin mem_px c = Inr (c\<lparr>working := committed c\<rparr>)"
  "px_commit mem_px c = (Inr (), c\<lparr>committed := working c\<rparr>)" "px_end mem_px c = c"
  by (simp_all add: mem_px_def)

lemmas mem_rows = mem_field_at_def mem_field_def login_row_def price_row_def bid_as_row_def id_row_def
  item_as_row_def tx_as_row_def

lemma mem_highest_effect:
  "mem_highest i c = (Inr rows, c') \<Longrightarrow> working c' = working c \<and>
     (rows = [] \<and> (\<forall>b \<in> set (bids (working c)). b_item b \<noteq> i)
      \<or> (\<exists>b. rows = [bid_as_row b] \<and> is_highest (working c) i b))"
  by (auto simp: mem_highest_def best_bid_none best_bid_some split: option.splits)

lemma mem_register_effect:
  assumes "mem_exec (register_query mem_px un em pw) c = (Inr rows, c')"
  shows "\<exists>n. n \<notin> u_id ` set (users (working c)) \<and> c_text un \<notin> username ` set (users (working c))
      \<and> c_text em \<notin> email ` set (users (working c))
      \<and> working c' = add_user n (c_text un) (c_text em) (c_text pw) (working c)"
  by (rule exI [of _ "fresh (map u_id (users (working c)))"])
     (use assms in \<open>auto simp: mem_rendered Let_def split: if_splits\<close>)

lemma mem_edit_effect:
  "mem_exec (edit_query mem_px un em pw) c = (Inr rows, c') \<Longrightarrow>
     working c' = set_user (c_text un) (c_text em) (c_text pw) (working c) \<and> distinct (map email (users (working c')))"
  by (auto simp: mem_rendered Let_def split: if_splits)

lemma mem_bid_effect:
  assumes "mem_bid u i d sl c = (Inr rows, c')"
  shows "\<exists>n k. mem_cents d = Some k \<and> bid_allowed (working c) u i k \<and> n \<notin> b_id ` set (bids (working c))
      \<and> working c' = add_bid n u i k sl (working c)"
  by (rule exI [of _ "fresh (map b_id (bids (working c)))"])
     (use assms in \<open>auto simp: mem_bid_def split: if_splits option.splits\<close>)

lemma mem_set_price_effect:
  "mem_set_price d i c = (Inr rows, c') \<Longrightarrow> mem_cents d = Some k \<Longrightarrow> working c' = set_price i k (working c)"
  by (auto simp: mem_set_price_def)

lemma mem_tx_effect:
  assumes "mem_tx i u sl d c = (Inr rows, c')"
  shows "\<exists>n k tm. mem_cents d = Some k \<and> tx_allowed (working c) i u sl \<and> n \<notin> t_id ` set (txs (working c))
      \<and> rows = [id_row n] \<and> working c' = add_tx n i u sl k tm (working c)"
  by (rule exI [of _ "fresh (map t_id (txs (working c)))"])
     (use assms in \<open>auto simp: mem_tx_def Let_def split: if_splits option.splits\<close>)

lemma mem_create_query_effect:
  "mem_exec (create_query mem_px u name desc d dur) c = (Inr rows, c') \<Longrightarrow>
     \<exists>n k ends st. mem_cents d = Some k \<and> n \<notin> i_id ` set (items (working c)) \<and> u \<in> u_id ` set (users (working c))
       \<and> working c' = add_item n u (c_text name) (c_text desc) k ends st (working c)"
  using mem_create_effect by (simp only: mem_rendered mem_exec_sql)

interpretation mem: sql_effects mem_px committed working mem_cents
proof (unfold_locales, goal_cases)
  case (1 c c') then show ?case by auto
next
  case (2 c c') then show ?case by auto
next
  case (3 c e c') then show ?case by simp
next
  case (4 un em pw c rows c') then show ?case using mem_register_effect by simp
next
  case (5 un em pw c rows c') then show ?case unfolding mem_fields by (rule mem_edit_effect)
next
  case (6 un c rows c') then show ?case by (auto simp: mem_rendered)
next
  case (7 ur) then show ?case by (simp add: mem_rows)
next
  case (8 ur) then show ?case by (simp add: mem_rows)
next
  case (9 u name desc d dur c rows c') then show ?case using mem_create_query_effect by simp
next
  case (10 c rows c') then show ?case by auto
next
  case (11 q as c rows c') then show ?case using mem_reads by simp
next
  case (12 i c rows c') then show ?case by auto
next
  case (13 k) then show ?case by (simp add: mem_rows)
next
  case (14 u i d sl c rows c') then show ?case using mem_bid_effect by simp
next
  case (15 d i c rows c' k) then show ?case using mem_set_price_effect by simp
next
  case (16 i c rows c') then show ?case using mem_highest_effect by simp
next
  case (17 b) then show ?case by (simp add: mem_rows)
next
  case (18 b) then show ?case by (simp add: mem_rows)
next
  case (19 b) then show ?case by (simp add: mem_rows)
next
  case (20 i u sl d c rows c') then show ?case using mem_tx_effect by simp
next
  case (21 n) then show ?case by (simp add: mem_rows)
next
  case (22 i c rows c') then show ?case by auto
next
  case (23 d k) then show ?case by (rule mem_cents_range)
next
  case (24 k) then show ?case by (rule mem_cents_exact)
next
  case (25 d k d' k') then show ?case by (rule mem_cents_mono)
qed

lemma mem_bid_returns:
  "mem_cents d = Some k \<Longrightarrow> bid_allowed (working c) u i k \<Longrightarrow> \<exists>rows c'. mem_bid u i d sl c = (Inr rows, c')"
  by (simp add: mem_bid_def)

lemma mem_tx_returns:
  "mem_cents d = Some k \<Longrightarrow> tx_allowed (working c) i u sl \<Longrightarrow> \<exists>rows c'. mem_tx i u sl d c = (Inr rows, c')"
  by (simp add: mem_tx_def Let_def)

interpretation mem: auction_store mem_px committed working mem_cents
  by unfold_locales
     (simp_all add: mem_bid_returns mem_tx_returns mem_set_price_def mem_highest_def mem_rows mem_rendered Let_def,
      (rule exI, rule conjI [OF refl], simp)+)

text \<open>C23: No text of a request can change the structure of a statement: read as SQL, the statements of the
  account handlers are their templates with exactly the values of the request as literals, whatever characters
  these hold. Only the rest of a text behind a zero byte is left out, where the escaping of libpqxx stops.\<close>

theorem statements_keep_structure:
  assumes "quotes_sql px dt"
  shows "match_sql register_sql (register_query px un em pw) = Some [c_text un, c_text em, c_text pw]
    \<and> match_sql login_sql (login_query px un) = Some [c_text un]
    \<and> match_sql edit_sql (edit_query px un em pw) = Some [c_text em, c_text pw, c_text un]
    \<and> match_sql create_sql (create_query px u name desc d dur)
        = Some [show_int u, c_text name, c_text desc, dt d, dt d, show_int dur @ '' seconds'']"
  unfolding register_rendered [OF assms] login_rendered [OF assms] edit_rendered [OF assms] create_rendered [OF assms]
  by (simp add: match_render)

theorem statements_keep_structure_witness:
  "match_sql login_sql (login_query mem_px ''x'') = Some [''x'']
   \<and> match_sql register_sql (register_query mem_px (tick # ''); DROP TABLE users; --'') ''e'' [CHR ''p'', nul, tick])
       = Some [tick # ''); DROP TABLE users; --'', ''e'', ''p'']"
  using statements_keep_structure [OF mem_quotes, of "''x''"]
    statements_keep_structure [OF mem_quotes, of "tick # ''); DROP TABLE users; --''" "''e''" "[CHR ''p'', nul, tick]"] by simp

end
