(* ===== verification/Server.thy ===== *)
theory Server
  imports Memdb
begin

text \<open>
  The server over time: the requests and WebSocket events it handles, one after the other.
  \<open>main\<close> runs the application with one worker thread (\<open>concurrency_\<close> is 2 in \<open>app.h\<close>, and one of
  the two threads only accepts), so handlers do not interleave.
\<close>

subsection \<open>Events\<close>

datatype event = Request indet call | WsOpen nat | WsClose nat | WsMessage nat string bool

fun handle_event :: "'c pqxx \<Rightarrow> event \<Rightarrow> 'c server \<Rightarrow> 'c server" where
  "handle_event px (Request ind cl) s = snd (run_call px ind cl s)"
| "handle_event px (WsOpen cn) s = ws_onopen cn s"
| "handle_event px (WsClose cn) s = ws_onclose cn s"
| "handle_event px (WsMessage cn data bin) s = ws_onmessage cn data bin s"

definition serve :: "'c pqxx \<Rightarrow> event list \<Rightarrow> 'c server \<Rightarrow> 'c server" where
  "serve px evs s = fold (handle_event px) evs s"

lemma wp_snd: "wp m (\<lambda>_. R) (\<lambda>_. R) s \<Longrightarrow> R (snd (m s))"
  by (auto simp: wp_def split: prod.splits sum.splits)

lemma ws_conn [simp]:
  "conn (ws_onopen cn s) = conn s" "conn (ws_onclose cn s) = conn s" "conn (ws_onmessage cn d b s) = conn s"
  by (simp_all add: ws_onopen_def ws_onclose_def ws_onmessage_def)

context sql_effects
begin

lemma handle_event_evolves: "evolves s (handle_event px e s)"
  by (cases e) (simp_all add: wp_snd [OF run_call_evolves])

lemma serve_steps: "(auction_step to_cents)\<^sup>*\<^sup>* (durable (conn s)) (durable (conn (serve px evs s)))"
proof (induction evs arbitrary: s)
  case (Cons e evs)
  have "(auction_step to_cents)\<^sup>*\<^sup>* (durable (conn s)) (durable (conn (handle_event px e s)))"
    using handle_event_evolves [of s e] by (auto simp: evolves_def)
  with Cons.IH [of "handle_event px e s"] show ?case by (simp add: serve_def)
qed (simp add: serve_def)

lemma steps_ok_grows:
  "(auction_step to_cents)\<^sup>*\<^sup>* t t' \<Longrightarrow> tables_ok t \<Longrightarrow> tables_ok t' \<and> grows t t'"
proof (induction rule: rtranclp_induct)
  case (step t' t'')
  then show ?case
    using cents.step_keeps_ok [OF is_cents] cents.step_grows [OF is_cents] grows_trans by blast
qed simp

lemma serve_ok: "tables_ok (durable (conn s)) \<Longrightarrow> tables_ok (durable (conn (serve px evs s)))"
  using steps_ok_grows [OF serve_steps] by blast

lemma serve_grows: "tables_ok (durable (conn s)) \<Longrightarrow> grows (durable (conn s)) (durable (conn (serve px evs s)))"
  using steps_ok_grows [OF serve_steps] by blast

end

subsection \<open>Who hears of a bid\<close>

definition quiet :: "'c server \<Rightarrow> 'c server \<Rightarrow> bool" where
  "quiet s s' \<longleftrightarrow> ws_clients s' = ws_clients s \<and> sent s' = sent s"

text \<open>
  Who is told what: the message that goes to each client, once, when a bid was answered with 200; nothing otherwise.
  The bid is read from the request.
\<close>

definition announcement :: "indet \<Rightarrow> request \<Rightarrow> response res \<Rightarrow> string option" where
  "announcement ind req out =
     (let b = load (req_body req) in
      case (out, json_int ind b ''item_id'', json_double ind b ''bid_amount'') of
        (Inr r, Inr i, Inr d) \<Rightarrow> if code r = 200 then Some (bid_message i d) else None
      | _ \<Rightarrow> None)"

definition told :: "string option \<Rightarrow> nat list \<Rightarrow> (nat \<times> string) list" where
  "told m clients = (case m of None \<Rightarrow> [] | Some msg \<Rightarrow> map (\<lambda>cl. (cl, msg)) clients)"

text \<open>After the part that owns the transaction: the messages go with the answer 200.\<close>

definition tells :: "int \<Rightarrow> double \<Rightarrow> 'c server \<Rightarrow> response res \<Rightarrow> 'c server \<Rightarrow> bool" where
  "tells i d s out s' \<longleftrightarrow> ws_clients s' = ws_clients s
     \<and> sent s' = sent s @ told (case out of Inr r \<Rightarrow> if code r = 200 then Some (bid_message i d) else None | _ \<Rightarrow> None) (ws_clients s)"

lemma quiet_refl [simp]: "quiet s s"
  by (simp add: quiet_def)

lemma reflp_quiet: "reflp quiet"
  by (simp add: reflp_def)

lemma transp_quiet: "transp quiet"
  by (auto simp: transp_def quiet_def)

lemma keeps_case_list:
  "act_keeps R f \<Longrightarrow> (\<And>x xs. act_keeps R (g x xs)) \<Longrightarrow> act_keeps R (case ys of [] \<Rightarrow> f | x # xs \<Rightarrow> g x xs)"
  by (cases ys) simp_all

lemma keeps_if: "act_keeps R f \<Longrightarrow> act_keeps R g \<Longrightarrow> act_keeps R (if b then f else g)"
  by simp

lemma keeps_on_conn: "act_keeps quiet (on_conn m)"
  by (simp add: act_keeps_def on_conn_def quiet_def split: prod.split)

lemma keeps_with_txn: "act_keeps quiet block \<Longrightarrow> act_keeps quiet (with_txn px block)"
  unfolding act_keeps_def
proof
  fix s assume block: "\<forall>s. quiet s (snd (block s))"
  show "quiet s (snd (with_txn px block s))"
  proof (cases "px_begin px (conn s)")
    case (Inr c)
    with block [rule_format, of "s\<lparr>conn := c\<rparr>"] show ?thesis
      by (cases "block (s\<lparr>conn := c\<rparr>)") (simp add: with_txn_def quiet_def)
  qed (simp add: with_txn_def)
qed

lemmas quiet_intros = keeps_with_txn act_keeps_catch act_keeps_bind [OF transp_quiet]
  act_keeps_return [OF reflp_quiet] act_keeps_lift [OF reflp_quiet] keeps_case_list keeps_if keeps_on_conn

lemma run_call_quiet: "(\<forall>req. cl \<noteq> CPlaceBid req) \<Longrightarrow> act_keeps quiet (run_call px ind cl)"
  by (cases cl)
     (auto simp: register_user_def login_def edit_user_def create_auction_def get_all_items_def get_item_details_def
        get_auction_details_def get_transactions_for_buyer_def get_transactions_for_seller_def get_transactions_def
        complete_transaction_def root_handler_def txn_exec_def txn_exec_params_def txn_commit_def Let_def
        intro!: quiet_intros)

lemma bid_codes [simp]:
  "code (response_text c t) = c" "code (response_json c w) = c" "code bid_rejected = 400" "code (bid_accepted d) = 200"
  "code (bid_error e) = 500"
  by (simp_all add: response_text_def response_json_def response_returnable_def bid_rejected_def bid_accepted_def bid_error_def
      set_header_def)

lemma transaction_tells:
  "wp (bid_transaction px u sl i d) (\<lambda>r s'. tells i d s (Inr r) s') (\<lambda>e s'. tells i d s (Inl e) s') s"
  unfolding bid_transaction_def
  by (auto simp: wps txn_exec_params_def txn_commit_def wp_on_conn tells_def told_def split: sum.split list.split prod.split)

lemma place_bid_tells:
  assumes "place_bid px ind req s = (out, s')"
  shows "ws_clients s' = ws_clients s \<and> sent s' = sent s @ told (announcement ind req out) (ws_clients s)"
proof -
  have "wp (place_bid px ind req)
      (\<lambda>r s'. ws_clients s' = ws_clients s \<and> sent s' = sent s @ told (announcement ind req (Inr r)) (ws_clients s))
      (\<lambda>e s'. False) s"
    unfolding place_bid_def Let_def
    by (auto simp: wps tells_def told_def announcement_def Let_def split: sum.split if_splits
        intro!: wp_mono [OF transaction_tells])
  with assms show ?thesis by (auto simp: wp_def split: sum.splits)
qed

subsection \<open>Completing an auction again\<close>

context auction_store
begin

text \<open>A completion that finds a bid records one sale, and the next one finds the same bids.\<close>

lemma complete_once:
  assumes "tables_ok (durable (conn s))" "\<exists>b \<in> set (bids (durable (conn s))). b_item b = i"
    and "\<forall>b \<in> set (bids (durable (conn s))). b_item b = i \<longrightarrow> tx_allowed (durable (conn s)) i (b_user b) (b_seller b)"
  shows "\<exists>b n tm. is_highest (durable (conn s)) i b
    \<and> durable (conn (snd (complete_transaction px i s))) = sell_tables n i b (bid_amount b) tm (durable (conn s))"
proof -
  obtain r s' where r: "complete_transaction px i s = (Inr r, s')" "sale_post i s r s'"
    using wp_returns [OF complete_transaction_refines [OF assms(1), of i]] by blast
  have "\<not> (\<forall>b \<in> set (bids (durable (conn s))). b_item b \<noteq> i)" using assms(2) by blast
  with r(2) obtain b where b: "is_highest (durable (conn s)) i b"
    and post: "if tx_allowed (durable (conn s)) i (b_user b) (b_seller b)
         then \<exists>n tm. n \<notin> t_id ` set (txs (durable (conn s))) \<and> r = sale_response n i b
                \<and> durable (conn s') = sell_tables n i b (bid_amount b) tm (durable (conn s))
         else (\<exists>e. r = error_text e) \<and> durable (conn s') = durable (conn s)"
    unfolding sale_post_def by auto
  have "tx_allowed (durable (conn s)) i (b_user b) (b_seller b)"
    using b assms(3) by (simp add: is_highest_def)
  with b post r(1) show ?thesis by auto
qed

lemma sell_tables_same:
  "bids (sell_tables n i b k tm t) = bids t" "users (sell_tables n i b k tm t) = users t"
  "length (txs (sell_tables n i b k tm t)) = Suc (length (txs t))"
  "i_id ` set (items (sell_tables n i b k tm t)) = i_id ` set (items t)"
proof -
  have "map i_id (items (sell_tables n i b k tm t)) = map i_id (items t)"
    by (simp add: sell_tables_def mark_sold_def add_tx_def)
  then show "i_id ` set (items (sell_tables n i b k tm t)) = i_id ` set (items t)" by (metis set_map)
qed (simp_all add: sell_tables_def mark_sold_def add_tx_def)

lemma complete_again:
  assumes "tables_ok (durable (conn s))" "\<exists>b \<in> set (bids (durable (conn s))). b_item b = i"
    and "\<forall>b \<in> set (bids (durable (conn s))). b_item b = i \<longrightarrow> tx_allowed (durable (conn s)) i (b_user b) (b_seller b)"
  shows "length (txs (durable (conn (snd (complete_transaction px i (snd (complete_transaction px i s)))))))
    = length (txs (durable (conn s))) + 2"
proof -
  let ?s1 = "snd (complete_transaction px i s)"
  obtain b n tm where h: "is_highest (durable (conn s)) i b"
    and 1: "durable (conn ?s1) = sell_tables n i b (bid_amount b) tm (durable (conn s))"
    using complete_once [OF assms] by blast
  have "tables_ok (durable (conn ?s1))" unfolding 1 by (rule tables_ok_sell [OF assms(1) h])
  moreover have "\<exists>b \<in> set (bids (durable (conn ?s1))). b_item b = i" using assms(2) by (simp add: 1 sell_tables_same)
  moreover have "\<forall>b \<in> set (bids (durable (conn ?s1))). b_item b = i \<longrightarrow>
      tx_allowed (durable (conn ?s1)) i (b_user b) (b_seller b)"
    using assms(3) by (simp add: 1 sell_tables_same tx_allowed_def)
  ultimately obtain b' n' tm' where
    "durable (conn (snd (complete_transaction px i ?s1))) = sell_tables n' i b' (bid_amount b') tm' (durable (conn ?s1))"
    using complete_once by blast
  with 1 show ?thesis by (simp add: sell_tables_same)
qed

end

subsection \<open>A small server\<close>

text \<open>Two users and one item at 10.00, with one WebSocket client; a bid of 12.50 by user 1.\<close>

definition demo_tables :: tables where
  "demo_tables =
     \<lparr>users = [\<lparr>u_id = 1, username = ''ann'', email = ''a@x'', password_hash = ''pw''\<rparr>,
               \<lparr>u_id = 2, username = ''bob'', email = ''b@x'', password_hash = ''qq''\<rparr>],
      items = [\<lparr>i_id = 7, i_user = 2, i_name = ''lamp'', i_description = [], starting_price = 1000,
                current_price = 1000, bid_end_time = ''soon'', status = Some ''active''\<rparr>],
      bids = [], txs = []\<rparr>"

definition demo_server :: "tables \<Rightarrow> memdb server" where
  "demo_server t = \<lparr>conn = \<lparr>committed = t, working = t\<rparr>, ws_clients = [3], sent = []\<rparr>"

definition demo_ind :: indet where
  "demo_ind = \<lparr>ind_int = 0, ind_double = NaN\<rparr>"

definition quoted :: "string \<Rightarrow> string" where
  "quoted s = [CHR 0x22] @ s @ [CHR 0x22]"

definition demo_bid :: "string \<Rightarrow> request" where
  "demo_bid amount = empty_request\<lparr>req_body := ''{'' @ quoted ''user_id'' @ '':1,'' @ quoted ''seller_id'' @ '':2,''
     @ quoted ''item_id'' @ '':7,'' @ quoted ''bid_amount'' @ '':'' @ amount @ ''}''\<rparr>"

definition demo_account :: "string \<Rightarrow> string \<Rightarrow> string \<Rightarrow> request" where
  "demo_account un em pw = empty_request\<lparr>req_body := ''{'' @ quoted ''username'' @ '':'' @ quoted un @ '',''
     @ quoted ''email'' @ '':'' @ quoted em @ '','' @ quoted ''password'' @ '':'' @ quoted pw @ ''}''\<rparr>"

definition demo_bid_tables :: tables where
  "demo_bid_tables = bid_tables 1 1 7 1250 2 demo_tables"

lemma conn_demo [simp]: "conn (demo_server t) = \<lparr>committed = t, working = t\<rparr>"
  by (simp add: demo_server_def)

lemma demo_tables_ok: "tables_ok demo_tables" "tables_ok demo_bid_tables"
  by (simp_all add: demo_tables_def demo_bid_tables_def tables_ok_def users_ok_def price_ok_def max_cents_def
      bid_tables_def set_price_def add_bid_def bid_row_ok_def)

text \<open>C24: Exactly the accepted bids are announced: when a bid is answered with 200 each connected client is sent one
  message, with the item and the amount of the request; a bid that is rejected, fails or is not stored - the commit
  included - and every other request send nothing. No request changes who is connected.\<close>

theorem who_is_told:
  "ws_clients (snd (run_call px ind cl s)) = ws_clients s
   \<and> sent (snd (run_call px ind cl s)) = sent s
      @ (case cl of CPlaceBid req \<Rightarrow> told (announcement ind req (fst (run_call px ind cl s))) (ws_clients s) | _ \<Rightarrow> [])"
proof (cases "\<exists>req. cl = CPlaceBid req")
  case True
  then obtain req where cl: "cl = CPlaceBid req" by blast
  then show ?thesis using place_bid_tells [of px ind req s] by (cases "place_bid px ind req s") simp
next
  case False
  then have "act_keeps quiet (run_call px ind cl)" by (intro run_call_quiet) auto
  with False show ?thesis by (cases cl) (auto simp: act_keeps_def quiet_def)
qed

subsection \<open>A winning bid\<close>

lemma mark_sold_status: "it \<in> set (items (mark_sold i t)) \<Longrightarrow> i_id it = i \<Longrightarrow> status it = Some ''sold''"
proof -
  assume it: "it \<in> set (items (mark_sold i t))" and i: "i_id it = i"
  from it have "it \<in> (\<lambda>x. if i_id x = i then x\<lparr>status := Some ''sold''\<rparr> else x) ` set (items t)"
    by (simp add: mark_sold_def del: if_image_distrib)
  then obtain x where "it = (if i_id x = i then x\<lparr>status := Some ''sold''\<rparr> else x)" by (rule imageE)
  with i show ?thesis by (cases "i_id x = i") simp_all
qed

context auction_store
begin

text \<open>The bidder who outbids every earlier bid gets the item.\<close>

lemma winning_sale:
  assumes "tables_ok (durable (conn s))"
    and "rv_ok (load (req_body req))"
    and "json_int ind (load (req_body req)) ''user_id'' = Inr u"
    and "json_int ind (load (req_body req)) ''seller_id'' = Inr sl"
    and "json_int ind (load (req_body req)) ''item_id'' = Inr i"
    and "json_double ind (load (req_body req)) ''bid_amount'' = Inr d"
    and "0 < u" "0 < i" "\<not> double_le d double_zero"
    and acc: "spec_bid to_cents (durable (conn s)) u i d = Accepted k"
    and top: "\<forall>b \<in> set (bids (durable (conn s))). b_item b = i \<longrightarrow> bid_amount b < k"
    and sl: "sl \<in> u_id ` set (users (durable (conn s)))"
  shows "\<exists>r1 s1 r2 s2. place_bid px ind req s = (Inr r1, s1) \<and> complete_transaction px i s1 = (Inr r2, s2)
    \<and> code r1 = 200 \<and> code r2 = 200
    \<and> (\<exists>x \<in> set (txs (durable (conn s2))). t_item x = i \<and> t_buyer x = u \<and> t_seller x = sl \<and> final_price x = k)
    \<and> (\<forall>it \<in> set (items (durable (conn s2))). i_id it = i \<longrightarrow> status it = Some ''sold'')"
proof -
  let ?t = "durable (conn s)"
  obtain r1 s1 where 1: "place_bid px ind req s = (Inr r1, s1)" "r1 = bid_accepted d"
    and st: "bid_stored (Accepted k) u i sl ?t (durable (conn s1))"
    using wp_returns [OF place_bid_refines [OF assms(2-9), of s]] acc by (auto simp: bid_post_def)
  obtain n where t1: "durable (conn s1) = bid_tables n u i k sl ?t" using st by auto
  have ok: "tables_ok (durable (conn s1))"
    using serve_ok [OF assms(1), of "[Request ind (CPlaceBid req)]"] 1(1) by (simp add: serve_def)
  let ?b = "\<lparr>b_id = n, b_user = u, b_item = i, bid_amount = k, b_seller = sl\<rparr>"
  have bids: "bids (durable (conn s1)) = bids ?t @ [?b]" by (simp add: t1 bid_tables_def add_bid_def set_price_def)
  have high: "b = ?b" if "is_highest (durable (conn s1)) i b" for b
    using that top unfolding is_highest_def bids by fastforce
  have "bid_allowed ?t u i k" using acc by (auto simp: spec_bid_def split: list.splits option.splits if_splits)
  moreover have "map i_id (items (durable (conn s1))) = map i_id (items ?t)"
    by (simp add: t1 bid_tables_def add_bid_def set_price_def)
  then have "i_id ` set (items (durable (conn s1))) = i_id ` set (items ?t)" by (metis set_map)
  moreover have "users (durable (conn s1)) = users ?t" by (simp add: t1 bid_tables_def add_bid_def set_price_def)
  ultimately have allow: "tx_allowed (durable (conn s1)) i u sl"
    using sl by (simp add: tx_allowed_def bid_allowed_def)
  have some: "\<not> (\<forall>b \<in> set (bids (durable (conn s1))). b_item b \<noteq> i)" unfolding bids by simp
  obtain r2 s2 b where 2: "complete_transaction px i s1 = (Inr r2, s2)" "is_highest (durable (conn s1)) i b"
    "tx_allowed (durable (conn s1)) i (b_user b) (b_seller b) \<longrightarrow>
       (\<exists>m tm. r2 = sale_response m i b \<and> durable (conn s2) = sell_tables m i b (bid_amount b) tm (durable (conn s1)))"
    using wp_returns [OF complete_transaction_refines [OF ok, of i]] unfolding sale_post_def if_not_P [OF some] by metis
  with allow high [OF 2(2)] obtain m tm where 3: "r2 = sale_response m i ?b"
      "durable (conn s2) = sell_tables m i ?b k tm (durable (conn s1))" by auto
  have c: "code r1 = 200" "code r2 = 200" unfolding 1(2) 3(1) by (simp_all add: sale_response_def)
  have x: "\<exists>x \<in> set (txs (durable (conn s2))). t_item x = i \<and> t_buyer x = u \<and> t_seller x = sl \<and> final_price x = k"
    unfolding 3(2) by (simp add: sell_tables_def mark_sold_def add_tx_def)
  have sold: "\<forall>it \<in> set (items (durable (conn s2))). i_id it = i \<longrightarrow> status it = Some ''sold''"
    unfolding 3(2) sell_tables_def by (blast intro: mark_sold_status)
  show ?thesis using 1(1) 2(1) c x sold by blast
qed

end

end
