(* ===== verification/Routes.thy ===== *)
theory Routes
  imports Router Server
begin

text \<open>
  The routes \<open>main\<close> registers and the way a request reaches its handler: the router's tables for
  BidNet, the arguments of the handlers and the calls of \<^typ>\<open>call\<close> that they make.
\<close>

datatype route =
    R_ws | R_register | R_login | R_edit_user | R_create_auction | R_place_bid | R_get_all_items | R_get_item_details
  | R_get_auction_details | R_transactions_buyer | R_transactions_seller | R_complete | R_root

definition crow_route :: "string \<Rightarrow> http_method list \<Rightarrow> route \<Rightarrow> route rule" where
  "crow_route text ms h = rule_set_handler h (rule_methods ms (new_rule Tagged_rule text))"

definition bidnet_rules :: "route rule list" where
  "bidnet_rules =
     [rule_websocket R_ws (new_rule Tagged_rule ''/ws/bids''),
      crow_route ''/register'' [Post] R_register,
      crow_route ''/login'' [Post] R_login,
      crow_route ''/edit_user'' [Put] R_edit_user,
      crow_route ''/create_auction'' [Post] R_create_auction,
      crow_route ''/place_bid'' [Post] R_place_bid,
      crow_route ''/get_all_items'' [Get] R_get_all_items,
      crow_route ''/get_item_details/<string>'' [Get] R_get_item_details,
      crow_route ''/get_auction_details/<string>'' [Get] R_get_auction_details,
      crow_route ''/get_transactions_for_buyer/<int>'' [Get] R_transactions_buyer,
      crow_route ''/get_transactions_for_seller/<int>'' [Get] R_transactions_seller,
      crow_route ''/complete_transaction/<int>'' [Post] R_complete,
      crow_route ''/'' [] R_root]"

text \<open>The lambda behind a route, given the request and the arguments the router passes.\<close>

fun route_call :: "route \<Rightarrow> request \<Rightarrow> route_arg list \<Rightarrow> call option" where
  "route_call R_register req [] = Some (CRegister req)"
| "route_call R_login req [] = Some (CLogin req)"
| "route_call R_edit_user req [] = Some (CEditUser req)"
| "route_call R_create_auction req [] = Some (CCreateAuction req)"
| "route_call R_place_bid req [] = Some (CPlaceBid req)"
| "route_call R_get_all_items req [] = Some CGetAllItems"
| "route_call R_get_item_details req [Arg_string i] = Some (CGetItemDetails i)"
| "route_call R_get_auction_details req [Arg_string i] = Some (CGetAuctionDetails i)"
| "route_call R_transactions_buyer req [Arg_int i] = Some (CTransactionsBuyer i)"
| "route_call R_transactions_seller req [Arg_int i] = Some (CTransactionsSeller i)"
| "route_call R_complete req [Arg_int i] = Some (CComplete i)"
| "route_call R_root req [] = Some CRoot"
| "route_call r req args = None"

text \<open>
  \<open>TaggedRule::handle\<close>: the types of the arguments come from the tag of the text. A WebSocket rule
  that is not upgraded answers 404.
\<close>

definition tagged_handle :: "route rule \<Rightarrow> routing_params \<Rightarrow> request \<Rightarrow> call option" where
  "tagged_handle r ps req =
     (if rl_kind r \<noteq> Tagged_rule then None
      else case get_parameter_tag (rl_rule r) of
        Inl _ \<Rightarrow> None
      | Inr tag \<Rightarrow> (case arguments tag of
          None \<Rightarrow> None
        | Some ts \<Rightarrow> (case call_args 0 0 0 0 ts ps of
            None \<Rightarrow> None
          | Some args \<Rightarrow> (case rl_handler r of None \<Rightarrow> None | Some h \<Rightarrow> route_call h req args))))"

text \<open>\<open>handle_initial\<close> and then, when a rule was found, \<open>handle\<close>: the handler's call, if one is reached.\<close>

definition dispatch :: "route router \<Rightarrow> request \<Rightarrow> call option" where
  "dispatch R req =
     (case handle_initial (response_end None) R req empty_response of
        (res, found, m) \<Rightarrow>
          if found_rule found = 0 then None
          else (case router_handle (response_end None) R req res found m of
            Run_rule r ps _ \<Rightarrow> tagged_handle r ps req
          | _ \<Rightarrow> None))"

definition bidnet_router :: "route router res option" where
  "bidnet_router = router_validate (new_router\<lparr>all_rules := bidnet_rules\<rparr>)"

definition bidnet :: "route router" where
  "bidnet = (case bidnet_router of Some (Inr R) \<Rightarrow> R | _ \<Rightarrow> new_router)"

subsection \<open>The tables of BidNet\<close>

lemma method_numbers: "method_index Get = 1" "method_index Post = 3" "method_index Put = 4" "method_index InternalMethodCount = 34"
  by code_simp+

lemma bidnet_methods:
  "foreach_method (prepared (crow_route x [Post] h)) = [3]" "foreach_method (prepared (crow_route x [Put] h)) = [4]"
  "foreach_method (prepared (crow_route x [Get] h)) = [1]" "foreach_method (prepared (crow_route x [] h)) = [1]"
  "foreach_method (prepared (rule_websocket h (new_rule Tagged_rule x))) = [1]"
proof -
  note d = crow_route_def rule_set_handler_def prepared_def rule_upgrade_def rule_websocket_def new_rule_def
  note n = method_numbers(1-3) [symmetric]
  show "foreach_method (prepared (crow_route x [Post] h)) = [3]"
    unfolding n(2) by (rule foreach_one_method) (simp_all add: d method_numbers)
  show "foreach_method (prepared (crow_route x [Put] h)) = [4]"
    unfolding n(3) by (rule foreach_one_method) (simp_all add: d method_numbers)
  show "foreach_method (prepared (crow_route x [Get] h)) = [1]" "foreach_method (prepared (crow_route x [] h)) = [1]"
    "foreach_method (prepared (rule_websocket h (new_rule Tagged_rule x))) = [1]"
    unfolding n(1) by (rule foreach_one_method; simp add: d method_numbers)+
qed

text \<open>The rules of each method in the order of registration.\<close>

lemma bidnet_by_method:
  "rules_of_method bidnet_rules m =
     (if m = 1 then map prepared
        [rule_websocket R_ws (new_rule Tagged_rule ''/ws/bids''), crow_route ''/get_all_items'' [Get] R_get_all_items,
         crow_route ''/get_item_details/<string>'' [Get] R_get_item_details,
         crow_route ''/get_auction_details/<string>'' [Get] R_get_auction_details,
         crow_route ''/get_transactions_for_buyer/<int>'' [Get] R_transactions_buyer,
         crow_route ''/get_transactions_for_seller/<int>'' [Get] R_transactions_seller, crow_route ''/'' [] R_root]
      else if m = 3 then map prepared
        [crow_route ''/register'' [Post] R_register, crow_route ''/login'' [Post] R_login,
         crow_route ''/create_auction'' [Post] R_create_auction, crow_route ''/place_bid'' [Post] R_place_bid,
         crow_route ''/complete_transaction/<int>'' [Post] R_complete]
      else if m = 4 then map prepared [crow_route ''/edit_user'' [Put] R_edit_user]
      else [])"
  by (auto simp: rules_of_method_def bidnet_rules_def bidnet_methods)

definition adds_ok :: "'h rule list \<Rightarrow> bool" where
  "adds_ok rs = (case add_all rs new_per_method of Some (Inr pm) \<Rightarrow> is_simple_node (pm_trie pm) | _ \<Rightarrow> False)"
lemma adds_ok: "adds_ok rs \<Longrightarrow> \<exists>pm. add_all rs new_per_method = Some (Inr pm) \<and> is_simple_node (pm_trie pm)"
  by (auto simp: adds_ok_def split: option.splits sum.splits)
lemma add_bidnet: "adds_ok (rules_of_method bidnet_rules m)"
proof -
  have 1: "adds_ok (map prepared
        [rule_websocket R_ws (new_rule Tagged_rule ''/ws/bids''), crow_route ''/get_all_items'' [Get] R_get_all_items,
         crow_route ''/get_item_details/<string>'' [Get] R_get_item_details,
         crow_route ''/get_auction_details/<string>'' [Get] R_get_auction_details,
         crow_route ''/get_transactions_for_buyer/<int>'' [Get] R_transactions_buyer,
         crow_route ''/get_transactions_for_seller/<int>'' [Get] R_transactions_seller, crow_route ''/'' [] R_root])" by code_simp
  have 2: "adds_ok (map prepared
        [crow_route ''/register'' [Post] R_register, crow_route ''/login'' [Post] R_login,
         crow_route ''/create_auction'' [Post] R_create_auction, crow_route ''/place_bid'' [Post] R_place_bid,
         crow_route ''/complete_transaction/<int>'' [Post] R_complete])" by code_simp
  have 3: "adds_ok (map prepared [crow_route ''/edit_user'' [Put] R_edit_user])" by code_simp
  have 4: "adds_ok ([] :: route rule list)" by code_simp
  show ?thesis unfolding bidnet_by_method using 1 2 3 4 by presburger
qed

lemma bidnet_rule_ok: "\<forall>r \<in> set bidnet_rules. \<exists>m. rule_ok 34 r m"
  by (simp add: bidnet_rules_def rule_ok_def bidnet_methods,
   simp add: crow_route_def rule_set_handler_def rule_upgrade_def rule_websocket_def new_rule_def rule_validate_def)

lemma bidnet_router_valid: "\<exists>R. bidnet_router = Some (Inr R)"
  unfolding bidnet_router_def by (rule router_validates) (use bidnet_rule_ok adds_ok [OF add_bidnet] in \<open>simp_all add: method_numbers\<close>)

lemma bidnet_tables:
  assumes "m < 34"
  shows "pm_ready (per_methods bidnet ! m) \<and> pm_rules (per_methods bidnet ! m) = [None, None] @ map Some (rules_of_method bidnet_rules m)"
proof -
  obtain R where R: "router_validate (new_router\<lparr>all_rules := bidnet_rules\<rparr>) = Some (Inr R)" "bidnet = R"
    using bidnet_router_valid by (auto simp: bidnet_def bidnet_router_def)
  have "rules_for m bidnet_rules = map Some (rules_of_method bidnet_rules m)"
    by (simp add: rules_for_def rules_of_method_def bidnet_rules_def bidnet_methods)
  moreover have "\<forall>r \<in> set bidnet_rules. \<not> rl_added r \<and> nul \<notin> set (rl_rule r)" "length bidnet_rules \<le> 65534"
    by (simp_all add: bidnet_rules_def crow_route_def rule_set_handler_def rule_websocket_def new_rule_def)
  ultimately show ?thesis
   using validated_tables [OF R(1), of m] assms R(2) by (simp add: method_numbers)
qed

subsection \<open>The first matching rule is called\<close>

lemma no_slash_rules: "r \<in> set (rules_of_method bidnet_rules m) \<Longrightarrow> drop_last_slash (rl_rule r) = None"
  by (auto simp: bidnet_by_method crow_route_def rule_set_handler_def rule_websocket_def new_rule_def split: if_splits)

lemma bidnet_table:
  assumes "m < 34"
  shows "(q, i) \<in> pm_table (pm_rules (per_methods bidnet ! m)) \<longleftrightarrow>
    2 \<le> i \<and> i - 2 < length (rules_of_method bidnet_rules m)
    \<and> rule_toks (rl_rule (rules_of_method bidnet_rules m ! (i - 2))) = Some q"
proof -
  let ?rs = "rules_of_method bidnet_rules m"
  have t: "pm_rules (per_methods bidnet ! m) = [None, None] @ map Some ?rs" using bidnet_tables [OF assms] by simp
  have e: "rule_entry ([None, None] @ map Some ?rs) j r \<longleftrightarrow> 2 \<le> j \<and> j - 2 < length ?rs \<and> r = ?rs ! (j - 2)" for j r
    by (auto simp: rule_entry_def nth_append numeral_2_eq_2)
  have "drop_last_slash (rl_rule (?rs ! (j - 2))) = None" if "j - 2 < length ?rs" for j
    by (rule no_slash_rules) (rule nth_mem [OF that])
  then show ?thesis unfolding t pm_table_def e by (auto simp del: drop_last_slash.simps)
qed

lemma dispatch_rule:
  assumes "req_method req = m" "m \<noteq> Head" "m \<noteq> Options" "m \<noteq> InternalMethodCount" "method_index m < 34"
    and "i < length (rules_of_method bidnet_rules (method_index m))" "r = rules_of_method bidnet_rules (method_index m) ! i"
    and "rule_toks (rl_rule r) = Some q" "match_toks q (url req) = Some args"
    and "\<forall>j < i. \<forall>p. rule_toks (rl_rule (rules_of_method bidnet_rules (method_index m) ! j)) = Some p \<longrightarrow> match_toks p (url req) = None"
  shows "dispatch bidnet req = tagged_handle r (fold push_param args no_params) req"
proof -
  let ?rs = "rules_of_method bidnet_rules (method_index m)" and ?pm = "per_methods bidnet ! method_index m"
  define found where "found = trie_find (pm_trie ?pm) (url req)"
  have ready: "pm_ready ?pm" and rules: "pm_rules ?pm = [None, None] @ map Some ?rs"
    using bidnet_tables [OF assms(5)] by simp_all
  have here: "(q, i + 2) \<in> pm_table (pm_rules ?pm)" using assms(6-8) by (simp add: bidnet_table [OF assms(5)])
  have "\<not> (\<forall>(q, i) \<in> pm_table (pm_rules ?pm). match_toks q (url req) = None)" using here assms(9) by fastforce
  with found_least [OF ready found_def [symmetric]] obtain p as where
    f: "(p, found_rule found) \<in> pm_table (pm_rules ?pm)" "match_toks p (url req) = Some as"
      "r_params found = fold push_param as no_params"
      "\<forall>(q, i) \<in> pm_table (pm_rules ?pm). match_toks q (url req) \<noteq> None \<longrightarrow> found_rule found \<le> i"
    by blast
  have le: "found_rule found \<le> i + 2" using f(4) here assms(9) by fastforce
  have fp: "2 \<le> found_rule found" "rule_toks (rl_rule (?rs ! (found_rule found - 2))) = Some p"
    using f(1) by (simp_all add: bidnet_table [OF assms(5)])
  have "\<not> found_rule found - 2 < i" using assms(10) fp f(2) by fastforce
  then have fi: "found_rule found = i + 2" using le fp(1) by linarith
  then have "p = q" "as = args" using fp(2) assms(7-9) f(2) by simp_all
  then show ?thesis
    using assms(1-7) f(3) fi rules
    by (simp add: dispatch_def handle_initial_def pm_find_def router_handle_def rule_at_def nth_append flip: found_def)
qed

subsection \<open>Every route reaches its handler\<close>

lemma rule_methods_keep:
  "rl_upgrade (rule_methods ms r) = rl_upgrade r" "rl_kind (rule_methods ms r) = rl_kind r" "rl_rule (rule_methods ms r) = rl_rule r"
  by (induction ms r rule: rule_methods.induct) (simp_all add: Let_def)

lemma prepared_crow [simp]:
  "rl_rule (prepared (crow_route x ms h)) = x" "rl_handler (prepared (crow_route x ms h)) = Some h"
  "rl_kind (prepared (crow_route x ms h)) = Tagged_rule"
  by (simp_all add: prepared_def crow_route_def rule_set_handler_def rule_upgrade_def Let_def rule_methods_keep)
    (simp_all add: new_rule_def rule_methods_keep)

lemma prepared_ws [simp]: "rl_rule (prepared (rule_websocket h (new_rule Tagged_rule x))) = x"
  by (simp add: rule_websocket_def new_rule_def)

lemma tagged_call:
  assumes "rl_rule r = x" "rl_kind r = Tagged_rule" "rl_handler r = Some h"
    and "get_parameter_tag x = Inr tag" "arguments tag = Some ts" "ts = map arg_type args"
  shows "tagged_handle r (fold push_param args no_params) req = route_call h req args"
proof -
  have "call_args 0 0 0 0 (map arg_type args) (fold push_param args no_params) = Some args"
    by (rule call_args_order) (simp add: holds_from_def)
  then show ?thesis using assms by (simp add: tagged_handle_def)
qed

lemma tags_of_bidnet:
  "get_parameter_tag ''/register'' = Inr 0" "get_parameter_tag ''/login'' = Inr 0" "get_parameter_tag ''/edit_user'' = Inr 0"
  "get_parameter_tag ''/create_auction'' = Inr 0" "get_parameter_tag ''/place_bid'' = Inr 0"
  "get_parameter_tag ''/get_all_items'' = Inr 0" "get_parameter_tag ''/'' = Inr 0"
  "get_parameter_tag ''/get_item_details/<string>'' = Inr 4" "get_parameter_tag ''/get_auction_details/<string>'' = Inr 4"
  "get_parameter_tag ''/get_transactions_for_buyer/<int>'' = Inr 1"
  "get_parameter_tag ''/get_transactions_for_seller/<int>'' = Inr 1"
  "get_parameter_tag ''/complete_transaction/<int>'' = Inr 1"
  by code_simp+

lemma tag_types: "arguments 0 = Some []" "arguments 4 = Some [T_string]" "arguments 1 = Some [T_int64]"
  by code_simp+

definition lit :: "string \<Rightarrow> tok list" where
  "lit s = map Chr s"

lemma toks_of_bidnet:
  "rule_toks ''/ws/bids'' = Some (lit ''/ws/bids'')"
  "rule_toks ''/register'' = Some (lit ''/register'')" "rule_toks ''/login'' = Some (lit ''/login'')"
  "rule_toks ''/edit_user'' = Some (lit ''/edit_user'')" "rule_toks ''/create_auction'' = Some (lit ''/create_auction'')"
  "rule_toks ''/place_bid'' = Some (lit ''/place_bid'')" "rule_toks ''/get_all_items'' = Some (lit ''/get_all_items'')"
  "rule_toks ''/'' = Some (lit ''/'')"
  "rule_toks ''/get_item_details/<string>'' = Some (lit ''/get_item_details/'' @ [Par P_STRING])"
  "rule_toks ''/get_auction_details/<string>'' = Some (lit ''/get_auction_details/'' @ [Par P_STRING])"
  "rule_toks ''/get_transactions_for_buyer/<int>'' = Some (lit ''/get_transactions_for_buyer/'' @ [Par P_INT])"
  "rule_toks ''/get_transactions_for_seller/<int>'' = Some (lit ''/get_transactions_for_seller/'' @ [Par P_INT])"
  "rule_toks ''/complete_transaction/<int>'' = Some (lit ''/complete_transaction/'' @ [Par P_INT])"
  by code_simp+

lemma match_lit:
  "match_toks (lit k) s = (if s = k then Some [] else None)"
  "match_toks (lit k @ q) s = (if take (length k) s = k then match_toks q (drop (length k) s) else None)"
  using match_literal [of k "[]" s] match_literal [of k q s] by (auto simp: lit_def)

lemma take_param_string: "i \<noteq> [] \<Longrightarrow> CHR ''/'' \<notin> set i \<Longrightarrow> match_toks [Par P_STRING] i = Some [Arg_string i]"
proof -
  assume a: "i \<noteq> []" "CHR ''/'' \<notin> set i"
  then have "takeWhile (\<lambda>c. c \<noteq> CHR ''/'') i = i" by (auto simp: takeWhile_eq_all_conv)
  then show ?thesis unfolding match_toks.simps take_param.simps Let_def using a(1) by (simp del: takeWhile_eq_all_conv)
qed

lemma take_param_int: "0 \<le> n \<Longrightarrow> n \<le> i64_max \<Longrightarrow> match_toks [Par P_INT] (show_int n) = Some [Arg_int n]"
proof -
  assume a: "0 \<le> n" "n \<le> i64_max"
  let ?d = "dec_digits (nat n)"
  obtain c r where d: "?d = c # r" by (cases ?d) auto
  have digits: "\<forall>x \<in> set ?d. is_digit x" by (rule dec_digits_digits)
  then have c: "is_digit c" by (simp add: d)
  then have "c \<noteq> CHR ''-''" "c \<noteq> CHR ''+''" by (auto simp: is_digit_def byte_def)
  then have s: "scan_sign ?d = (False, ?d)" by (simp add: d)
  have t: "takeWhile is_digit ?d = ?d" "dropWhile is_digit ?d = []" using digits by auto
  have v: "int (dec_val ?d) = n" using a by simp
  have "strtoll ?d = Some (n, [])"
    using a by (simp add: strtoll_def s t v i64_min_def)
  moreover have "?d \<noteq> [] \<and> is_digit (hd ?d)" using d c by simp
  ultimately show ?thesis using a by (simp add: show_int_def)
qed

text \<open>A request for a method and a path, everything else as in the given one.\<close>

definition asks :: "request \<Rightarrow> http_method \<Rightarrow> string \<Rightarrow> request" where
  "asks req m u = req\<lparr>req_method := m, url := u\<rparr>"

lemma asks_sel [simp]: "req_method (asks req m u) = m" "url (asks req m u) = u"
  by (simp_all add: asks_def)

lemma crow_text [simp]: "rl_rule (crow_route x ms h) = x"
  using prepared_crow(1) [of x ms h] by simp

lemma ws_text [simp]: "rl_rule (rule_websocket h (new_rule Tagged_rule x)) = x"
  by (simp add: rule_websocket_def new_rule_def)

lemma bidnet_calls:
  assumes "rule_toks x = Some q" "get_parameter_tag x = Inr tag" "arguments tag = Some ts"
    and "match_toks q u = Some args" "ts = map arg_type args"
    and "i < length (rules_of_method bidnet_rules (method_index m))"
    and "rules_of_method bidnet_rules (method_index m) ! i = prepared (crow_route x ms h)"
    and "\<forall>j < i. \<forall>p. rule_toks (rl_rule (rules_of_method bidnet_rules (method_index m) ! j)) = Some p \<longrightarrow> match_toks p u = None"
    and "m \<noteq> Head" "m \<noteq> Options" "m \<noteq> InternalMethodCount" "method_index m < 34"
  shows "dispatch bidnet (asks req m u) = route_call h (asks req m u) args"
proof -
  have "dispatch bidnet (asks req m u) = tagged_handle (prepared (crow_route x ms h)) (fold push_param args no_params) (asks req m u)"
    by (rule dispatch_rule [of _ m i _ q]) (use assms in simp_all)
  also have "\<dots> = route_call h (asks req m u) args"
    by (rule tagged_call) (use assms in simp_all)
  finally show ?thesis .
qed

lemmas route_facts = bidnet_by_method method_numbers toks_of_bidnet match_lit All_less_Suc2 numeral_eq_Suc

text \<open>C8: Each route without parameters calls its own handler with the request.\<close>

theorem plain_routes:
  "dispatch bidnet (asks req Post ''/register'') = Some (CRegister (asks req Post ''/register''))
   \<and> dispatch bidnet (asks req Post ''/login'') = Some (CLogin (asks req Post ''/login''))
   \<and> dispatch bidnet (asks req Put ''/edit_user'') = Some (CEditUser (asks req Put ''/edit_user''))
   \<and> dispatch bidnet (asks req Post ''/create_auction'') = Some (CCreateAuction (asks req Post ''/create_auction''))
   \<and> dispatch bidnet (asks req Post ''/place_bid'') = Some (CPlaceBid (asks req Post ''/place_bid''))
   \<and> dispatch bidnet (asks req Get ''/get_all_items'') = Some CGetAllItems
   \<and> dispatch bidnet (asks req Get ''/'') = Some CRoot"
proof (intro conjI)
  show "dispatch bidnet (asks req Post ''/register'') = Some (CRegister (asks req Post ''/register''))"
    by (subst bidnet_calls [OF toks_of_bidnet(2) tags_of_bidnet(1) tag_types(1), where args = "[]" and h = R_register and i = 0]) (simp_all add: route_facts del: match_toks.simps rule_toks.simps)
  show "dispatch bidnet (asks req Post ''/login'') = Some (CLogin (asks req Post ''/login''))"
    by (subst bidnet_calls [OF toks_of_bidnet(3) tags_of_bidnet(2) tag_types(1), where args = "[]" and h = R_login and i = 1]) (simp_all add: route_facts del: match_toks.simps rule_toks.simps)
  show "dispatch bidnet (asks req Put ''/edit_user'') = Some (CEditUser (asks req Put ''/edit_user''))"
    by (subst bidnet_calls [OF toks_of_bidnet(4) tags_of_bidnet(3) tag_types(1), where args = "[]" and h = R_edit_user and i = 0]) (simp_all add: route_facts del: match_toks.simps rule_toks.simps)
  show "dispatch bidnet (asks req Post ''/create_auction'') = Some (CCreateAuction (asks req Post ''/create_auction''))"
    by (subst bidnet_calls [OF toks_of_bidnet(5) tags_of_bidnet(4) tag_types(1), where args = "[]" and h = R_create_auction and i = 2]) (simp_all add: route_facts del: match_toks.simps rule_toks.simps)
  show "dispatch bidnet (asks req Post ''/place_bid'') = Some (CPlaceBid (asks req Post ''/place_bid''))"
    by (subst bidnet_calls [OF toks_of_bidnet(6) tags_of_bidnet(5) tag_types(1), where args = "[]" and h = R_place_bid and i = 3]) (simp_all add: route_facts del: match_toks.simps rule_toks.simps)
  show "dispatch bidnet (asks req Get ''/get_all_items'') = Some CGetAllItems"
    by (subst bidnet_calls [OF toks_of_bidnet(7) tags_of_bidnet(6) tag_types(1), where args = "[]" and h = R_get_all_items and i = 1]) (simp_all add: route_facts del: match_toks.simps rule_toks.simps)
  show "dispatch bidnet (asks req Get ''/'') = Some CRoot"
    by (subst bidnet_calls [OF toks_of_bidnet(8) tags_of_bidnet(7) tag_types(1), where args = "[]" and h = R_root and i = 6]) (simp_all add: route_facts del: match_toks.simps rule_toks.simps)
qed

text \<open>C9: The routes with an item: any non-empty text without a slash is passed on as it is.\<close>

theorem item_routes:
  assumes "item \<noteq> []" "CHR ''/'' \<notin> set item"
  shows "dispatch bidnet (asks req Get (''/get_item_details/'' @ item)) = Some (CGetItemDetails item)
    \<and> dispatch bidnet (asks req Get (''/get_auction_details/'' @ item)) = Some (CGetAuctionDetails item)"
proof (intro conjI)
  note p = take_param_string [OF assms]
  show "dispatch bidnet (asks req Get (''/get_item_details/'' @ item)) = Some (CGetItemDetails item)"
    by (subst bidnet_calls [OF toks_of_bidnet(9) tags_of_bidnet(8) tag_types(2), where args = "[Arg_string item]" and h = R_get_item_details and i = 2])
      (simp_all add: route_facts p del: match_toks.simps rule_toks.simps)
  show "dispatch bidnet (asks req Get (''/get_auction_details/'' @ item)) = Some (CGetAuctionDetails item)"
    by (subst bidnet_calls [OF toks_of_bidnet(10) tags_of_bidnet(9) tag_types(2), where args = "[Arg_string item]" and h = R_get_auction_details and i = 3])
      (simp_all add: route_facts p del: match_toks.simps rule_toks.simps)
qed

theorem item_routes_witness:
  "dispatch bidnet (asks empty_request Get ''/get_item_details/42'') = Some (CGetItemDetails ''42'')"
  using item_routes [of "''42''" empty_request] by simp

text \<open>C10: The routes with a number: every non-negative 64-bit number reaches its handler, in decimal.\<close>

theorem number_routes:
  assumes "0 \<le> n" "n \<le> i64_max"
  shows "dispatch bidnet (asks req Post (''/complete_transaction/'' @ show_int n)) = Some (CComplete n)
    \<and> dispatch bidnet (asks req Get (''/get_transactions_for_buyer/'' @ show_int n)) = Some (CTransactionsBuyer n)
    \<and> dispatch bidnet (asks req Get (''/get_transactions_for_seller/'' @ show_int n)) = Some (CTransactionsSeller n)"
proof (intro conjI)
  note p = take_param_int [OF assms]
  show "dispatch bidnet (asks req Post (''/complete_transaction/'' @ show_int n)) = Some (CComplete n)"
    by (subst bidnet_calls [OF toks_of_bidnet(13) tags_of_bidnet(12) tag_types(3), where args = "[Arg_int n]" and h = R_complete and i = 4])
      (simp_all add: route_facts p del: match_toks.simps rule_toks.simps)
  show "dispatch bidnet (asks req Get (''/get_transactions_for_buyer/'' @ show_int n)) = Some (CTransactionsBuyer n)"
    by (subst bidnet_calls [OF toks_of_bidnet(11) tags_of_bidnet(10) tag_types(3), where args = "[Arg_int n]" and h = R_transactions_buyer and i = 4])
      (simp_all add: route_facts p del: match_toks.simps rule_toks.simps)
  show "dispatch bidnet (asks req Get (''/get_transactions_for_seller/'' @ show_int n)) = Some (CTransactionsSeller n)"
    by (subst bidnet_calls [OF toks_of_bidnet(12) tags_of_bidnet(11) tag_types(3), where args = "[Arg_int n]" and h = R_transactions_seller and i = 5])
      (simp_all add: route_facts p del: match_toks.simps rule_toks.simps)
qed

theorem number_routes_witness:
  "dispatch bidnet (asks empty_request Post ''/complete_transaction/7'') = Some (CComplete 7)"
proof -
  have "show_int 7 = ''7''" by code_simp
  then show ?thesis using number_routes [of 7 empty_request] by (simp add: i64_max_def)
qed

text \<open>The routes of BidNet satisfy the conditions under which the first matching rule is found.\<close>

lemma bidnet_rules_ok:
  "\<forall>r \<in> set bidnet_rules. \<not> rl_added r \<and> nul \<notin> set (rl_rule r)" "length bidnet_rules \<le> 65534"
  by (simp_all add: bidnet_rules_def crow_route_def rule_set_handler_def rule_websocket_def new_rule_def)

theorem first_matching_rule_witness:
  "found_rule (pm_find bidnet 1 ''/get_all_items'') \<in> {1..3}"
proof -
  obtain R where R: "router_validate (new_router\<lparr>all_rules := bidnet_rules\<rparr>) = Some (Inr R)" "bidnet = R"
    using bidnet_router_valid by (auto simp: bidnet_def bidnet_router_def)
  have m: "1 < method_index InternalMethodCount" by (simp add: method_numbers)
  let ?t = "pm_table ([None, None] @ rules_for 1 bidnet_rules)"
  have t: "?t = pm_table (pm_rules (per_methods bidnet ! 1))"
    using validated_tables [OF R(1) bidnet_rules_ok m] R(2) by simp
  have here: "(lit ''/get_all_items'', 3) \<in> ?t" unfolding t by (simp add: bidnet_table bidnet_by_method toks_of_bidnet lit_def)
  have hit: "match_toks (lit ''/get_all_items'') ''/get_all_items'' = Some []" by (simp add: match_lit)
  note f = first_matching_rule [OF R(1) bidnet_rules_ok m, of "''/get_all_items''", unfolded Let_def, folded R(2)]
  have "\<not> (\<forall>(q, i) \<in> ?t. match_toks q ''/get_all_items'' = None)" using here hit by fastforce
  then obtain q args where q: "(q, found_rule (pm_find bidnet 1 ''/get_all_items'')) \<in> ?t"
      "\<forall>(q, i) \<in> ?t. match_toks q ''/get_all_items'' \<noteq> None \<longrightarrow> found_rule (pm_find bidnet 1 ''/get_all_items'') \<le> i"
    using f by blast
  have "found_rule (pm_find bidnet 1 ''/get_all_items'') \<le> 3" using q(2) here hit by fastforce
  moreover have "1 \<le> found_rule (pm_find bidnet 1 ''/get_all_items'')" using q(1) unfolding t by (auto simp: bidnet_table)
  ultimately show ?thesis by simp
qed

end
