(* ===== verification/Application.thy ===== *)
theory Application
  imports Connection Cors Routes
begin

text \<open>
  The server as \<open>main\<close> puts it together: the routes of BidNet behind the CORS middleware on a connection of Crow,
  and what a client that sends one request after the other gets back.
\<close>

subsection \<open>\<open>crow::App<crow::CORSHandler> app\<close>\<close>

definition cors_middleware :: "'k middleware" where
  "cors_middleware =
     \<lparr>call_global = True, before_handle = (\<lambda>s. s),
      after_handle = (\<lambda>(q, r, k). (q, cors_after_handle bidnet_cors q r, k))\<rparr>"

text \<open>
  The handler of a rule: a lambda of \<open>main\<close> returns its response or throws a \<open>std::exception\<close>; the rule of the
  WebSocket, which is the only one without such a lambda, ends the response with 404.
\<close>

definition bidnet_run :: "'c pqxx \<Rightarrow> indet \<Rightarrow> route rule \<Rightarrow> routing_params \<Rightarrow> request \<Rightarrow> response \<Rightarrow> 'c server \<Rightarrow>
    handled \<times> 'c server" where
  "bidnet_run px ind r ps req res s =
     (case tagged_handle r ps req of
        None \<Rightarrow> (Ends (response_move res (response_code 404)), s)
      | Some cl \<Rightarrow> (case run_call px ind cl s of
          (Inr out, s') \<Rightarrow> (Answer out, s')
        | (Inl e, s') \<Rightarrow> (Throws (Std_exception e), s')))"

definition bidnet_app :: "'c pqxx \<Rightarrow> indet \<Rightarrow> string \<Rightarrow> (ci_map \<Rightarrow> ci_map) \<Rightarrow> (route, 'c server) crow_app" where
  "bidnet_app px ind date order =
     \<lparr>app_router = bidnet, app_middlewares = [cors_middleware], app_run = bidnet_run px ind, app_fresh = (\<lambda>s. s),
      app_server_name = ''Crow/master'', app_date = date, app_stream_threshold = 1048576,
      app_file = (\<lambda>f. None), app_order = order\<rparr>"

lemma cors_before: "middleware_call_helper Only_global 0 [cors_middleware] s = (False, s)" if "\<not> completed (mw_response s)"
  using that by (simp add: cors_middleware_def)

subsection \<open>The responses of the handlers\<close>

definition act_yields :: "('a \<Rightarrow> bool) \<Rightarrow> ('s, 'a) act \<Rightarrow> bool" where
  "act_yields P m \<longleftrightarrow> (\<forall>s x s'. m s = (Inr x, s') \<longrightarrow> P x)"

lemma yields_return: "P x \<Longrightarrow> act_yields P (act_return x)"
  by (simp add: act_yields_def)

lemma yields_bind: "(\<And>x. act_yields P (f x)) \<Longrightarrow> act_yields P (act_bind m f)"
  by (auto simp: act_yields_def act_bind_def split: prod.splits sum.splits)

lemma yields_catch: "act_yields P m \<Longrightarrow> (\<And>e. P (h e)) \<Longrightarrow> act_yields P (act_catch m h)"
  by (auto simp: act_yields_def act_catch_def split: prod.splits sum.splits)

lemma yields_with_txn: "act_yields P block \<Longrightarrow> act_yields P (with_txn px block)"
  by (auto simp: act_yields_def with_txn_def split: prod.splits sum.splits)

lemma yields_if: "act_yields P m \<Longrightarrow> act_yields P n \<Longrightarrow> act_yields P (if b then m else n)"
  by simp

lemma yields_case_list:
  "act_yields P m \<Longrightarrow> (\<And>x xs. act_yields P (f x xs)) \<Longrightarrow> act_yields P (case ys of [] \<Rightarrow> m | x # xs \<Rightarrow> f x xs)"
  by (cases ys) simp_all

lemmas yields = yields_bind yields_catch yields_with_txn yields_if yields_case_list yields_return

definition fresh_response :: "response \<Rightarrow> bool" where
  "fresh_response r \<longleftrightarrow> clean r \<and> file_path r = []"

lemma fresh_responses [simp]:
  "fresh_response (response_text c s)" "fresh_response (response_code c)" "fresh_response (response_json c w)"
  "fresh_response (error_text e)" "fresh_response (bid_error e)" "fresh_response bid_rejected" "fresh_response (bid_accepted x)"
  "fresh_response (empty_response\<lparr>body := s\<rparr>)"
  by (simp_all add: fresh_response_def clean_def response_text_def response_code_def response_json_def response_returnable_def
      error_text_def bid_error_def bid_rejected_def bid_accepted_def empty_response_def set_header_def)

lemma call_is_fresh: "act_yields fresh_response (run_call px ind cl)"
  by (cases cl)
     (auto simp: register_user_def login_def edit_user_def create_auction_def get_all_items_def get_item_details_def
        get_auction_details_def get_transactions_for_buyer_def get_transactions_for_seller_def get_transactions_def
        complete_transaction_def root_handler_def place_bid_def bid_transaction_def Let_def intro!: yields)


subsection \<open>From a request to its handler\<close>

lemma initial_result:
  assumes "handle_initial fin R req res = (res0, found, m)" "found_rule found \<noteq> 0" "req_method req \<noteq> Head"
    and same: "req_method req' = req_method req" "url req' = url req"
  shows "handle_initial fin' R req' res' = (res', found, m) \<and> m \<noteq> InternalMethodCount"
  using assms by (auto simp: handle_initial_def Let_def nothing_found_def split: if_splits)

lemma bidnet_no_mw: "rl_mw r = []" if "router_handle f bidnet req res found m = Run_rule r ps res'" "m \<noteq> InternalMethodCount"
proof -
  let ?rules = "pm_rules (per_methods bidnet ! method_index m)"
  have lt: "method_index m < 34" using that(2) by (cases m) (simp_all add: method_index_def http_methods_def)
  have rs: "?rules = [None, None] @ map Some (rules_of_method bidnet_rules (method_index m))"
    using bidnet_tables lt by (simp add: method_numbers)
  have "found_rule found < length ?rules" "?rules ! found_rule found = Some r"
    using that(1) by (auto simp: router_handle_def rule_at_def Let_def split: if_splits option.splits)
  then have "Some r \<in> set ?rules" by (metis nth_mem)
  then obtain r' where r: "r' \<in> set bidnet_rules" "r = prepared r'" unfolding rs by (auto simp: rules_of_method_def)
  have "\<forall>r' \<in> set bidnet_rules. rl_mw r' = []"
    by (simp add: bidnet_rules_def crow_route_def rule_set_handler_def rule_websocket_def new_rule_def)
  then show ?thesis using r by (auto simp: prepared_def rule_upgrade_def mw_pack_def new_rule_def split: option.split)
qed

lemma handle_any_response:
  assumes "router_handle f R req res found m = Run_rule r ps res"
  shows "router_handle f' R req' res' found m = Run_rule r ps res'"
  using assms by (auto simp: router_handle_def rule_at_def Let_def split: if_splits option.splits)

lemma dispatch_reaches:
  assumes "dispatch bidnet W = Some cl" "req_method W \<noteq> Head" "req_method u = req_method W" "url u = url W"
  obtains found m r ps where "handle_initial (response_end None) bidnet u res = (res, found, m)" "found_rule found \<noteq> 0"
    "router_handle (\<lambda>r. r) bidnet W res found m = Run_rule r ps res" "rl_mw r = []" "tagged_handle r ps W = Some cl"
proof -
  obtain res0 found m where i: "handle_initial (response_end None) bidnet W empty_response = (res0, found, m)"
    by (metis prod_cases3)
  with assms(1) have f: "found_rule found \<noteq> 0" by (auto simp: dispatch_def split: if_splits)
  note j = initial_result[OF i f assms(2)]
  have "res0 = empty_response" using j[OF refl refl, of "response_end None" empty_response] i by simp
  with assms(1) i f obtain r ps res1 where
    r: "router_handle (response_end None) bidnet W empty_response found m = Run_rule r ps res1" "tagged_handle r ps W = Some cl"
    by (auto simp: dispatch_def split: action.splits)
  moreover have "res1 = empty_response" using r(1)
    by (auto simp: router_handle_def rule_at_def Let_def split: if_splits option.splits)
  ultimately show thesis
    using that[of found m r ps] j[OF assms(3,4)] f handle_any_response[of "response_end None" bidnet W empty_response found m r ps] bidnet_no_mw
    by blast
qed


subsection \<open>A client and its requests\<close>

record asked =
  as_method :: http_method
  as_path :: string
  as_query :: string
  as_headers :: "(string \<times> string) list"
  as_body :: "string option"

definition asked_text :: "asked \<Rightarrow> string" where
  "asked_text x = request_text (as_method x) (as_path x) (as_query x) CHR ''1'' CHR ''1'' (as_headers x) (as_body x)"

definition asked_request :: "asked \<Rightarrow> request" where
  "asked_request x = whole_request (as_method x) (as_path x) (as_query x) CHR ''1'' CHR ''1'' (as_headers x) (as_body x)"

text \<open>
  What a client may send: any request that the parser reads as it is, for one of the routes. It is read at once
  into the buffer of the connection, and it does not ask to be told to go on with its body.
\<close>

definition proper :: "asked \<Rightarrow> bool" where
  "proper x \<longleftrightarrow>
     as_method x \<noteq> InternalMethodCount \<and> as_method x \<noteq> Connect \<and> as_method x \<noteq> Head \<and>
     url_path (as_path x) \<and> url_query (as_query x) \<and>
     list_all (\<lambda>(k, v). plain_name k \<and> plain_value v) (as_headers x) \<and>
     length (asked_text x) \<le> 4096 \<and>
     ci_count ''host'' (req_headers (asked_request x)) \<noteq> 0 \<and>
     ci_count ''expect'' (req_headers (asked_request x)) = 0 \<and>
     dispatch bidnet (asked_request x) \<noteq> None"

lemma proper_sizes:
  assumes "proper x"
  shows "as_body x \<noteq> None \<longrightarrow> length (the (as_body x)) \<le> ullong_max - 10"
    "length (request_head (as_method x) (as_path x) (as_query x) CHR ''1'' CHR ''1'' (as_headers x) (as_body x)) < max_header_size"
  using assms by (auto simp: proper_def asked_text_def request_text_def ullong_max_def max_header_size_def)

lemma proper_expect: "proper x \<Longrightarrow> get_header_value (req_headers (asked_request x)) ''expect'' \<noteq> ''100-continue''"
  by (simp add: proper_def get_header_value_def ci_find_values ci_count_values)

text \<open>The handler that answers, what it returns, and the response the client gets for it.\<close>

definition asked_call :: "asked \<Rightarrow> call" where
  "asked_call x = the (dispatch bidnet (asked_request x))"

definition shown :: "asked \<Rightarrow> response res \<Rightarrow> response" where
  "shown x out =
     settle_response (cors_after_handle bidnet_cors (asked_request x)
       ((case out of Inr r \<Rightarrow> r | Inl e \<Rightarrow> response_code 500)\<lparr>completed := True\<rparr>))"

fun session :: "'c pqxx \<Rightarrow> indet \<Rightarrow> asked list \<Rightarrow> 'c server \<Rightarrow> response list" where
  "session px ind [] s = []"
| "session px ind (x # xs) s =
     (case run_call px ind (asked_call x) s of (out, s') \<Rightarrow> shown x out # session px ind xs s')"

definition on_wire :: "('h, 'k) crow_app \<Rightarrow> response \<Rightarrow> string" where
  "on_wire a r = response_head a True r @ body r"

text \<open>The reads of a connection, one buffer after the other.\<close>

fun reads :: "('h, 'k) crow_app \<Rightarrow> nat \<Rightarrow> string list \<Rightarrow> ('h, 'k) connection http_parser \<Rightarrow> ('h, 'k) connection http_parser option" where
  "reads a addr [] p = Some p"
| "reads a addr (b # bs) p = Option.bind (on_read a addr False b p) (reads a addr bs)"

lemma no_override_file [simp]: "file_path (set_header_no_override k v r) = file_path r"
  by (simp add: set_header_no_override_def add_header_def)

lemma cors_file [simp]: "file_path (cors_after_handle h q r) = file_path r"
  by (simp add: cors_after_handle_def cors_apply_def Let_def)

lemma validate_exceptions: "router_validate R = Some (Inr R') \<Longrightarrow> exception_handler R' = exception_handler R"
  by (auto simp: router_validate_def bind_res_def split: option.splits sum.splits prod.splits)

lemma bidnet_exceptions: "exception_handler bidnet = default_exception_handler"
proof -
  obtain R where "router_validate (new_router\<lparr>all_rules := bidnet_rules\<rparr>) = Some (Inr R)" "bidnet = R"
    using bidnet_router_valid by (auto simp: bidnet_def bidnet_router_def)
  then show ?thesis using validate_exceptions by (fastforce simp: new_router_def)
qed

lemma fresh_move: "clean res \<Longrightarrow> fresh_response r \<Longrightarrow> response_move res r = r"
  by (simp add: response_move_def fresh_response_def clean_def)

lemma fresh_ended: "fresh_response r \<Longrightarrow> response_end None r = r\<lparr>completed := True\<rparr>"
  by (simp add: response_end_def fresh_response_def clean_def Let_def)

lemma bidnet_reply:
  assumes "run_call px ind cl s = (out, s')" "clean res"
  obtains h rr where "(case out of Inr r \<Rightarrow> Answer r | Inl e \<Rightarrow> Throws (Std_exception e)) = h"
    "outcome (bidnet_app px ind date order) res h = Some rr" "\<not> completed rr" "file_path rr = []"
    "reply (bidnet_app px ind date order) (asked_request x) rr s' = (shown x out, s')"
proof (cases out)
  case (Inl e)
  have x: "exception_handler bidnet (Std_exception e) res = response_code 500"
    using fresh_move[OF assms(2)] by (simp add: bidnet_exceptions default_exception_handler_def)
  have f: "\<not> completed (response_code 500)" "file_path (response_code 500) = []"
    using fresh_responses(2)[of 500] by (simp_all add: fresh_response_def clean_def)
  show thesis using that[of "Throws (Std_exception e)" "response_code 500"] x f fresh_responses(2)[of 500] Inl
    by (simp add: reply_def bidnet_app_def cors_middleware_def after_handlers_call_helper_def fresh_ended shown_def)
next
  case (Inr r)
  have r: "fresh_response r" using call_is_fresh assms(1) Inr unfolding act_yields_def by blast
  then have f: "\<not> completed r" "file_path r = []" by (simp_all add: fresh_response_def clean_def)
  show thesis using that[of "Answer r" r] assms(2) Inr r f
    by (simp add: fresh_move reply_def bidnet_app_def cors_middleware_def after_handlers_call_helper_def fresh_ended shown_def)
qed


lemma bidnet_answers:
  assumes p: "idle p" and x: "proper x" and run: "run_call px ind (asked_call x) (cn_app (connection p)) = (out, s')"
    and small: "length (body (shown x out)) < 1048576"
  shows "\<exists>p'. on_read (bidnet_app px ind date order) addr False (asked_text x) p = Some p' \<and> idle p' \<and>
    cn_wire (connection p') = cn_wire (connection p) @ on_wire (bidnet_app px ind date order) (shown x out) \<and>
    cn_app (connection p') = s'"
proof -
  let ?a = "bidnet_app px ind date order" and ?c = "connection p"
  let ?u = "url_request (as_method x) (as_path x) (as_query x)"
  have W: "req_method (asked_request x) = as_method x" "url (asked_request x) = as_path x"
    "req_method ?u = as_method x" "url ?u = as_path x"
    by (simp_all add: asked_request_def whole_request_def head_request_def url_request_def)
  have cl: "clean (cn_res ?c)" using p by (simp add: idle_def)
  have "dispatch bidnet (asked_request x) = Some (asked_call x)" "as_method x \<noteq> Head" using x by (auto simp: proper_def asked_call_def)
  then obtain found m r ps where d: "handle_initial (response_end None) bidnet ?u (cn_res ?c) = (cn_res ?c, found, m)"
      "found_rule found \<noteq> 0" "router_handle (\<lambda>r. r) bidnet (asked_request x) (cn_res ?c) found m = Run_rule r ps (cn_res ?c)"
      "rl_mw r = []" "tagged_handle r ps (asked_request x) = Some (asked_call x)"
    using dispatch_reaches[of "asked_request x" "asked_call x" ?u "cn_res ?c"] W by metis
  obtain h rr where h: "(case out of Inr r \<Rightarrow> Answer r | Inl e \<Rightarrow> Throws (Std_exception e)) = h"
      "outcome ?a (cn_res ?c) h = Some rr" "\<not> completed rr" "file_path rr = []"
      "reply ?a (asked_request x) rr s' = (shown x out, s')"
    using bidnet_reply[OF run cl] by metis
  have b: "middleware_call_helper Only_global 0 (app_middlewares ?a) (asked_request x, cn_res ?c, app_fresh ?a (cn_app ?c)) =
      (False, asked_request x, cn_res ?c, app_fresh ?a (cn_app ?c))"
    using cors_before[of "(asked_request x, cn_res ?c, cn_app ?c)"] cl by (simp add: bidnet_app_def mw_response_def clean_def)
  have run': "app_run ?a r ps (asked_request x) (cn_res ?c) (app_fresh ?a (cn_app ?c)) = (h, s')"
    using d(5) run h(1) by (simp add: bidnet_app_def bidnet_run_def split: sum.splits)
  have "file_path (response_end None rr) = []" using h(4) by (simp add: response_end_def Let_def set_header_def)
  moreover have "shown x out = settle_response (cors_after_handle bidnet_cors (asked_request x) (response_end None rr))"
    using h(5) by (simp add: reply_def bidnet_app_def cors_middleware_def after_handlers_call_helper_def)
  ultimately have f: "file_path (shown x out) = []" by simp
  have "app_router ?a = bidnet" "app_stream_threshold ?a = 1048576" by (simp_all add: bidnet_app_def)
  with request_is_answered[of p "as_method x" "as_path x" "as_query x" "as_headers x" "as_body x" "asked_request x" ?a
      "cn_res ?c" found m r ps False h s' rr "shown x out" s' addr]
  show ?thesis using p x proper_sizes[OF x] proper_expect[OF x] d(1-4) b run' h f small cl
    by (auto simp: proper_def asked_request_def asked_text_def on_wire_def clean_def)
qed


text \<open>C35: BidNet over HTTP. A client whose requests arrive one after the other gets, in that order and nothing else, the
  responses of their handlers - whatever they return or throw, with the CORS headers and the head of the framework -
  and the state of the server afterwards is the one that serving the calls leaves.
\<close>

theorem session_is_served:
  assumes "idle p" and "list_all proper xs"
    and "\<forall>r \<in> set (session px ind xs (cn_app (connection p))). length (body r) < 1048576"
  shows "\<exists>p'. reads (bidnet_app px ind date order) addr (map asked_text xs) p = Some p' \<and> idle p' \<and>
    cn_wire (connection p') = cn_wire (connection p) @
      concat (map (on_wire (bidnet_app px ind date order)) (session px ind xs (cn_app (connection p)))) \<and>
    cn_app (connection p') = serve px (map (\<lambda>x. Request ind (asked_call x)) xs) (cn_app (connection p))"
  using assms
proof (induction xs arbitrary: p)
  case Nil
  then show ?case by (simp add: serve_def)
next
  case (Cons x xs)
  obtain out s' where run: "run_call px ind (asked_call x) (cn_app (connection p)) = (out, s')" by force
  with Cons.prems have small: "length (body (shown x out)) < 1048576" and x: "proper x" by simp_all
  obtain p1 where p1: "on_read (bidnet_app px ind date order) addr False (asked_text x) p = Some p1" "idle p1"
      "cn_wire (connection p1) = cn_wire (connection p) @ on_wire (bidnet_app px ind date order) (shown x out)"
      "cn_app (connection p1) = s'"
    using bidnet_answers[OF Cons.prems(1) x run small] by blast
  have "\<exists>p'. reads (bidnet_app px ind date order) addr (map asked_text xs) p1 = Some p' \<and> idle p' \<and>
      cn_wire (connection p') = cn_wire (connection p1) @
        concat (map (on_wire (bidnet_app px ind date order)) (session px ind xs (cn_app (connection p1)))) \<and>
      cn_app (connection p') = serve px (map (\<lambda>x. Request ind (asked_call x)) xs) (cn_app (connection p1))"
    using Cons.IH[OF p1(2)] Cons.prems(2,3) run p1(4) by simp
  then show ?case using p1 run by (auto simp: serve_def)
qed


text \<open>Two requests of one client on a new connection: the root, and a registration whose body is no JSON.\<close>

definition two_requests :: "asked list" where
  "two_requests =
     [\<lparr>as_method = Get, as_path = ''/'', as_query = [], as_headers = [(''Host'', ''b'')], as_body = None\<rparr>,
      \<lparr>as_method = Post, as_path = ''/register'', as_query = ''?x=1'', as_headers = [(''Host'', ''b'')], as_body = Some ''x''\<rparr>]"

definition new_server :: "memdb server" where
  "new_server = \<lparr>conn = \<lparr>committed = empty_tables, working = empty_tables\<rparr>, ws_clients = [], sent = []\<rparr>"

lemma root_dispatch: "dispatch bidnet (asks req Get ''/'') = Some CRoot"
  by (subst bidnet_calls [OF toks_of_bidnet(8) tags_of_bidnet(7) tag_types(1), where args = "[]" and h = R_root and i = 6])
    (simp_all add: route_facts del: match_toks.simps rule_toks.simps)

lemma register_dispatch: "dispatch bidnet (asks req Post ''/register'') = Some (CRegister (asks req Post ''/register''))"
  by (subst bidnet_calls [OF toks_of_bidnet(2) tags_of_bidnet(1) tag_types(1), where args = "[]" and h = R_register and i = 0])
    (simp_all add: route_facts del: match_toks.simps rule_toks.simps)

lemma asked_asks: "asked_request x = asks (asked_request x) (as_method x) (as_path x)"
  by (simp add: asked_request_def whole_request_def head_request_def url_request_def asks_def)

lemma two_calls:
  "dispatch bidnet (asked_request (two_requests ! 0)) = Some CRoot"
  "dispatch bidnet (asked_request (two_requests ! 1)) = Some (CRegister (asked_request (two_requests ! 1)))"
  using asked_asks[of "two_requests ! 0"] asked_asks[of "two_requests ! 1"] root_dispatch register_dispatch
  by (simp_all add: two_requests_def) metis+

lemma two_proper: "list_all proper two_requests"
proof -
  have "proper (two_requests ! 0)" unfolding proper_def two_calls
    by (intro conjI; code_simp)
  moreover have "proper (two_requests ! 1)" unfolding proper_def two_calls
    by (intro conjI; code_simp)
  ultimately show ?thesis by (simp add: two_requests_def)
qed


lemma two_session:
  "session mem_px \<lparr>ind_int = 0, ind_double = double_zero\<rparr> two_requests new_server =
    map (\<lambda>(x, r). shown x (Inr r)) (zip two_requests [empty_response\<lparr>body := ''Hit from Crow!''\<rparr>, response_text 400 ''Invalid JSON''])
   \<and> serve mem_px (map (\<lambda>x. Request \<lparr>ind_int = 0, ind_double = double_zero\<rparr> (asked_call x)) two_requests) new_server = new_server"
proof -
  have a: "asked_call (two_requests ! 0) = CRoot" "asked_call (two_requests ! 1) = CRegister (asked_request (two_requests ! 1))"
    by (simp_all add: asked_call_def two_calls del: One_nat_def)
  have j: "rv_ok (load (req_body (asked_request (two_requests ! 1)))) = False" by code_simp
  have t: "two_requests = [two_requests ! 0, two_requests ! 1]" by (simp add: two_requests_def)
  show ?thesis
    by (subst t, subst (2) t, subst (3) t) (simp add: a serve_def root_handler_def register_user_def Let_def j del: One_nat_def)
qed


definition text_lines :: "string list \<Rightarrow> string" where
  "text_lines ls = concat (map (\<lambda>l. l @ crlf) ls)"

lemma wire_lines:
  "on_wire (bidnet_app px ind ''today'' (\<lambda>h. h)) (shown (two_requests ! 0) (Inr (empty_response\<lparr>body := ''Hit from Crow!''\<rparr>))) =
     text_lines [''HTTP/1.1 200 OK'', ''Access-Control-Allow-Methods: *'', ''Access-Control-Allow-Headers: *'',
       ''Access-Control-Allow-Origin: *'', ''Content-Length: 14'', ''Server: Crow/master'', ''Date: today'',
       ''Connection: Keep-Alive'', []] @ ''Hit from Crow!''"
  "on_wire (bidnet_app px ind ''today'' (\<lambda>h. h)) (shown (two_requests ! 1) (Inr (response_text 400 ''Invalid JSON''))) =
     text_lines [''HTTP/1.1 400 Bad Request'', ''Access-Control-Allow-Methods: *'', ''Access-Control-Allow-Headers: *'',
       ''Access-Control-Allow-Origin: *'', ''Content-Length: 12'', ''Server: Crow/master'', ''Date: today'',
       ''Connection: Keep-Alive'', []] @ ''Invalid JSON''"
  unfolding on_wire_def response_head_def bidnet_app_def crow_app.simps by code_simp+

theorem session_is_served_witness:
  "\<exists>p'. reads (bidnet_app mem_px \<lparr>ind_int = 0, ind_double = double_zero\<rparr> ''today'' (\<lambda>h. h)) 0 (map asked_text two_requests)
      (http_parser_init (new_connection 1 0 (new_timer 1000) new_server)) = Some p' \<and>
    cn_app (connection p') = new_server \<and>
    cn_wire (connection p') =
     text_lines [''HTTP/1.1 200 OK'', ''Access-Control-Allow-Methods: *'', ''Access-Control-Allow-Headers: *'',
       ''Access-Control-Allow-Origin: *'', ''Content-Length: 14'', ''Server: Crow/master'', ''Date: today'',
       ''Connection: Keep-Alive'', []] @ ''Hit from Crow!'' @
     text_lines [''HTTP/1.1 400 Bad Request'', ''Access-Control-Allow-Methods: *'', ''Access-Control-Allow-Headers: *'',
       ''Access-Control-Allow-Origin: *'', ''Content-Length: 12'', ''Server: Crow/master'', ''Date: today'',
       ''Connection: Keep-Alive'', []] @ ''Invalid JSON''"
proof -
  let ?p = "http_parser_init (new_connection 1 0 (new_timer 1000) new_server)"
  let ?r = "[shown (two_requests ! 0) (Inr (empty_response\<lparr>body := ''Hit from Crow!''\<rparr>)),
    shown (two_requests ! 1) (Inr (response_text 400 ''Invalid JSON''))]"
  have p: "cn_app (connection ?p) = new_server" "cn_wire (connection ?p) = []" "idle ?p"
    using ready_init by (simp_all add: idle_def new_connection_def http_parser_init_def clean_def empty_response_def)
  have s: "session mem_px \<lparr>ind_int = 0, ind_double = double_zero\<rparr> two_requests new_server = ?r"
    using two_session by (simp add: two_requests_def)
  have small: "\<forall>r \<in> set ?r. length (body r) < 1048576" by code_simp
  show ?thesis
    using session_is_served[OF p(3) two_proper, where px = mem_px and ind = "\<lparr>ind_int = 0, ind_double = double_zero\<rparr>"
        and date = "''today''" and order = "\<lambda>h. h" and addr = 0, unfolded p s, OF small] two_session by (auto simp: wire_lines simp del: One_nat_def)
qed

end
