(* ===== verification/Spec2Isabelle.thy ===== *)
theory Spec2Isabelle
  imports JsonEdit Application
begin

text \<open>
  BidNet: an auction server in C++ (\<open>src/server/main.cpp\<close>) on the web framework Crow
  (\<open>src/server/Crow/include/crow\<close>), which the repository contains, and on PostgreSQL through libpqxx,
  which it does not.

  How the parts interact. A client's bytes are split into requests, the router finds the rule for
  method and path and calls its handler with the parameters of the path, the handler parses the JSON body,
  runs one database transaction and answers, the CORS middleware adds headers to the answer, and an
  accepted bid is sent to every connected WebSocket. The application is started with the default
  concurrency of one worker, so handlers run one after the other; the model has one handler at a time.

  Which theory models what:
    \<^item> \<open>Prelude\<close>, \<open>Floats\<close>, \<open>Numtext\<close>: bytes and C strings, results that may be exceptions, IEEE doubles with
      correct rounding, and the conversions between numbers and text of the C++ library.
    \<^item> \<open>JsonRead\<close>, \<open>JsonWrite\<close>, \<open>JsonEdit\<close> (\<open>crow/json.h\<close>): the parser and \<open>rvalue\<close>, \<open>wvalue\<close> and \<open>dump\<close>, and
      editing. Printing and loading are inverse, loading ends on every text, the binary search finds a
      member with the key in any sorted order, editing keeps the document up to the order of members, the
      reserved buffer is large enough for texts with few escapes. A write object is an \<open>unordered_map\<close>: the
      model is the list of its members in iteration order, to which \<open>w[key]\<close> adds a new member at the end.
      The library leaves that order open, so where a response of BidNet is printed, the order of its members
      is this choice; \<open>wv_of_rv\<close> takes the order as an argument.
    \<^item> \<open>Http\<close> (\<open>common.h\<close>, \<open>ci_map.h\<close>, \<open>http_request.h\<close>, \<open>http_response.h\<close>): methods, status codes, header maps with
      keys compared without case, requests and responses.
      The values of a key are a list; where a key occurs once it does not matter which one \<open>find\<close> takes.
    \<^item> \<open>HttpParser\<close>, \<open>Requests\<close> (\<open>http_parser_merged.h\<close>, \<open>parser.h\<close>): \<open>http_parser_execute\<close> with one definition per
      state, its callbacks, and the loop over a buffer. The loop stays in the buffer and ends, a head that is
      never completed is limited to 80 KiB however it is cut, the automaton of the methods accepts exactly
      their names, and a well-formed request is parsed into exactly that request.
    \<^item> \<open>Query\<close> (\<open>query_string.h\<close>): query strings decoded in place, with offsets for pointers. What a client
      sends is what \<open>get\<close>, \<open>get_list\<close> and \<open>keys\<close> read.
    \<^item> \<open>Base64\<close>, \<open>Utility\<close> (\<open>utility.h\<close>): base64, route tags, file names, trimming, splitting, paths.
    \<^item> \<open>Cors\<close> (\<open>middlewares/cors.h\<close>): the rules and what they add to a response.
    \<^item> \<open>Trie\<close>, \<open>Router\<close> (\<open>routing.h\<close>): the tree of a method, its optimisation and lookup; rules, validation, the
      vectors of rules and what the router does with a request. A router that passed validation finds the
      first registered rule that matches.
    \<^item> \<open>Middleware\<close> (\<open>middleware.h\<close>): the calls of the middleware around a handler.
    \<^item> \<open>Timer\<close> (\<open>task_timer.h\<close>): scheduled tasks, their identifiers and a tick.
    \<^item> \<open>Connection\<close> (\<open>http_connection.h\<close>, \<open>app.h\<close>): a connection as the state behind the parser: what its three
      handlers do, the call of a handler, and the bytes that go out.
    \<^item> \<open>Routes\<close>: the rules \<open>main\<close> registers, and which handler each path reaches.
    \<^item> \<open>Database\<close> (\<open>db_connection.cpp\<close>): libpqxx as a record of functions on an abstract connection
      (\<^term>\<open>pqxx\<close>), transactions that roll back unless they are committed, and the weakest
      preconditions the other theories reason with.
    \<^item> \<open>Bidnet\<close> (\<open>main.cpp\<close>): the handlers, statement by statement, over the server state: connection,
      WebSocket clients, messages sent.
    \<^item> \<open>Store\<close>, \<open>Sqltext\<close>, \<open>Auction\<close>, \<open>Bidding\<close>, \<open>Accounts\<close>, \<open>Server\<close>: what is assumed of the statements (locales
      \<open>sql_effects\<close> and \<open>auction_store\<close>), the auction as an abstract machine on tables with its invariant, and
      the refinement of every handler to it. \<open>Memdb\<close> is a database in memory that meets the assumptions, on
      which the locales are interpreted.

    \<^item> \<open>Application\<close>: all of it put together: what a client gets for a sequence of requests.

  Bounds and fuel. The JSON parser takes fuel; \<open>load_terminates\<close> shows that three times the length of the text
  plus one is enough and that more changes nothing. All other recursions are total. Amounts in the
  tables are cents below 10 to the 10th, as \<open>DECIMAL(10,2)\<close> stores them. A buffer given to the parser has at
  most 4096 bytes, the size of the buffer of a connection; the limit on heads is proved for buffers below
  2 to the 31st bytes, whose length an \<open>int\<close> holds.

  Not modelled. libpqxx and PostgreSQL are parameters: the theorems hold for every database that meets the
  locale they name, and its quoting is assumed only for the text before the first zero byte, where the
  escaping of libpqxx stops. asio, sockets, threads, logging and zlib have no model: a read is a list of
  bytes, a write succeeds, and the clock is an argument. Of WebSockets only the callbacks of BidNet are
  modelled, not the frames. Of Crow, blueprints, sessions, cookies, multipart bodies and Mustache templates,
  which BidNet does not use, are left out, and so is the TypeScript client.
\<close>

section \<open>The auction\<close>

text \<open>C1: A bid whose body names an item, a bidder and a positive amount has exactly one of four
  outcomes, decided by the tables when the handler starts: 404 when the item does not exist, 400 when
  the amount does not exceed the current price, 500 with nothing stored when the database refuses the
  row, and otherwise 200, the bid stored, the price raised and one message to every client. No
  exception leaves the handler.\<close>

theorem bid_outcome:
  assumes "auction_store px durable view to_cents"
    and "rv_ok (load (req_body req))"
    and "json_int ind (load (req_body req)) ''user_id'' = Inr u"
    and "json_int ind (load (req_body req)) ''seller_id'' = Inr sl"
    and "json_int ind (load (req_body req)) ''item_id'' = Inr i"
    and "json_double ind (load (req_body req)) ''bid_amount'' = Inr d"
    and "0 < u" "0 < i" "\<not> double_le d double_zero"
  shows "\<exists>r s'. place_bid px ind req s = (Inr r, s')
    \<and> bid_answer (spec_bid to_cents (durable (conn s)) u i d) d r
    \<and> bid_stored (spec_bid to_cents (durable (conn s)) u i d) u i sl (durable (conn s)) (durable (conn s'))
    \<and> sent s' = sent s @ bid_broadcast (spec_bid to_cents (durable (conn s)) u i d) i d (ws_clients s)
    \<and> ws_clients s' = ws_clients s"
  using auction_store.place_bid_refines [OF assms(1-9), of s]
  by (auto simp: wp_def auction_store.bid_post_def [OF assms(1)] Let_def split: prod.splits sum.splits)

theorem bid_outcome_witness:
  "\<exists>r s'. place_bid mem_px demo_ind (demo_bid ''12.5'') (demo_server demo_tables) = (Inr r, s')
    \<and> r = bid_accepted (Fin False 7036874417766400 (- 49))
    \<and> (\<exists>n. n \<notin> b_id ` set (bids demo_tables) \<and> committed (conn s') = bid_tables n 1 7 1250 2 demo_tables)
    \<and> sent s' = [(3, bid_message 7 (Fin False 7036874417766400 (- 49)))]"
proof -
  let ?d = "Fin False 7036874417766400 (- 49)" and ?b = "demo_bid ''12.5''"
  have out: "spec_bid mem_cents demo_tables 1 7 ?d = Accepted 1250" by code_simp
  have "\<exists>r s'. place_bid mem_px demo_ind ?b (demo_server demo_tables) = (Inr r, s')
    \<and> bid_answer (spec_bid mem_cents (committed (conn (demo_server demo_tables))) 1 7 ?d) ?d r
    \<and> bid_stored (spec_bid mem_cents (committed (conn (demo_server demo_tables))) 1 7 ?d) 1 7 2
        (committed (conn (demo_server demo_tables))) (committed (conn s'))
    \<and> sent s' = sent (demo_server demo_tables) @ bid_broadcast
        (spec_bid mem_cents (committed (conn (demo_server demo_tables))) 1 7 ?d) 7 ?d (ws_clients (demo_server demo_tables))
    \<and> ws_clients s' = ws_clients (demo_server demo_tables)"
  proof (rule bid_outcome)
    show "auction_store mem_px committed working mem_cents" by (fact mem.auction_store_axioms)
    show "rv_ok (load (req_body ?b))" by code_simp
    show "json_int demo_ind (load (req_body ?b)) ''user_id'' = Inr 1" by code_simp
    show "json_int demo_ind (load (req_body ?b)) ''seller_id'' = Inr 2" by code_simp
    show "json_int demo_ind (load (req_body ?b)) ''item_id'' = Inr 7" by code_simp
    show "json_double demo_ind (load (req_body ?b)) ''bid_amount'' = Inr ?d" by code_simp
    show "\<not> double_le ?d double_zero" by code_simp
  qed simp_all
  then show ?thesis by (simp add: out demo_server_def) blast
qed

text \<open>C6: Between whole amounts of cents the comparison of the doubles is exact: a bid of \<open>k\<close> cents on an
  item at \<open>p\<close> cents is rejected when \<open>k \<le> p\<close>, and otherwise accepted and stored as exactly \<open>k\<close> cents unless a
  constraint of the tables forbids the row.\<close>

theorem whole_cents_bid:
  assumes "auction_store px durable view to_cents"
    and "rv_ok (load (req_body req))"
    and "json_int ind (load (req_body req)) ''user_id'' = Inr u"
    and "json_int ind (load (req_body req)) ''seller_id'' = Inr sl"
    and "json_int ind (load (req_body req)) ''item_id'' = Inr i"
    and "json_double ind (load (req_body req)) ''bid_amount'' = Inr (double_of_cents k)"
    and "0 < u" "0 < i" "to_cents (double_of_cents k) = Some k" "0 < k" "k < max_cents"
    and "item_prices i (durable (conn s)) = p # ps" "0 \<le> p" "p < max_cents"
  shows "\<exists>r s'. place_bid px ind req s = (Inr r, s')
    \<and> (k \<le> p \<longrightarrow> r = bid_rejected \<and> durable (conn s') = durable (conn s))
    \<and> (p < k \<and> bid_allowed (durable (conn s)) u i k \<longrightarrow> r = bid_accepted (double_of_cents k)
         \<and> (\<exists>n. durable (conn s') = bid_tables n u i k sl (durable (conn s))))"
proof -
  have le: "double_le (double_of_cents k) (double_of_cents p) \<longleftrightarrow> k \<le> p"
    using assms(10-14) by (intro double_le_cents) simp_all
  have "double_zero = double_of_cents 0" by (simp add: double_zero_def double_of_cents_def double_of_frac_def)
  then have pos: "\<not> double_le (double_of_cents k) double_zero"
    using assms(10,11) double_le_cents [of k 0] by (simp add: max_cents_def)
  have out: "spec_bid to_cents (durable (conn s)) u i (double_of_cents k) =
      (if k \<le> p then TooLow else if bid_allowed (durable (conn s)) u i k then Accepted k else Failed)"
    using le assms(9,12) by (simp add: spec_bid_def)
  from wp_returns [OF auction_store.place_bid_refines [OF assms(1-8) pos, of s]]
  show ?thesis unfolding auction_store.bid_post_def [OF assms(1)] out Let_def by (auto split: if_splits)
qed

theorem whole_cents_bid_witness:
  "\<exists>r s' n. place_bid mem_px demo_ind (demo_bid ''12.5'') (demo_server demo_tables) = (Inr r, s')
     \<and> committed (conn s') = bid_tables n 1 7 1250 2 demo_tables"
proof -
  let ?b = "demo_bid ''12.5''"
  have b: "rv_ok (load (req_body ?b))" "json_int demo_ind (load (req_body ?b)) ''user_id'' = Inr 1"
    "json_int demo_ind (load (req_body ?b)) ''seller_id'' = Inr 2" "json_int demo_ind (load (req_body ?b)) ''item_id'' = Inr 7"
    "json_double demo_ind (load (req_body ?b)) ''bid_amount'' = Inr (double_of_cents 1250)" by code_simp+
  have p: "item_prices 7 demo_tables = [1000]" "bid_allowed demo_tables 1 7 1250"
    by (simp_all add: item_prices_def demo_tables_def bid_allowed_def)
  have c: "mem_cents (double_of_cents 1250) = Some 1250" by (simp add: mem_cents_exact max_cents_def)
  have s: "item_prices 7 (committed (conn (demo_server demo_tables))) = [1000]" using p(1) by simp
  show ?thesis
    using whole_cents_bid [OF mem.auction_store_axioms b _ _ c _ _ s] p(2) by (simp add: max_cents_def) blast
qed

text \<open>C2: Whatever requests and WebSocket events the server handles, and whatever statements of the
  database fail, the committed tables keep their invariant: unique accounts, every bid on an existing item
  by an existing user, no bid above the price of its item, every price the starting price or a bid, and
  every sale to a bidder at an amount that bidder offered.\<close>

theorem server_keeps_tables:
  assumes "sql_effects px durable view to_cents" and "tables_ok (durable (conn s))"
  shows "tables_ok (durable (conn (serve px evs s)))"
  using assms by (rule sql_effects.serve_ok)

theorem server_keeps_tables_witness:
  "tables_ok (committed (conn (serve mem_px
     [WsOpen 4, Request demo_ind (CPlaceBid (demo_bid ''12.5'')), Request demo_ind (CComplete 7)] (demo_server demo_tables))))"
  by (rule server_keeps_tables [OF mem.sql_effects_axioms]) (simp add: demo_tables_ok)

text \<open>C3: The committed history only grows: no request removes a bid or a sale, changes a starting
  price, or lowers the price of an item.\<close>

theorem prices_never_fall:
  assumes "sql_effects px durable view to_cents" and "tables_ok (durable (conn s))"
    and "it \<in> set (items (durable (conn s)))"
  shows "set (bids (durable (conn s))) \<subseteq> set (bids (durable (conn (serve px evs s))))
    \<and> set (txs (durable (conn s))) \<subseteq> set (txs (durable (conn (serve px evs s))))
    \<and> (\<exists>it' \<in> set (items (durable (conn (serve px evs s)))). i_id it' = i_id it
         \<and> starting_price it' = starting_price it \<and> current_price it \<le> current_price it')"
  using sql_effects.serve_grows [OF assms(1,2), of evs] assms(3) by (simp add: grows_def)

theorem prices_never_fall_witness:
  "\<exists>it' \<in> set (items (committed (conn (serve mem_px
      [Request demo_ind (CPlaceBid (demo_bid ''9'')), Request demo_ind (CPlaceBid (demo_bid ''12.5''))]
      (demo_server demo_tables))))). i_id it' = 7 \<and> 1000 \<le> current_price it'"
proof -
  let ?it = "\<lparr>i_id = 7, i_user = 2, i_name = ''lamp'', i_description = [], starting_price = 1000,
                current_price = 1000, bid_end_time = ''soon'', status = Some ''active''\<rparr>"
  have "tables_ok (committed (conn (demo_server demo_tables)))" "?it \<in> set (items (committed (conn (demo_server demo_tables))))"
    by (simp add: demo_tables_ok, simp add: demo_tables_def)
  from prices_never_fall [OF mem.sql_effects_axioms this] show ?thesis by fastforce
qed

text \<open>C4: Completing an auction sells the item to a highest bid at the amount of that bid, records the
  sale and marks the item sold, in one commit; without bids it answers 404 and changes nothing; if the
  ids of the sale do not exist it answers 500 and changes nothing. Neither the status of the item nor
  earlier sales of it are consulted.\<close>

theorem completion_sells_to_highest:
  assumes "auction_store px durable view to_cents" and "tables_ok (durable (conn s))"
  shows "\<exists>r s'. complete_transaction px i s = (Inr r, s')
    \<and> sent s' = sent s \<and> ws_clients s' = ws_clients s
    \<and> (if \<forall>b \<in> set (bids (durable (conn s))). b_item b \<noteq> i
       then r = response_text 404 ''No bids found for the item'' \<and> durable (conn s') = durable (conn s)
       else \<exists>b. is_highest (durable (conn s)) i b \<and>
         (if tx_allowed (durable (conn s)) i (b_user b) (b_seller b)
          then \<exists>n tm. n \<notin> t_id ` set (txs (durable (conn s))) \<and> r = sale_response n i b
                 \<and> durable (conn s') = sell_tables n i b (bid_amount b) tm (durable (conn s))
          else (\<exists>e. r = error_text e) \<and> durable (conn s') = durable (conn s)))"
  using wp_returns [OF auction_store.complete_transaction_refines [OF assms, of i]]
  unfolding auction_store.sale_post_def [OF assms(1)] by blast

theorem completion_sells_to_highest_witness:
  "\<exists>r s' n tm. complete_transaction mem_px 7 (demo_server demo_bid_tables) = (Inr r, s')
     \<and> committed (conn s') = sell_tables n 7 \<lparr>b_id = 1, b_user = 1, b_item = 7, bid_amount = 1250, b_seller = 2\<rparr>
         1250 tm demo_bid_tables"
proof -
  have "tables_ok (committed (conn (demo_server demo_bid_tables)))" by (simp add: demo_tables_ok)
  from completion_sells_to_highest [OF mem.auction_store_axioms this, of 7] show ?thesis
    by (auto simp: demo_bid_tables_def demo_tables_def bid_tables_def set_price_def add_bid_def is_highest_def
        tx_allowed_def)
qed

text \<open>C7: An item can be sold again: completing the same auction twice records two sales.\<close>

theorem completing_twice_sells_twice:
  assumes "auction_store px durable view to_cents" and "tables_ok (durable (conn s))" and "to_int32 i = i"
    and "\<exists>b \<in> set (bids (durable (conn s))). b_item b = i"
    and "\<forall>b \<in> set (bids (durable (conn s))). b_item b = i \<longrightarrow>
      tx_allowed (durable (conn s)) i (b_user b) (b_seller b)"
  shows "length (txs (durable (conn (serve px [Request ind (CComplete i), Request ind' (CComplete i)] s))))
    = length (txs (durable (conn s))) + 2"
  using auction_store.complete_again [OF assms(1,2,4,5)] assms(3) by (simp add: serve_def)

theorem completing_twice_sells_twice_witness:
  "length (txs (committed (conn (serve mem_px [Request demo_ind (CComplete 7), Request demo_ind (CComplete 7)]
     (demo_server demo_bid_tables))))) = 2"
proof -
  have "tables_ok (committed (conn (demo_server demo_bid_tables)))" by (simp add: demo_tables_ok)
  note t = completing_twice_sells_twice [OF mem.auction_store_axioms this, of 7 demo_ind demo_ind]
  then show ?thesis
    by (simp add: to_int32_id demo_bid_tables_def demo_tables_def bid_tables_def set_price_def add_bid_def tx_allowed_def)
qed

text \<open>C5: A request that is answered 400 or 404 leaves the committed database, the connected clients and
  the messages sent to them as they were, whatever the database does.\<close>

theorem refused_requests_change_nothing:
  assumes "transactional px durable" and "run_call px ind cl s = (Inr r, s')" and "code r = 400 \<or> code r = 404"
  shows "durable (conn s') = durable (conn s) \<and> sent s' = sent s \<and> ws_clients s' = ws_clients s"
  using wp_Inr [OF transactional.run_call_refusing [OF assms(1)] assms(2)] assms(3)
  by (auto simp: transactional.refusing_def [OF assms(1)] transactional.calm_def [OF assms(1)])

theorem refused_requests_change_nothing_witness:
  "committed (conn (snd (run_call mem_px demo_ind (CPlaceBid (demo_bid ''9'')) (demo_server demo_tables)))) = demo_tables"
proof -
  obtain r s' where r: "run_call mem_px demo_ind (CPlaceBid (demo_bid ''9'')) (demo_server demo_tables) = (Inr r, s')"
    and c: "code r = 400"
  proof -
    have "case run_call mem_px demo_ind (CPlaceBid (demo_bid ''9'')) (demo_server demo_tables) of
        (Inr r, s') \<Rightarrow> code r = 400 | (Inl e, s') \<Rightarrow> False"
      by code_simp
    then show ?thesis using that by (auto split: prod.splits sum.splits)
  qed
  from refused_requests_change_nothing [OF mem.transactional_axioms r] c r show ?thesis by simp
qed

text \<open>C21: The bidder who outbids every earlier bid gets the item: after the bid was accepted, completing
  the auction records the sale to that bidder, for the amount of the bid, and marks the item sold.\<close>

theorem winning_bid_is_sold:
  assumes "auction_store px durable view to_cents" and "tables_ok (durable (conn s))"
    and "rv_ok (load (req_body req))"
    and "json_int ind (load (req_body req)) ''user_id'' = Inr u"
    and "json_int ind (load (req_body req)) ''seller_id'' = Inr sl"
    and "json_int ind (load (req_body req)) ''item_id'' = Inr i"
    and "json_double ind (load (req_body req)) ''bid_amount'' = Inr d"
    and "0 < u" "0 < i" "\<not> double_le d double_zero"
    and acc: "spec_bid to_cents (durable (conn s)) u i d = Accepted k"
    and top: "\<forall>b \<in> set (bids (durable (conn s))). b_item b = i \<longrightarrow> bid_amount b < k"
    and sl: "sl \<in> u_id ` set (users (durable (conn s)))"
  shows "\<exists>r1 s1 r2 s2. place_bid px ind req s = (Inr r1, s1) \<and> complete_transaction px i s1 = (Inr r2, s2)
    \<and> code r1 = 200 \<and> code r2 = 200
    \<and> (\<exists>x \<in> set (txs (durable (conn s2))). t_item x = i \<and> t_buyer x = u \<and> t_seller x = sl \<and> final_price x = k)
    \<and> (\<forall>it \<in> set (items (durable (conn s2))). i_id it = i \<longrightarrow> status it = Some ''sold'')"
  using auction_store.winning_sale [OF assms(1-7) _ _ _ assms(11-)] assms(8-10) by blast

theorem winning_bid_is_sold_witness:
  "\<exists>r1 s1 r2 s2. place_bid mem_px demo_ind (demo_bid ''12.5'') (demo_server demo_tables) = (Inr r1, s1)
     \<and> complete_transaction mem_px 7 s1 = (Inr r2, s2) \<and> code r1 = 200 \<and> code r2 = 200
     \<and> (\<exists>x \<in> set (txs (committed (conn s2))). t_item x = 7 \<and> t_buyer x = 1 \<and> t_seller x = 2 \<and> final_price x = 1250)"
proof -
  let ?d = "Fin False 7036874417766400 (- 49)" and ?b = "demo_bid ''12.5''"
  have c: "conn (demo_server demo_tables) = conn (demo_server demo_tables)" ..
  have "\<exists>r1 s1 r2 s2. place_bid mem_px demo_ind ?b (demo_server demo_tables) = (Inr r1, s1)
    \<and> complete_transaction mem_px 7 s1 = (Inr r2, s2) \<and> code r1 = 200 \<and> code r2 = 200
    \<and> (\<exists>x \<in> set (txs (committed (conn s2))). t_item x = 7 \<and> t_buyer x = 1 \<and> t_seller x = 2 \<and> final_price x = 1250)
    \<and> (\<forall>it \<in> set (items (committed (conn s2))). i_id it = 7 \<longrightarrow> status it = Some ''sold'')"
  proof (rule winning_bid_is_sold)
    show "auction_store mem_px committed working mem_cents" by (fact mem.auction_store_axioms)
    show "tables_ok (committed (conn (demo_server demo_tables)))" by (simp add: demo_tables_ok)
    show "rv_ok (load (req_body ?b))" by code_simp
    show "json_int demo_ind (load (req_body ?b)) ''user_id'' = Inr 1" by code_simp
    show "json_int demo_ind (load (req_body ?b)) ''seller_id'' = Inr 2" by code_simp
    show "json_int demo_ind (load (req_body ?b)) ''item_id'' = Inr 7" by code_simp
    show "json_double demo_ind (load (req_body ?b)) ''bid_amount'' = Inr ?d" by code_simp
    show "\<not> double_le ?d double_zero" by code_simp
    show "spec_bid mem_cents (committed (conn (demo_server demo_tables))) 1 7 ?d = Accepted 1250" by code_simp
  qed (simp_all add: demo_tables_def)
  then show ?thesis by blast
qed

text \<open>C22: A user who registers can log in with that name and password afterwards, and with no other
  password; the account is stored in one commit.\<close>

theorem registered_users_log_in:
  assumes "auction_store px durable view to_cents"
    and "credentials req un pw" "json_text (load (req_body req)) ''email'' = Inr em" "credentials req' un pw'"
    and "un \<notin> username ` set (users (durable (conn s)))" "em \<notin> email ` set (users (durable (conn s)))"
    and "length un \<le> 50" "length em \<le> 100" "nul \<notin> set (un @ em @ pw)"
  shows "\<exists>r s' n. register_user px req s = (Inr r, s') \<and> code r = 201
    \<and> durable (conn s') = add_user n un em pw (durable (conn s))
    \<and> (\<exists>r' s''. login px req' s' = (Inr r', s'') \<and> durable (conn s'') = durable (conn s')
         \<and> r' = (if pw' = pw then response_json 200 (wobj [(''message'', WString ''Login successful''), (''id'', WSigned n)])
                 else response_json 400 (wobj [(''message'', WString ''Invalid password'')])))"
proof -
  obtain r s' n where 1: "register_user px req s = (Inr r, s')" "code r = 201"
      "durable (conn s') = add_user n un em pw (durable (conn s))"
    using wp_returns [OF auction_store.register_refines [OF assms(1-3,5-9)]] by auto
  obtain r' s'' where 2: "login px req' s' = (Inr r', s'')" "r' = login_answer (durable (conn s')) un pw'"
      "durable (conn s'') = durable (conn s')"
    using wp_returns [OF auction_store.login_refines [OF assms(1,4), of s']] assms(9) by auto
  have "filter (\<lambda>u. username u = un) (users (durable (conn s))) = []" using assms(5) by (auto simp: filter_empty_conv)
  then have "login_answer (durable (conn s')) un pw' =
      (if pw' = pw then response_json 200 (wobj [(''message'', WString ''Login successful''), (''id'', WSigned n)])
       else response_json 400 (wobj [(''message'', WString ''Invalid password'')]))"
    by (simp add: 1(3) login_answer_def add_user_def)
  with 1 2 show ?thesis by metis
qed

theorem registered_users_log_in_witness:
  "\<exists>r s'. register_user mem_px (demo_account ''cy'' ''c@x'' ''pw'') (demo_server demo_tables) = (Inr r, s') \<and> code r = 201"
proof -
  let ?r = "demo_account ''cy'' ''c@x'' ''pw''"
  have c: "credentials ?r ''cy'' ''pw''" unfolding credentials_def by (intro conjI) code_simp+
  have e: "json_text (load (req_body ?r)) ''email'' = Inr ''c@x''" by code_simp
  have f: "''cy'' \<notin> username ` set (users (committed (conn (demo_server demo_tables))))"
    "''c@x'' \<notin> email ` set (users (committed (conn (demo_server demo_tables))))"
    by (simp_all add: demo_tables_def)
  have l: "length ''cy'' \<le> 50" "length ''c@x'' \<le> 100" "nul \<notin> set (''cy'' @ ''c@x'' @ ''pw'')" by (code_simp, code_simp, code_simp)
  show ?thesis using registered_users_log_in [OF mem.auction_store_axioms c e c f l] by blast
qed

end
